(* ===== verification/Kernel_Base.thy ===== *)
theory Kernel_Base imports Main "HOL-Library.Word" begin

text \<open>
  Prelude of the development: the faults a kernel module can run into and the computations that
  may run into one, the bytes of a C object and the reads and writes into it, and the parts of the
  kernel's string library (strncmp, strncpy, snprintf, decimal and hexadecimal conversion) that the
  modules of the repository use. Everything here is shared by the component theories.

  A pointer that may be NULL is an option. A C object is the list of its bytes, and an access
  outside of it is a fault, never an unspecified value. A C int is a 32 word read with sint, an
  unsigned long a 64 word read with unat, char is signed as on x86.
\<close>

unbundle bit_operations_syntax

named_theorems run_simps
named_theorems buffer_simps

section \<open>Computations that may fault\<close>

datatype fault =
    Read_out_of_bounds
  | Write_out_of_bounds
  | Null_dereference
  | Null_call
  | Invalid_free
  | Use_after_free
  | Missing_argument
  | Write_protected

type_synonym 'a run = "fault + 'a"

definition run_bind :: "'a run \<Rightarrow> ('a \<Rightarrow> 'b run) \<Rightarrow> 'b run" where
  "run_bind m k = (case m of Inl e \<Rightarrow> Inl e | Inr x \<Rightarrow> k x)"

lemma run_bind_Inr [simp, run_simps]: "run_bind (Inr x) k = k x"
  by (simp add: run_bind_def)

lemma run_bind_Inl [simp, run_simps]: "run_bind (Inl e) k = Inl e"
  by (simp add: run_bind_def)

lemma run_bind_eq_Inr: "run_bind m k = Inr y \<longleftrightarrow> (\<exists>x. m = Inr x \<and> k x = Inr y)"
  by (cases m) auto

lemma run_bind_eq_Inl:
  "run_bind m k = Inl e \<longleftrightarrow> m = Inl e \<or> (\<exists>x. m = Inr x \<and> k x = Inl e)"
  by (cases m) auto

lemma run_bind_cong [fundef_cong]:
  "m = m' \<Longrightarrow> (\<And>x. m' = Inr x \<Longrightarrow> k x = k' x) \<Longrightarrow> run_bind m k = run_bind m' k'"
  by (cases m') auto

lemma run_bind_assoc: "run_bind (run_bind m k) h = run_bind m (\<lambda>x. run_bind (k x) h)"
  by (cases m) auto

lemma run_bind_ret [simp]: "run_bind m Inr = m"
  by (cases m) auto

section \<open>Bytes of an object\<close>

abbreviation NUL :: char where
  "NUL \<equiv> CHR 0x00"

definition load :: "char list \<Rightarrow> nat \<Rightarrow> char run" where
  "load b i = (if i < length b then Inr (b ! i) else Inl Read_out_of_bounds)"

definition store :: "char list \<Rightarrow> nat \<Rightarrow> char \<Rightarrow> char list run" where
  "store b i c = (if i < length b then Inr (b[i := c]) else Inl Write_out_of_bounds)"

definition blit :: "char list \<Rightarrow> nat \<Rightarrow> char list \<Rightarrow> char list run" where
  "blit b off xs =
     (if off + length xs \<le> length b
      then Inr (take off b @ xs @ drop (off + length xs) b)
      else Inl Write_out_of_bounds)"

lemma load_in [buffer_simps]: "i < length b \<Longrightarrow> load b i = Inr (b ! i)"
  by (simp add: load_def)

lemma load_out [buffer_simps]: "length b \<le> i \<Longrightarrow> load b i = Inl Read_out_of_bounds"
  by (simp add: load_def)

lemma load_append_left: "i < length xs \<Longrightarrow> load (xs @ ys) i = Inr (xs ! i)"
  by (simp add: load_def nth_append)

lemma load_append_at [simp]: "load (xs @ y # ys) (length xs) = Inr y"
  by (simp add: load_def)

lemma store_in [buffer_simps]: "i < length b \<Longrightarrow> store b i c = Inr (b[i := c])"
  by (simp add: store_def)

lemma blit_in [buffer_simps]:
  "off + length xs \<le> length b \<Longrightarrow> blit b off xs = Inr (take off b @ xs @ drop (off + length xs) b)"
  by (simp add: blit_def)

lemma blit_length: "blit b off xs = Inr b' \<Longrightarrow> length b' = length b"
  by (auto simp: blit_def split: if_splits)

text \<open>The C string an object holds: the bytes before the first NUL.\<close>

definition cstr :: "char list \<Rightarrow> string" where
  "cstr b = takeWhile (\<lambda>c. c \<noteq> NUL) b"

lemma cstr_Nil [simp]: "cstr [] = []"
  by (simp add: cstr_def)

lemma cstr_Cons [simp]: "cstr (c # b) = (if c = NUL then [] else c # cstr b)"
  by (simp add: cstr_def)

lemma cstr_no_nul [simp]: "NUL \<notin> set (cstr b)"
  by (auto simp: cstr_def dest: set_takeWhileD)

lemma cstr_append: "NUL \<notin> set s \<Longrightarrow> cstr (s @ b) = s @ cstr b"
  by (induction s) auto

lemma cstr_id [simp]: "NUL \<notin> set s \<Longrightarrow> cstr s = s"
  using cstr_append [of s "[]"] by simp

lemma cstr_replicate_NUL [simp]: "cstr (replicate n NUL) = []"
  by (cases n) auto

lemma cstr_length: "length (cstr b) \<le> length b"
  by (simp add: cstr_def length_takeWhile_le)

text \<open>A signed char read as the int that C promotes it to.\<close>

definition schar :: "char \<Rightarrow> int" where
  "schar c = (let n = of_char c in if n < 128 then n else n - 256)"

section \<open>String library\<close>

fun strncmp :: "char list \<Rightarrow> char list \<Rightarrow> nat \<Rightarrow> int" where
  "strncmp xs ys 0 = 0"
| "strncmp xs ys (Suc n) =
     (let x = (case xs of [] \<Rightarrow> NUL | c # _ \<Rightarrow> c);
          y = (case ys of [] \<Rightarrow> NUL | c # _ \<Rightarrow> c)
      in if x \<noteq> y then of_char x - of_char y
         else if x = NUL then 0
         else strncmp (tl xs) (tl ys) n)"

lemma strncmp_eq_0: "strncmp xs ys n = 0 \<longleftrightarrow> take n (cstr xs) = take n (cstr ys)"
  by (induction xs ys n rule: strncmp.induct) (auto simp: Let_def split: list.splits)

declare strncmp.simps [simp del]

lemma strncmp_eq_0_short:
  assumes "length (cstr ys) < n"
  shows "strncmp xs ys n = 0 \<longleftrightarrow> cstr xs = cstr ys"
proof (cases "length (cstr xs) < n")
  case True
  with assms show ?thesis by (simp add: strncmp_eq_0)
next
  case False
  then have "length (take n (cstr xs)) \<noteq> length (take n (cstr ys))" using assms by simp
  then have "take n (cstr xs) \<noteq> take n (cstr ys)" by metis
  moreover have "cstr xs \<noteq> cstr ys" using False assms by auto
  ultimately show ?thesis by (simp add: strncmp_eq_0)
qed

text \<open>The n bytes that strncpy writes: the string, cut at n, padded with NUL.\<close>

definition strncpy :: "char list \<Rightarrow> nat \<Rightarrow> char list" where
  "strncpy src n = take n (cstr src @ replicate n NUL)"

lemma strncpy_length [simp]: "length (strncpy src n) = n"
  by (simp add: strncpy_def)

lemma cstr_strncpy: "cstr (strncpy src n) = take n (cstr src)"
proof -
  have "NUL \<notin> set (take n (cstr src))"
    by (meson cstr_no_nul in_set_takeD)
  then show ?thesis
    by (simp add: strncpy_def take_append cstr_append)
qed

text \<open>
  snprintf of an already formatted text at an offset of an object. The kernel's version refuses a
  size that is negative as an int (it then writes nothing and returns 0); otherwise it writes at
  most size bytes, the last one NUL, and returns the length of the whole text.
\<close>

definition snprintf_at :: "char list \<Rightarrow> nat \<Rightarrow> 64 word \<Rightarrow> string \<Rightarrow> (char list \<times> nat) run" where
  "snprintf_at b off sz txt =
     (if sint (ucast sz :: 32 word) < 0 then Inr (b, 0)
      else if sz = 0 then Inr (b, length txt)
      else run_bind (blit b off (take (unat sz - 1) txt @ [NUL])) (\<lambda>b'. Inr (b', length txt)))"

text \<open>The text that snprintf leaves in a whole buffer of n bytes.\<close>

definition snprintf_text :: "nat \<Rightarrow> string \<Rightarrow> string" where
  "snprintf_text n txt = take (n - 1) txt"

lemma snprintf_text_fits [simp]: "length txt < n \<Longrightarrow> snprintf_text n txt = txt"
  by (simp add: snprintf_text_def)

section \<open>A Hoare calculus for the faults\<close>

text \<open>The computation m runs into no fault of F, and its result, if it has one, satisfies Q.\<close>

definition ensures :: "fault set \<Rightarrow> 'a run \<Rightarrow> ('a \<Rightarrow> bool) \<Rightarrow> bool" where
  "ensures F m Q = (case m of Inl e \<Rightarrow> e \<notin> F | Inr x \<Rightarrow> Q x)"

named_theorems ensures_rules

lemma ensures_Inr [simp]: "ensures F (Inr x) Q = Q x"
  by (simp add: ensures_def)

lemma ensures_Inl [simp]: "ensures F (Inl e) Q = (e \<notin> F)"
  by (simp add: ensures_def)

lemma ensures_bind:
  "ensures F m Q \<Longrightarrow> (\<And>x. m = Inr x \<Longrightarrow> Q x \<Longrightarrow> ensures F (k x) R) \<Longrightarrow> ensures F (run_bind m k) R"
  by (cases m) auto

lemma ensures_weaken: "ensures F m Q \<Longrightarrow> (\<And>x. Q x \<Longrightarrow> R x) \<Longrightarrow> ensures F m R"
  by (cases m) auto

lemma ensures_if [ensures_rules]:
  "(c \<Longrightarrow> ensures F m Q) \<Longrightarrow> (\<not> c \<Longrightarrow> ensures F n Q) \<Longrightarrow> ensures F (if c then m else n) Q"
  by simp

lemma ensures_case_triple:
  "(r = None \<Longrightarrow> ensures F m Q) \<Longrightarrow> (\<And>x y z. r = Some (x, y, z) \<Longrightarrow> ensures F (k x y z) Q) \<Longrightarrow>
   ensures F (case r of None \<Rightarrow> m | Some (x, y, z) \<Rightarrow> k x y z) Q"
  by (auto split: option.splits)

lemma ensures_case_pair:
  "(r = None \<Longrightarrow> ensures F m Q) \<Longrightarrow> (\<And>x y. r = Some (x, y) \<Longrightarrow> ensures F (k x y) Q) \<Longrightarrow>
   ensures F (case r of None \<Rightarrow> m | Some (x, y) \<Rightarrow> k x y) Q"
  by (auto split: option.splits)

lemma ensures_not_Inl: "ensures F m Q \<Longrightarrow> e \<in> F \<Longrightarrow> m \<noteq> Inl e"
  by auto

lemma ensures_total: "ensures UNIV m Q \<Longrightarrow> \<exists>x. m = Inr x \<and> Q x"
  by (cases m) auto

lemma ensures_load [ensures_rules]: "Read_out_of_bounds \<notin> F \<Longrightarrow> ensures F (load b i) (\<lambda>_. True)"
  by (simp add: load_def)

lemma ensures_store:
  "i < length b \<Longrightarrow> ensures F (store b i c) (\<lambda>b'. length b' = length b)"
  by (simp add: store_def)

section \<open>C strings inside an object\<close>

text \<open>At offset p of the object b starts the C string s: its characters, then a NUL.\<close>

definition c_string :: "char list \<Rightarrow> nat \<Rightarrow> string \<Rightarrow> bool" where
  "c_string b p s \<longleftrightarrow> NUL \<notin> set s \<and> (\<exists>pre post. b = pre @ s @ NUL # post \<and> p = length pre)"

lemma c_stringI: "NUL \<notin> set s \<Longrightarrow> b = pre @ s @ NUL # post \<Longrightarrow> p = length pre \<Longrightarrow> c_string b p s"
  by (auto simp: c_string_def)

lemma c_string_no_nul: "c_string b p s \<Longrightarrow> NUL \<notin> set s"
  by (simp add: c_string_def)

lemma c_string_load: "c_string b p s \<Longrightarrow> i < length s \<Longrightarrow> load b (p + i) = Inr (s ! i)"
  by (auto simp: c_string_def load_def nth_append)

lemma c_string_load_end: "c_string b p s \<Longrightarrow> load b (p + length s) = Inr NUL"
  by (auto simp: c_string_def load_def nth_append)

lemma c_string_suffix: "c_string b p (s @ t) \<Longrightarrow> c_string b (p + length s) t"
proof -
  assume "c_string b p (s @ t)"
  then obtain pre post where "NUL \<notin> set (s @ t)" "b = (pre @ s) @ t @ NUL # post" "p = length pre"
    by (auto simp: c_string_def)
  then show ?thesis by (intro c_stringI [of t b "pre @ s" post]) auto
qed

lemma c_string_Cons: "c_string b p (c # s) \<Longrightarrow> c_string b (Suc p) s"
  using c_string_suffix [of b p "[c]" s] by simp

lemma c_string_load_Cons: "c_string b p (c # s) \<Longrightarrow> load b p = Inr c"
  using c_string_load [of b p "c # s" 0] by simp

lemma c_string_load_Nil: "c_string b p [] \<Longrightarrow> load b p = Inr NUL"
  using c_string_load_end [of b p "[]"] by simp

text \<open>
  The loop \<^verbatim>\<open>for(i = 0; i < n && ip[i] != 0; ++i) if(test(ip[i])) return\<close>: whether it leaves
  through the return.
\<close>

function scan :: "(char \<Rightarrow> bool) \<Rightarrow> char list \<Rightarrow> nat \<Rightarrow> nat \<Rightarrow> nat \<Rightarrow> bool run" where
  "scan test b p n i =
     (if i < n
      then run_bind (load b (p + i))
             (\<lambda>c. if c = NUL then Inr False
                  else if test c then Inr True
                  else scan test b p n (Suc i))
      else Inr False)"
  by pat_completeness auto
termination
  by (relation "measure (\<lambda>(test, b, p, n, i). n - i)") auto

declare scan.simps [simp del]

lemma scan_spec:
  "c_string b p s \<Longrightarrow> i \<le> length s \<Longrightarrow>
   scan test b p n i = Inr (\<exists>c \<in> set (drop i (take n s)). test c)"
proof (induction test b p n i rule: scan.induct)
  case (1 test b p n i)
  show ?case
  proof (cases "i < n \<and> i < length s")
    case True
    then have "drop i (take n s) = s ! i # drop (Suc i) (take n s)"
      by (simp add: Cons_nth_drop_Suc [symmetric])
    moreover have "s ! i \<noteq> NUL"
      using True c_string_no_nul [OF "1.prems"(1)] nth_mem by metis
    ultimately show ?thesis
      using True "1.IH" "1.prems"
      by (auto simp: scan.simps [of test b p n i] c_string_load)
  next
    case False
    then have "drop i (take n s) = []" using "1.prems"(2) by auto
    moreover have "scan test b p n i = Inr False"
      using False "1.prems"(2) c_string_load_end [OF "1.prems"(1)]
      by (subst scan.simps) (auto simp: le_less)
    ultimately show ?thesis by simp
  qed
qed

section \<open>Lists with a separator\<close>

lemma append_sep_inj:
  "x \<notin> set a \<Longrightarrow> x \<notin> set b \<Longrightarrow> a @ x # r = b @ x # r' \<longleftrightarrow> a = b \<and> r = r'"
proof (induction a arbitrary: b)
  case Nil
  then show ?case by (cases b) auto
next
  case (Cons y a)
  then show ?case by (cases b) auto
qed

section \<open>Numbers as text\<close>

definition digit_char :: "nat \<Rightarrow> char" where
  "digit_char d = (if d < 10 then char_of (48 + d) else char_of (87 + d))"

definition digit_value :: "char \<Rightarrow> nat" where
  "digit_value c = (let n = of_char c in if n < 58 then n - 48 else n - 87)"

lemma digit_value_char [simp]: "d < 16 \<Longrightarrow> digit_value (digit_char d) = d"
  by (auto simp: digit_value_def digit_char_def Let_def)

fun radix_string :: "nat \<Rightarrow> nat \<Rightarrow> string" where
  "radix_string b n =
     (if n < b \<or> b < 2 then [digit_char n]
      else radix_string b (n div b) @ [digit_char (n mod b)])"

declare radix_string.simps [simp del]

definition radix_value :: "nat \<Rightarrow> string \<Rightarrow> nat" where
  "radix_value b s = foldl (\<lambda>a c. b * a + digit_value c) 0 s"

lemma radix_value_Nil [simp]: "radix_value b [] = 0"
  by (simp add: radix_value_def)

lemma radix_value_snoc [simp]: "radix_value b (s @ [c]) = b * radix_value b s + digit_value c"
  by (simp add: radix_value_def)

lemma radix_value_string: "2 \<le> b \<Longrightarrow> b \<le> 16 \<Longrightarrow> radix_value b (radix_string b n) = n"
proof (induction b n rule: radix_string.induct)
  case (1 b n)
  show ?case
  proof (cases "n < b")
    case True
    with "1.prems" show ?thesis
      by (simp add: radix_string.simps [of b n] radix_value_def)
  next
    case False
    moreover have "n mod b < 16"
      using "1.prems" mod_less_divisor [of b n] by linarith
    ultimately show ?thesis
      using "1.IH" "1.prems" by (simp add: radix_string.simps [of b n])
  qed
qed

lemma radix_string_inj:
  "2 \<le> b \<Longrightarrow> b \<le> 16 \<Longrightarrow> radix_string b m = radix_string b n \<longleftrightarrow> m = n"
  by (metis radix_value_string)

lemma radix_string_digits:
  "2 \<le> b \<Longrightarrow> c \<in> set (radix_string b n) \<Longrightarrow> \<exists>d<b. c = digit_char d"
proof (induction b n rule: radix_string.induct)
  case (1 b n)
  show ?case
  proof (cases "n < b")
    case True
    with "1.prems" show ?thesis by (auto simp: radix_string.simps [of b n])
  next
    case False
    with "1.prems" have "c \<in> set (radix_string b (n div b)) \<or> c = digit_char (n mod b)"
      by (auto simp: radix_string.simps [of b n])
    then show ?thesis
    proof
      assume "c \<in> set (radix_string b (n div b))"
      then show ?thesis using "1.IH" "1.prems"(1) False by simp
    next
      assume "c = digit_char (n mod b)"
      moreover have "n mod b < b" using "1.prems"(1) by simp
      ultimately show ?thesis by blast
    qed
  qed
qed

lemma radix_string_nonempty [simp]: "radix_string b n \<noteq> []"
  by (simp add: radix_string.simps)

lemma radix_string_length: "2 \<le> b \<Longrightarrow> n < b ^ k \<Longrightarrow> 0 < k \<Longrightarrow> length (radix_string b n) \<le> k"
proof (induction b n arbitrary: k rule: radix_string.induct)
  case (1 b n)
  show ?case
  proof (cases "n < b")
    case True
    with "1.prems" show ?thesis by (simp add: radix_string.simps [of b n])
  next
    case False
    then obtain j where k: "k = Suc j" "0 < j"
      using "1.prems" by (cases k) (auto intro: Suc_lessI, cases "k = 1", auto)
    moreover have "n div b < b ^ j"
      using "1.prems" k by (simp add: less_mult_imp_div_less mult.commute)
    ultimately show ?thesis
      using "1.IH" [of j] "1.prems" False by (simp add: radix_string.simps [of b n])
  qed
qed

lemma digit_chars_16: "d < 16 \<Longrightarrow> digit_char d \<in> set ''0123456789abcdef''"
proof -
  have "\<forall>d \<in> set [0..<16]. digit_char d \<in> set ''0123456789abcdef''" by code_simp
  then show "d < 16 \<Longrightarrow> ?thesis" by simp
qed

lemma digit_chars_10: "d < 10 \<Longrightarrow> digit_char d \<in> set ''0123456789''"
proof -
  have "\<forall>d \<in> set [0..<10]. digit_char d \<in> set ''0123456789''" by code_simp
  then show "d < 10 \<Longrightarrow> ?thesis" by simp
qed

definition dec_string :: "nat \<Rightarrow> string" where
  "dec_string = radix_string 10"

text \<open>The conversion %04x of printf.\<close>

definition fmt_04x :: "nat \<Rightarrow> string" where
  "fmt_04x n = (let s = radix_string 16 n in replicate (4 - length s) (CHR ''0'') @ s)"

lemma dec_string_inj [simp]: "dec_string m = dec_string n \<longleftrightarrow> m = n"
  by (simp add: dec_string_def radix_string_inj)

lemma dec_string_chars: "c \<in> set (dec_string n) \<Longrightarrow> c \<in> set ''0123456789''"
  using radix_string_digits [of 10 c n] digit_chars_10 by (auto simp: dec_string_def)

lemma dec_string_no_nul: "NUL \<notin> set (dec_string n)"
  by (auto dest!: dec_string_chars)

lemma dec_string_length: "n < 10 ^ k \<Longrightarrow> 0 < k \<Longrightarrow> length (dec_string n) \<le> k"
  by (simp add: dec_string_def radix_string_length)

lemma radix_value_zeros: "radix_value b (replicate k (CHR ''0'') @ s) = radix_value b s"
  by (induction k) (simp_all add: radix_value_def digit_value_def)

lemma fmt_04x_inj [simp]: "fmt_04x m = fmt_04x n \<longleftrightarrow> m = n"
proof -
  have "radix_value 16 (fmt_04x k) = k" for k
    by (simp add: fmt_04x_def Let_def radix_value_zeros radix_value_string)
  then show ?thesis by metis
qed

lemma fmt_04x_length: "n < 65536 \<Longrightarrow> length (fmt_04x n) = 4"
  using radix_string_length [of 16 n 4] by (simp add: fmt_04x_def Let_def)

lemma fmt_04x_chars: "c \<in> set (fmt_04x n) \<Longrightarrow> c \<in> set ''0123456789abcdef''"
  using radix_string_digits [of 16 c n] digit_chars_16
  by (auto simp: fmt_04x_def Let_def split: if_splits)

section \<open>The kernel log\<close>

text \<open>
  The records of the modules that print extend this one: the texts given to printk, in order,
  without the level prefix.
\<close>

record kernel_log =
  klog :: "string list"

definition printk :: "string \<Rightarrow> 'a kernel_log_scheme \<Rightarrow> 'a kernel_log_scheme" where
  "printk txt s = s\<lparr>klog := klog s @ [txt]\<rparr>"

lemma klog_printk [simp]: "klog (printk txt s) = klog s @ [txt]"
  by (simp add: printk_def)

text \<open>The conversion %d of printf.\<close>

definition fmt_d :: "int \<Rightarrow> string" where
  "fmt_d i = (if i < 0 then CHR ''-'' # dec_string (nat (- i)) else dec_string (nat i))"

lemma fmt_d_inj [simp]: "fmt_d i = fmt_d j \<longleftrightarrow> i = j"
proof -
  have minus: "dec_string n \<noteq> CHR ''-'' # t" for n t
  proof
    assume "dec_string n = CHR ''-'' # t"
    then have "CHR ''-'' \<in> set (dec_string n)" by simp
    from dec_string_chars [OF this] show False by simp
  qed
  show ?thesis
    using minus minus [symmetric] by (auto simp: fmt_d_def)
qed

section \<open>What the kernel offers to several modules\<close>

text \<open>The states of a module that a notifier is told about; the last one stands for any other value.\<close>

datatype module_state =
    MODULE_STATE_LIVE
  | MODULE_STATE_COMING
  | MODULE_STATE_GOING
  | MODULE_STATE_OTHER

text \<open>
  A reader of a proc file calls the read_proc function with a growing offset until nothing is
  returned. A read_proc function that gives the whole text at offset 0 and nothing later shows the
  text exactly once.
\<close>

fun cat_file :: "(int \<Rightarrow> string) \<Rightarrow> nat \<Rightarrow> int \<Rightarrow> string" where
  "cat_file reader 0 offset = []"
| "cat_file reader (Suc n) offset =
     (let t = reader offset in if t = [] then [] else t @ cat_file reader n (offset + int (length t)))"

locale proc_reader =
  fixes reader :: "int \<Rightarrow> string" and contents :: string
  assumes at_start: "reader 0 = contents" and later: "0 < offset \<Longrightarrow> reader offset = []"
begin

lemma cat_later: "0 < offset \<Longrightarrow> cat_file reader n offset = []"
  by (cases n) (simp_all add: later)

lemma cat_whole: "cat_file reader (Suc (Suc n)) 0 = contents"
  by (auto simp: at_start later simp del: cat_file.simps(2) simp: cat_file.simps(2) [of reader "Suc n"] cat_later Let_def)

end

end
