(* ===== verification/Inet_Utils.thy ===== *)
theory Inet_Utils imports Kernel_Base begin

text \<open>
  netlog/src/inet_utils.c: what netlog reads out of sockets and socket addresses. The static
  buffers that the address functions print into are a map from the buffer to its text, and a
  returned char pointer is the name of the buffer (None for NULL), so that a later call through
  the same buffer changes what an earlier result points to, as in the code.
\<close>

section \<open>Sockets\<close>

type_synonym be16 = "16 word"
type_synonym be32 = "32 word"

definition AF_INET :: "16 word" where "AF_INET = 2"
definition AF_INET6 :: "16 word" where "AF_INET6 = 10"
definition IPPROTO_TCP :: "8 word" where "IPPROTO_TCP = 6"
definition IPPROTO_UDP :: "8 word" where "IPPROTO_UDP = 17"

definition INET6_ADDRSTRLEN :: nat where "INET6_ADDRSTRLEN = 48"
definition INET_ADDRSTRLEN :: nat where "INET_ADDRSTRLEN = 16"

text \<open>The eight s6_addr16 fields of a struct in6_addr, in network byte order.\<close>

datatype in6_addr = In6_addr be16 be16 be16 be16 be16 be16 be16 be16

record sock =
  sk_family :: "16 word"
  sk_protocol :: "8 word"
  inet_saddr :: be32
  inet_daddr :: be32
  inet_sport :: be16
  inet_dport :: be16
  saddr6 :: in6_addr
  daddr6 :: in6_addr

record socket =
  sk :: "sock option"

record sockaddr =
  sa_family :: "16 word"
  sin_port :: be16
  sin_addr :: be32
  sin6_addr :: in6_addr

text \<open>ntohs on a little-endian machine.\<close>

definition ntohs :: "16 word \<Rightarrow> 16 word" where
  "ntohs x = push_bit 8 x OR drop_bit 8 x"

lemma ntohs_ntohs [simp]: "ntohs (ntohs x) = x"
  by (rule bit_word_eqI) (auto simp: ntohs_def bit_simps)

lemma ntohs_inj [simp]: "ntohs x = ntohs y \<longleftrightarrow> x = y"
  by (metis ntohs_ntohs)

section \<open>The static buffers\<close>

datatype ip_buf =
    source_ipv4 | source_ipv6
  | destination_ipv4 | destination_ipv6
  | get_ip_ipv4 | get_ip_ipv6

type_synonym inet_bufs = "ip_buf \<Rightarrow> string"

section \<open>Printing addresses\<close>

text \<open>NIPQUAD: the four bytes of an IPv4 address in memory order.\<close>

definition addr_byte :: "be32 \<Rightarrow> nat \<Rightarrow> nat" where
  "addr_byte a i = unat (ucast (drop_bit (8 * i) a) :: 8 word)"

definition nipquad :: "be32 \<Rightarrow> nat list" where
  "nipquad a = [addr_byte a 0, addr_byte a 1, addr_byte a 2, addr_byte a 3]"

text \<open>NIP6: the eight groups of an IPv6 address in host byte order.\<close>

fun nip6 :: "in6_addr \<Rightarrow> nat list" where
  "nip6 (In6_addr a b c d e f g h) = map (\<lambda>x. unat (ntohs x)) [a, b, c, d, e, f, g, h]"

fun join :: "char \<Rightarrow> string list \<Rightarrow> string" where
  "join sep [] = []"
| "join sep [s] = s"
| "join sep (s # ss) = s @ sep # join sep ss"

definition format_ipv4 :: "be32 \<Rightarrow> string" where
  "format_ipv4 a = join (CHR ''.'') (map dec_string (nipquad a))"

definition format_ipv6 :: "in6_addr \<Rightarrow> string" where
  "format_ipv6 a = CHR ''['' # join (CHR '':'') (map fmt_04x (nip6 a)) @ [CHR '']'']"

definition snprintf_ipv4 :: "be32 \<Rightarrow> string" where
  "snprintf_ipv4 a = snprintf_text INET_ADDRSTRLEN (format_ipv4 a)"

definition snprintf_ipv6 :: "in6_addr \<Rightarrow> string" where
  "snprintf_ipv6 a = snprintf_text (INET6_ADDRSTRLEN + 2) (format_ipv6 a)"

section \<open>Operations\<close>

definition is_inet :: "socket option \<Rightarrow> bool" where
  "is_inet sock =
     (case sock of None \<Rightarrow> False
      | Some s \<Rightarrow> (case sk s of None \<Rightarrow> False
                   | Some k \<Rightarrow> sk_family k = AF_INET \<or> sk_family k = AF_INET6))"

definition is_tcp :: "socket option \<Rightarrow> bool" where
  "is_tcp sock =
     (case sock of None \<Rightarrow> False
      | Some s \<Rightarrow> (case sk s of None \<Rightarrow> False | Some k \<Rightarrow> sk_protocol k = IPPROTO_TCP))"

definition is_udp :: "socket option \<Rightarrow> bool" where
  "is_udp sock =
     (case sock of None \<Rightarrow> False
      | Some s \<Rightarrow> (case sk s of None \<Rightarrow> False | Some k \<Rightarrow> sk_protocol k = IPPROTO_UDP))"

definition get_source_port :: "socket option \<Rightarrow> 32 word" where
  "get_source_port sock =
     (case sock of None \<Rightarrow> 0
      | Some s \<Rightarrow> (case sk s of None \<Rightarrow> 0 | Some k \<Rightarrow> ucast (ntohs (inet_sport k))))"

definition get_destination_port :: "socket option \<Rightarrow> 32 word" where
  "get_destination_port sock =
     (case sock of None \<Rightarrow> 0
      | Some s \<Rightarrow> (case sk s of None \<Rightarrow> 0 | Some k \<Rightarrow> ucast (ntohs (inet_dport k))))"

definition get_source_ip_sk :: "sock option \<Rightarrow> inet_bufs \<Rightarrow> ip_buf option \<times> inet_bufs" where
  "get_source_ip_sk sk0 b =
     (case sk0 of None \<Rightarrow> (None, b)
      | Some k \<Rightarrow>
          if sk_family k = AF_INET
          then (Some source_ipv4, b(source_ipv4 := snprintf_ipv4 (inet_saddr k)))
          else if sk_family k = AF_INET6
          then (Some source_ipv6, b(source_ipv6 := snprintf_ipv6 (saddr6 k)))
          else (None, b))"

definition get_source_ip :: "socket option \<Rightarrow> inet_bufs \<Rightarrow> ip_buf option \<times> inet_bufs" where
  "get_source_ip sock b =
     (case sock of None \<Rightarrow> (None, b) | Some s \<Rightarrow> get_source_ip_sk (sk s) b)"

definition get_destination_ip_sk :: "sock option \<Rightarrow> inet_bufs \<Rightarrow> ip_buf option \<times> inet_bufs" where
  "get_destination_ip_sk sk0 b =
     (case sk0 of None \<Rightarrow> (None, b)
      | Some k \<Rightarrow>
          if sk_family k = AF_INET
          then (Some destination_ipv4, b(destination_ipv4 := snprintf_ipv4 (inet_daddr k)))
          else if sk_family k = AF_INET6
          then (Some destination_ipv6, b(destination_ipv6 := snprintf_ipv6 (daddr6 k)))
          else (None, b))"

definition get_destination_ip :: "socket option \<Rightarrow> inet_bufs \<Rightarrow> ip_buf option \<times> inet_bufs" where
  "get_destination_ip sock b =
     (case sock of None \<Rightarrow> (None, b) | Some s \<Rightarrow> get_destination_ip_sk (sk s) b)"

definition get_ip :: "sockaddr option \<Rightarrow> inet_bufs \<Rightarrow> ip_buf option \<times> inet_bufs" where
  "get_ip addr b =
     (case addr of None \<Rightarrow> (None, b)
      | Some a \<Rightarrow>
          if sa_family a = AF_INET
          then (Some get_ip_ipv4, b(get_ip_ipv4 := snprintf_ipv4 (sin_addr a)))
          else if sa_family a = AF_INET6
          then (Some get_ip_ipv6, b(get_ip_ipv6 := snprintf_ipv6 (sin6_addr a)))
          else (None, b))"

definition any_ip_address :: "string option \<Rightarrow> bool" where
  "any_ip_address ip =
     (case ip of None \<Rightarrow> False
      | Some s \<Rightarrow> strncmp s ''0.0.0.0'' INET_ADDRSTRLEN = 0 \<or>
          strncmp s ''[0000:0000:0000:0000:0000:0000:0000:0000]'' (INET6_ADDRSTRLEN + 2) = 0)"

text \<open>The next two take a pointer: an object and an offset into it.\<close>

definition looks_like_ipv6 :: "(char list \<times> nat) option \<Rightarrow> bool run" where
  "looks_like_ipv6 ip =
     (case ip of None \<Rightarrow> Inr False
      | Some (b, p) \<Rightarrow> scan (\<lambda>c. c = CHR '':'') b p INET6_ADDRSTRLEN 0)"

definition valid_port_number :: "32 word \<Rightarrow> bool" where
  "valid_port_number port \<longleftrightarrow> 0 < sint port \<and> sint port < 65536"

definition ip_character :: "char \<Rightarrow> bool" where
  "ip_character ch \<longleftrightarrow>
     ch = CHR ''.'' \<or> (schar (CHR ''0'') \<le> schar ch \<and> schar ch \<le> schar (CHR ''9''))"

definition ipv6_character :: "char \<Rightarrow> bool" where
  "ipv6_character ch \<longleftrightarrow>
     ch = CHR '':'' \<or> ch = CHR ''['' \<or> ch = CHR '']'' \<or>
     (schar (CHR ''0'') \<le> schar ch \<and> schar ch \<le> schar (CHR ''9'')) \<or>
     (schar (CHR ''A'') \<le> schar ch \<and> schar ch \<le> schar (CHR ''Z'')) \<or>
     (schar (CHR ''a'') \<le> schar ch \<and> schar ch \<le> schar (CHR ''z''))"

definition looks_like_valid_ip :: "(char list \<times> nat) option \<Rightarrow> bool run" where
  "looks_like_valid_ip ip =
     (case ip of None \<Rightarrow> Inr False
      | Some (b, p) \<Rightarrow>
          run_bind (looks_like_ipv6 (Some (b, p)))
            (\<lambda>ipv6.
               if ipv6
               then run_bind (scan (\<lambda>c. \<not> ipv6_character c) b p (INET6_ADDRSTRLEN + 2) 0)
                      (\<lambda>bad. Inr (\<not> bad))
               else run_bind (scan (\<lambda>c. \<not> ip_character c) b p INET_ADDRSTRLEN 0)
                      (\<lambda>bad. Inr (\<not> bad))))"

section \<open>The printed addresses\<close>

lemma addr_byte_less: "addr_byte a i < 256"
  using unsigned_less [of "ucast (drop_bit (8 * i) a) :: 8 word"] by (simp add: addr_byte_def)

lemma addr_byte_bit:
  "j < 8 \<Longrightarrow> bit (ucast (drop_bit (8 * i) a) :: 8 word) j = bit (a :: be32) (8 * i + j)"
  by (simp add: bit_simps)

lemma addr_bytes_eq:
  assumes "\<And>i. i < 4 \<Longrightarrow> addr_byte a i = addr_byte b i"
  shows "a = b"
proof (rule bit_word_eqI)
  fix n :: nat
  assume "n < LENGTH(32)"
  then have i: "n div 8 < 4" and n: "n = 8 * (n div 8) + n mod 8" by auto
  from assms [OF i] have
    "(ucast (drop_bit (8 * (n div 8)) a) :: 8 word) = ucast (drop_bit (8 * (n div 8)) b)"
    by (simp add: addr_byte_def word_unat_eq_iff)
  then show "bit a n = bit b n"
    by (metis n addr_byte_bit mod_less_divisor zero_less_numeral)
qed

lemma nipquad_inj [simp]: "nipquad a = nipquad b \<longleftrightarrow> a = b"
proof
  assume eq: "nipquad a = nipquad b"
  show "a = b"
  proof (rule addr_bytes_eq)
    fix i :: nat
    assume "i < 4"
    then have "i = 0 \<or> i = 1 \<or> i = 2 \<or> i = 3" by auto
    with eq show "addr_byte a i = addr_byte b i" by (auto simp: nipquad_def)
  qed
qed simp

lemma nip6_inj [simp]: "nip6 a = nip6 b \<longleftrightarrow> a = b"
  by (cases a; cases b) (simp add: word_unat_eq_iff [symmetric])

lemma nip6_less: "g \<in> set (nip6 a) \<Longrightarrow> g < 65536"
  by (cases a) (auto intro: order_less_le_trans [OF unsigned_less])

lemma nip6_length [simp]: "length (nip6 a) = 8"
  by (cases a) simp

lemma join_inj:
  assumes "\<And>s. s \<in> set ss \<union> set ts \<Longrightarrow> sep \<notin> set s"
    and "length ss = length ts"
  shows "join sep ss = join sep ts \<longleftrightarrow> ss = ts"
  using assms(2,1)
proof (induction ss ts rule: list_induct2)
  case Nil
  then show ?case by simp
next
  case (Cons s ss t ts)
  then show ?case
    by (cases ss; cases ts) (auto simp: append_sep_inj)
qed

lemma join_chars: "c \<in> set (join sep ss) \<Longrightarrow> c = sep \<or> (\<exists>s \<in> set ss. c \<in> set s)"
  by (induction sep ss rule: join.induct) auto

lemma join_length:
  "(\<And>s. s \<in> set ss \<Longrightarrow> length s \<le> k) \<Longrightarrow> length (join sep ss) \<le> length ss * k + (length ss - 1)"
  by (induction sep ss rule: join.induct) force+

lemma join_length_eq:
  "(\<And>s. s \<in> set ss \<Longrightarrow> length s = k) \<Longrightarrow> length (join sep ss) = length ss * k + (length ss - 1)"
  by (induction sep ss rule: join.induct) auto

lemma format_ipv4_length: "length (format_ipv4 a) < INET_ADDRSTRLEN"
proof -
  have "length (join (CHR ''.'') (map dec_string (nipquad a))) \<le> 4 * 3 + (4 - 1)"
    using join_length [of "map dec_string (nipquad a)" 3 "CHR ''.''"]
    by (force simp: nipquad_def intro: dec_string_length order_less_trans [OF addr_byte_less])
  then show ?thesis by (simp add: format_ipv4_def INET_ADDRSTRLEN_def)
qed

lemma format_ipv6_length: "length (format_ipv6 a) = 41"
  using join_length_eq [of "map fmt_04x (nip6 a)" 4 "CHR '':''"]
  by (force simp: format_ipv6_def intro: fmt_04x_length nip6_less)

lemma snprintf_ipv4_eq [simp]: "snprintf_ipv4 a = format_ipv4 a"
  by (simp add: snprintf_ipv4_def format_ipv4_length)

lemma snprintf_ipv6_eq [simp]: "snprintf_ipv6 a = format_ipv6 a"
  by (simp add: snprintf_ipv6_def format_ipv6_length INET6_ADDRSTRLEN_def)

lemma format_ipv4_chars: "c \<in> set (format_ipv4 a) \<Longrightarrow> c \<in> set ''.0123456789''"
  using join_chars [of c "CHR ''.''" "map dec_string (nipquad a)"]
  by (auto simp: format_ipv4_def dest!: dec_string_chars)

lemma format_ipv6_chars: "c \<in> set (format_ipv6 a) \<Longrightarrow> c \<in> set ''[]:0123456789abcdef''"
  using join_chars [of c "CHR '':''" "map fmt_04x (nip6 a)"]
  by (auto simp: format_ipv6_def dest!: fmt_04x_chars)

section \<open>What the two address tests see of a C string\<close>

definition valid_ip_text :: "string \<Rightarrow> bool" where
  "valid_ip_text s =
     (if CHR '':'' \<in> set (take INET6_ADDRSTRLEN s)
      then list_all ipv6_character (take (INET6_ADDRSTRLEN + 2) s)
      else list_all ip_character (take INET_ADDRSTRLEN s))"

lemma looks_like_ipv6_spec:
  "c_string b p s \<Longrightarrow>
   looks_like_ipv6 (Some (b, p)) = Inr (CHR '':'' \<in> set (take INET6_ADDRSTRLEN s))"
  by (simp add: looks_like_ipv6_def scan_spec)

lemma looks_like_valid_ip_spec:
  "c_string b p s \<Longrightarrow> looks_like_valid_ip (Some (b, p)) = Inr (valid_ip_text s)"
  by (simp add: looks_like_valid_ip_def looks_like_ipv6_spec scan_spec valid_ip_text_def list_all_iff)

lemma ip_character_printed: "c \<in> set ''.0123456789'' \<Longrightarrow> ip_character c"
proof -
  have "list_all ip_character ''.0123456789''" by code_simp
  then show "c \<in> set ''.0123456789'' \<Longrightarrow> ?thesis" by (simp only: list_all_iff)
qed

lemma ipv6_character_printed: "c \<in> set ''[]:0123456789abcdef'' \<Longrightarrow> ipv6_character c"
proof -
  have "list_all ipv6_character ''[]:0123456789abcdef''" by code_simp
  then show "c \<in> set ''[]:0123456789abcdef'' \<Longrightarrow> ?thesis" by (simp only: list_all_iff)
qed

lemma valid_ip_text_ipv4: "valid_ip_text (format_ipv4 a)"
proof -
  have "CHR '':'' \<notin> set (format_ipv4 a)"
    using format_ipv4_chars by fastforce
  moreover have "list_all ip_character (format_ipv4 a)"
    using format_ipv4_chars ip_character_printed by (auto simp: list_all_iff)
  ultimately show ?thesis
    by (auto simp: valid_ip_text_def list_all_iff dest: in_set_takeD)
qed

lemma valid_ip_text_ipv6: "valid_ip_text (format_ipv6 a)"
proof -
  have "CHR '':'' \<in> set (join (CHR '':'') (map fmt_04x (nip6 a)))"
    by (cases a) simp
  then have "CHR '':'' \<in> set (take INET6_ADDRSTRLEN (format_ipv6 a))"
    by (simp add: format_ipv6_length INET6_ADDRSTRLEN_def) (simp add: format_ipv6_def)
  moreover have "list_all ipv6_character (format_ipv6 a)"
    using format_ipv6_chars ipv6_character_printed by (auto simp: list_all_iff)
  ultimately show ?thesis
    by (auto simp: valid_ip_text_def list_all_iff dest: in_set_takeD)
qed

lemma format_ipv4_no_nul: "NUL \<notin> set (format_ipv4 a)"
  using format_ipv4_chars by fastforce

lemma format_ipv6_no_nul: "NUL \<notin> set (format_ipv6 a)"
  using format_ipv6_chars by fastforce

lemma printed_texts:
  "(format_ipv4 a = format_ipv4 b \<longleftrightarrow> a = b)"
  "(format_ipv6 c = format_ipv6 d \<longleftrightarrow> c = d)"
  "format_ipv4 a \<noteq> format_ipv6 c"
proof -
  have "join (CHR ''.'') (map dec_string (nipquad a)) = join (CHR ''.'') (map dec_string (nipquad b))
      \<longleftrightarrow> map dec_string (nipquad a) = map dec_string (nipquad b)"
    by (rule join_inj) (auto simp: nipquad_def dest!: dec_string_chars)
  then show "format_ipv4 a = format_ipv4 b \<longleftrightarrow> a = b"
    by (simp add: format_ipv4_def inj_map_eq_map inj_def)
  have "join (CHR '':'') (map fmt_04x (nip6 c)) = join (CHR '':'') (map fmt_04x (nip6 d))
      \<longleftrightarrow> map fmt_04x (nip6 c) = map fmt_04x (nip6 d)"
    by (rule join_inj) (auto dest!: fmt_04x_chars)
  then show "format_ipv6 c = format_ipv6 d \<longleftrightarrow> c = d"
    by (simp add: format_ipv6_def inj_map_eq_map inj_def)
  show "format_ipv4 a \<noteq> format_ipv6 c"
  proof
    assume "format_ipv4 a = format_ipv6 c"
    then have "CHR ''['' \<in> set (format_ipv4 a)" by (simp add: format_ipv6_def)
    then show False using format_ipv4_chars by fastforce
  qed
qed

text \<open>
  The text netlog prints for an IPv4 or IPv6 address determines the address, snprintf never
  cuts it, and an IPv4 text is never the text of an IPv6 address: comparing texts, as the
  whitelist does, compares addresses.
\<close>

theorem printed_addresses_distinct:
  "(snprintf_ipv4 a = snprintf_ipv4 b \<longleftrightarrow> a = b) \<and>
   (snprintf_ipv6 c = snprintf_ipv6 d \<longleftrightarrow> c = d) \<and>
   snprintf_ipv4 a \<noteq> snprintf_ipv6 c \<and>
   snprintf_ipv4 a = format_ipv4 a \<and> snprintf_ipv6 c = format_ipv6 c"
  by (simp add: printed_texts)

text \<open>
  Every address netlog prints passes the module's own plausibility test when it is given back
  as a whitelist entry, and exactly the IPv6 texts are recognised as IPv6.
\<close>

theorem printed_addresses_accepted:
  "looks_like_valid_ip (Some (snprintf_ipv4 a @ [NUL], 0)) = Inr True \<and>
   looks_like_valid_ip (Some (snprintf_ipv6 c @ [NUL], 0)) = Inr True \<and>
   looks_like_ipv6 (Some (snprintf_ipv4 a @ [NUL], 0)) = Inr False \<and>
   looks_like_ipv6 (Some (snprintf_ipv6 c @ [NUL], 0)) = Inr True"
proof -
  have s4: "c_string (format_ipv4 a @ [NUL]) 0 (format_ipv4 a)"
    by (rule c_stringI [of _ _ "[]" "[]"]) (simp_all add: format_ipv4_no_nul)
  have s6: "c_string (format_ipv6 c @ [NUL]) 0 (format_ipv6 c)"
    by (rule c_stringI [of _ _ "[]" "[]"]) (simp_all add: format_ipv6_no_nul)
  have "CHR '':'' \<notin> set (take INET6_ADDRSTRLEN (format_ipv4 a))"
    using format_ipv4_chars by (fastforce dest: in_set_takeD)
  moreover have "CHR '':'' \<in> set (take INET6_ADDRSTRLEN (format_ipv6 c))"
    by (cases c) (simp add: format_ipv6_length INET6_ADDRSTRLEN_def, simp add: format_ipv6_def)
  ultimately show ?thesis
    using looks_like_valid_ip_spec [OF s4] looks_like_valid_ip_spec [OF s6]
      looks_like_ipv6_spec [OF s4] looks_like_ipv6_spec [OF s6]
    by (simp add: valid_ip_text_ipv4 valid_ip_text_ipv6)
qed

text \<open>
  The plausibility test of an IPv4 text stops after 16 characters: whatever follows 16
  address characters is accepted, although the text cannot be an address.
\<close>

theorem ip_test_ignores_tail:
  assumes "length s = INET_ADDRSTRLEN" "list_all ip_character s"
    and "CHR '':'' \<notin> set (take INET6_ADDRSTRLEN (s @ t))" "NUL \<notin> set (s @ t)"
  shows "looks_like_valid_ip (Some (s @ t @ [NUL], 0)) = Inr True"
proof -
  have "c_string (s @ t @ [NUL]) 0 (s @ t)"
    by (rule c_stringI [of _ _ "[]" "[]"]) (use assms(4) in simp_all)
  then show ?thesis
    using assms by (simp add: looks_like_valid_ip_spec valid_ip_text_def)
qed

theorem ip_test_ignores_tail_witness:
  "looks_like_valid_ip (Some (''1111111111111111'' @ ''/etc/passwd'' @ [NUL], 0)) = Inr True"
  by (rule ip_test_ignores_tail)
    (simp_all add: INET_ADDRSTRLEN_def INET6_ADDRSTRLEN_def ip_character_def schar_def)

lemma format_ipv4_zero: "format_ipv4 0 = ''0.0.0.0''"
  by code_simp

lemma format_ipv6_zero:
  "format_ipv6 (In6_addr 0 0 0 0 0 0 0 0) = ''[0000:0000:0000:0000:0000:0000:0000:0000]''"
  by code_simp

text \<open>
  A UDP bind is reported as a bind to any address exactly when the printed address is the
  zero address of its family.
\<close>

theorem any_ip_address_iff_zero:
  "(any_ip_address (Some (snprintf_ipv4 a)) \<longleftrightarrow> a = 0) \<and>
   (any_ip_address (Some (snprintf_ipv6 c)) \<longleftrightarrow> c = In6_addr 0 0 0 0 0 0 0 0) \<and>
   \<not> any_ip_address None"
proof -
  have "any_ip_address (Some s) \<longleftrightarrow> s = snprintf_ipv4 0 \<or> s = snprintf_ipv6 (In6_addr 0 0 0 0 0 0 0 0)"
    if "NUL \<notin> set s" for s
    using that
    by (simp add: any_ip_address_def strncmp_eq_0_short format_ipv4_zero format_ipv6_zero
        INET_ADDRSTRLEN_def INET6_ADDRSTRLEN_def)
  from this [of "snprintf_ipv4 a"] this [of "snprintf_ipv6 c"] show ?thesis
    by (simp add: printed_texts printed_texts(3) [symmetric] format_ipv4_no_nul format_ipv6_no_nul
        any_ip_address_def [of None])
qed

end
