(* ===== verification/Connection.thy ===== *)
theory Connection imports Inet_Utils begin

text \<open>
  netlog/src/connection.c: a whitelisted connection, its parser from the text a user gives, and
  the comparison of a connection with the attributes of a socket. Connections live in a heap of
  kmalloc'ed objects; the parser fills the object it allocated and frees it when it fails.
\<close>

section \<open>Data\<close>

definition MAX_ABSOLUTE_EXEC_PATH :: nat where "MAX_ABSOLUTE_EXEC_PATH = 950"
definition NO_PORT :: "32 word" where "NO_PORT = - 1"

abbreviation FIELD_SEPARATOR :: char where
  "FIELD_SEPARATOR \<equiv> CHR ''|''"

record connection =
  port :: "32 word"
  ip :: "char list"
  executable :: "char list"

record conn_heap =
  objs :: "nat \<Rightarrow> connection option"
  next_addr :: nat

text \<open>The object that kmalloc returned, after the two memset calls.\<close>

definition blank_connection :: connection where
  "blank_connection =
     \<lparr>port = NO_PORT, ip = replicate (INET6_ADDRSTRLEN + 2) NUL,
      executable = replicate (MAX_ABSOLUTE_EXEC_PATH + 1) NUL\<rparr>"

definition initialize_connection :: "bool \<Rightarrow> conn_heap \<Rightarrow> nat option \<times> conn_heap" where
  "initialize_connection kmalloc_ok h =
     (if \<not> kmalloc_ok then (None, h)
      else (Some (next_addr h),
            h\<lparr>objs := (objs h)(next_addr h \<mapsto> blank_connection), next_addr := Suc (next_addr h)\<rparr>))"

definition destroy_connection :: "nat option \<Rightarrow> conn_heap \<Rightarrow> conn_heap run" where
  "destroy_connection c h =
     (case c of None \<Rightarrow> Inr h
      | Some a \<Rightarrow>
          if objs h a = None then Inl Invalid_free
          else Inr (h\<lparr>objs := (objs h)(a := None)\<rparr>))"

section \<open>Parsing\<close>

text \<open>
  The loops of initialize_connection_from_string. ch is the offset of the pointer ch in the bytes
  b that the caller's string lives in; None is the jump to out_fail.
\<close>

function copy_until :: "(char \<Rightarrow> bool) \<Rightarrow> nat \<Rightarrow> char list \<Rightarrow> nat \<Rightarrow> char list \<Rightarrow> nat \<Rightarrow>
    (char list \<times> nat \<times> nat) option run" where
  "copy_until stop limit b ch buf i =
     run_bind (load b ch)
       (\<lambda>c. if \<not> stop c
            then run_bind (store buf i c)
                   (\<lambda>buf'. if limit \<le> Suc i then Inr None
                           else copy_until stop limit b (Suc ch) buf' (Suc i))
            else Inr (Some (buf, ch, i)))"
  by pat_completeness auto
termination
  by (relation "measure (\<lambda>(stop, limit, b, ch, buf, i). length b - ch)")
    (auto simp: load_def split: if_splits)

definition path_end :: "char \<Rightarrow> bool" where
  "path_end c \<longleftrightarrow> c = FIELD_SEPARATOR \<or> c = NUL"

definition field_end :: "char \<Rightarrow> bool" where
  "field_end c \<longleftrightarrow> c = CHR ''>'' \<or> c = NUL \<or> c = FIELD_SEPARATOR"

definition read_path :: "char list \<Rightarrow> nat \<Rightarrow> char list \<Rightarrow> nat \<Rightarrow> (char list \<times> nat \<times> nat) option run" where
  "read_path = copy_until path_end MAX_ABSOLUTE_EXEC_PATH"

definition read_ip :: "char list \<Rightarrow> nat \<Rightarrow> char list \<Rightarrow> nat \<Rightarrow> (char list \<times> nat \<times> nat) option run" where
  "read_ip = copy_until field_end (INET6_ADDRSTRLEN + 1)"

function end_of_number :: "char list \<Rightarrow> nat \<Rightarrow> nat run" where
  "end_of_number b ch =
     run_bind (load b ch)
       (\<lambda>c. if \<not> field_end c
            then end_of_number b (Suc ch)
            else Inr ch)"
  by pat_completeness auto
termination
  by (relation "measure (\<lambda>(b, ch). length b - ch)") (auto simp: load_def split: if_splits)

text \<open>The backward loop over the digits; its pointer ends one before number_start.\<close>

function sum_digits :: "char list \<Rightarrow> int \<Rightarrow> int \<Rightarrow> 32 word \<Rightarrow> 32 word \<Rightarrow> 32 word run" where
  "sum_digits b number_start ch base prt =
     (if number_start \<le> ch
      then if ch < 0 then Inl Read_out_of_bounds
           else run_bind (load b (nat ch))
             (\<lambda>c. sum_digits b number_start (ch - 1) (base * 10)
                    (prt + word_of_int (schar c - schar (CHR ''0'')) * base))
      else Inr prt)"
  by pat_completeness auto
termination
  by (relation "measure (\<lambda>(b, s, ch, base, prt). nat (ch + 1 - s))") auto

declare copy_until.simps [simp del] end_of_number.simps [simp del] sum_digits.simps [simp del]

text \<open>Skip one character if it is there.\<close>

definition skip_char :: "char \<Rightarrow> char list \<Rightarrow> nat \<Rightarrow> nat run" where
  "skip_char x b ch = run_bind (load b ch) (\<lambda>c. Inr (if c = x then Suc ch else ch))"

text \<open>The case of the field being an ip address.\<close>

definition parse_ip_field :: "char list \<Rightarrow> nat \<Rightarrow> connection \<Rightarrow> (connection \<times> nat) option run" where
  "parse_ip_field b ch con =
     run_bind (load b ch) (\<lambda>c.
     if c \<noteq> CHR ''i'' then Inr (Some (con, ch))
     else
       run_bind (looks_like_ipv6 (Some (b, ch))) (\<lambda>ipv6.
       run_bind (skip_char (CHR ''<'') b (Suc ch)) (\<lambda>ch.
       run_bind (if ipv6 then store (ip con) 0 (CHR ''['') else Inr (ip con)) (\<lambda>buf.
       run_bind (read_ip b ch buf (if ipv6 then 1 else 0)) (\<lambda>r.
       case r of None \<Rightarrow> Inr None
       | Some (buf, ch, i) \<Rightarrow>
         run_bind (if ipv6 then store buf i (CHR '']'') else Inr buf) (\<lambda>buf.
         run_bind (store buf (if ipv6 then Suc i else i) NUL) (\<lambda>buf.
         run_bind (looks_like_valid_ip (Some (buf, 0))) (\<lambda>ok.
         Inr (if ok then Some (con\<lparr>ip := buf\<rparr>, Suc ch) else None)))))))))"

text \<open>The case of the field being a port number.\<close>

definition parse_port_field :: "char list \<Rightarrow> nat \<Rightarrow> connection \<Rightarrow> connection option run" where
  "parse_port_field b ch con =
     run_bind (load b ch) (\<lambda>c.
     if c \<noteq> CHR ''p'' then Inr (Some con)
     else
       run_bind (skip_char (CHR ''<'') b (Suc ch)) (\<lambda>number_start.
       run_bind (end_of_number b number_start) (\<lambda>ch.
       run_bind (sum_digits b (int number_start) (int ch - 1) 1 0) (\<lambda>prt.
       Inr (if valid_port_number prt then Some (con\<lparr>port := prt\<rparr>) else None)))))"

text \<open>All the fields, written into the object con; None is the jump to out_fail.\<close>

definition parse_fields :: "char list \<Rightarrow> connection \<Rightarrow> connection option run" where
  "parse_fields b con =
     run_bind (read_path b 0 (executable con) 0) (\<lambda>r.
     case r of None \<Rightarrow> Inr None
     | Some (exe, ch, i) \<Rightarrow>
       run_bind (store exe i NUL) (\<lambda>exe.
       run_bind (skip_char FIELD_SEPARATOR b ch) (\<lambda>ch.
       run_bind (parse_ip_field b ch (con\<lparr>executable := exe\<rparr>)) (\<lambda>r.
       case r of None \<Rightarrow> Inr None
       | Some (con, ch) \<Rightarrow>
         run_bind (skip_char FIELD_SEPARATOR b ch) (\<lambda>ch.
         parse_port_field b ch con)))))"

definition initialize_connection_from_string ::
  "bool \<Rightarrow> char list option \<Rightarrow> conn_heap \<Rightarrow> (nat option \<times> conn_heap) run" where
  "initialize_connection_from_string kmalloc_ok connection_string h =
     (case connection_string of
        None \<Rightarrow> run_bind (destroy_connection None h) (\<lambda>h. Inr (None, h))
      | Some b \<Rightarrow>
        (case initialize_connection kmalloc_ok h of
           (None, h) \<Rightarrow> run_bind (destroy_connection None h) (\<lambda>h. Inr (None, h))
         | (Some a, h) \<Rightarrow>
             run_bind (parse_fields b (the (objs h a))) (\<lambda>r.
             case r of
               None \<Rightarrow> run_bind (destroy_connection (Some a) h) (\<lambda>h. Inr (None, h))
             | Some con \<Rightarrow> Inr (Some a, h\<lparr>objs := (objs h)(a \<mapsto> con)\<rparr>))))"

section \<open>Comparison\<close>

definition first_char :: "char list \<Rightarrow> char" where
  "first_char s = (case s of [] \<Rightarrow> NUL | c # _ \<Rightarrow> c)"

definition matches_attributes :: "connection \<Rightarrow> string \<Rightarrow> string \<Rightarrow> 32 word \<Rightarrow> bool" where
  "matches_attributes con path ip' port' =
     (if strncmp (executable con) path MAX_ABSOLUTE_EXEC_PATH \<noteq> 0 then False
      else if first_char (ip con) \<noteq> NUL \<and> first_char ip' \<noteq> NUL \<and>
              strncmp (ip con) ip' (INET6_ADDRSTRLEN + 2) \<noteq> 0 then False
      else if port con \<noteq> NO_PORT \<and> port' \<noteq> NO_PORT \<and> port con \<noteq> port' then False
      else True)"

definition connection_matches_attributes ::
  "conn_heap \<Rightarrow> nat option \<Rightarrow> string option \<Rightarrow> string option \<Rightarrow> 32 word \<Rightarrow> bool run" where
  "connection_matches_attributes h connection path ip' port' =
     (case (connection, path, ip') of
        (Some a, Some p, Some i) \<Rightarrow>
          (case objs h a of
             None \<Rightarrow> Inl Use_after_free
           | Some con \<Rightarrow> Inr (matches_attributes con p i port'))
      | _ \<Rightarrow> Inr False)"

definition connections_are_equal :: "conn_heap \<Rightarrow> nat option \<Rightarrow> nat option \<Rightarrow> bool run" where
  "connections_are_equal h connection1 connection2 =
     (case (connection1, connection2) of
        (Some a, Some b) \<Rightarrow>
          (case objs h b of
             None \<Rightarrow> Inl Use_after_free
           | Some con2 \<Rightarrow>
               connection_matches_attributes h connection1
                 (Some (executable con2)) (Some (ip con2)) (port con2))
      | _ \<Rightarrow> Inr False)"

section \<open>The copying loops\<close>

lemma path_end_NUL [simp]: "path_end NUL"
  by (simp add: path_end_def)

lemma field_end_NUL [simp]: "field_end NUL"
  by (simp add: field_end_def)

lemma copy_until_spec:
  assumes "c_string b ch (w @ t)" "list_all (\<lambda>c. \<not> stop c) w" "stop NUL" "t = [] \<or> stop (hd t)"
    and "i + length w < limit" "limit \<le> length buf"
  shows "copy_until stop limit b ch buf i =
    Inr (Some (take i buf @ w @ drop (i + length w) buf, ch + length w, i + length w))"
  using assms
proof (induction w arbitrary: ch buf i)
  case Nil
  then have "\<exists>c. load b ch = Inr c \<and> stop c"
    by (cases t) (auto dest: c_string_load_Nil c_string_load_Cons)
  with Nil show ?case by (auto simp: copy_until.simps [of stop limit b ch buf i])
next
  case (Cons x w)
  then have "copy_until stop limit b (Suc ch) (buf[i := x]) (Suc i) =
      Inr (Some (take (Suc i) (buf[i := x]) @ w @ drop (Suc i + length w) (buf[i := x]),
        Suc ch + length w, Suc i + length w))"
    by (intro Cons.IH) (auto dest: c_string_Cons)
  moreover have "take (Suc i) (buf[i := x]) = take i buf @ [x]"
    using Cons.prems by (simp add: take_Suc_conv_app_nth)
  moreover have "load b ch = Inr x"
    using Cons.prems(1) by (auto dest: c_string_load_Cons)
  ultimately show ?case
    using Cons.prems by (simp add: copy_until.simps [of stop limit b ch buf i] store_in)
qed

lemma copy_until_too_long:
  assumes "c_string b ch (w @ t)" "list_all (\<lambda>c. \<not> stop c) w"
    and "i < limit" "limit \<le> i + length w" "limit \<le> length buf"
  shows "copy_until stop limit b ch buf i = Inr None"
  using assms
proof (induction w arbitrary: ch buf i)
  case Nil
  then show ?case by simp
next
  case (Cons x w)
  have "load b ch = Inr x"
    using Cons.prems(1) by (auto dest: c_string_load_Cons)
  moreover have "copy_until stop limit b (Suc ch) (buf[i := x]) (Suc i) = Inr None" if "Suc i < limit"
    using that Cons.prems by (intro Cons.IH) (auto dest: c_string_Cons)
  ultimately show ?case
    using Cons.prems by (simp add: copy_until.simps [of stop limit b ch buf i] store_in)
qed

lemma copy_until_result:
  assumes "copy_until stop limit b ch buf i = Inr (Some (buf', ch', i'))" "i < limit"
  shows "length buf' = length buf \<and> i \<le> i' \<and> i' < limit \<and> ch' = ch + (i' - i) \<and>
    (\<exists>c. load b ch' = Inr c \<and> stop c)"
  using assms
proof (induction stop limit b ch buf i rule: copy_until.induct)
  case (1 stop limit b ch buf i)
  from "1.prems"(1) obtain c where c: "load b ch = Inr c"
    by (subst (asm) copy_until.simps) (auto simp: run_bind_eq_Inr)
  show ?case
  proof (cases "stop c")
    case True
    with "1.prems" c show ?thesis by (simp add: copy_until.simps [of stop limit b ch buf i])
  next
    case False
    with "1.prems" c obtain buf1 where b1: "store buf i c = Inr buf1" "\<not> limit \<le> Suc i"
      and rec: "copy_until stop limit b (Suc ch) buf1 (Suc i) = Inr (Some (buf', ch', i'))"
      by (auto simp: copy_until.simps [of stop limit b ch buf i] run_bind_eq_Inr split: if_splits)
    from "1.IH" [OF c False b1 rec] b1 show ?thesis
      by (auto simp: store_def split: if_splits)
  qed
qed

lemma copy_until_fault:
  assumes "copy_until stop limit b ch buf i = Inl e" "i < limit" "limit \<le> length buf"
  shows "e = Read_out_of_bounds"
  using assms
proof (induction stop limit b ch buf i rule: copy_until.induct)
  case (1 stop limit b ch buf i)
  show ?case
  proof (cases "load b ch")
    case (Inl e')
    with "1.prems" show ?thesis
      by (auto simp: copy_until.simps [of stop limit b ch buf i] load_def split: if_splits)
  next
    case (Inr c)
    with "1.prems" have "\<not> stop c" "\<not> limit \<le> Suc i" "store buf i c = Inr (buf[i := c])"
      "copy_until stop limit b (Suc ch) (buf[i := c]) (Suc i) = Inl e"
      by (auto simp: copy_until.simps [of stop limit b ch buf i] store_in split: if_splits)
    with "1.IH" [OF Inr] "1.prems" show ?thesis by simp
  qed
qed

text \<open>On a C string the loop computes the characters before the first one that stops it.\<close>

lemma copy_until_c_string:
  assumes "c_string b ch u" "stop NUL" "i < limit" "limit \<le> length buf"
  shows "copy_until stop limit b ch buf i =
    (let w = takeWhile (\<lambda>c. \<not> stop c) u in
     Inr (if i + length w < limit
          then Some (take i buf @ w @ drop (i + length w) buf, ch + length w, i + length w)
          else None))"
proof -
  define w where "w = takeWhile (\<lambda>c. \<not> stop c) u"
  define t where "t = dropWhile (\<lambda>c. \<not> stop c) u"
  have u: "c_string b ch (w @ t)" and w: "list_all (\<lambda>c. \<not> stop c) w"
    using assms(1) by (auto simp: w_def t_def list_all_iff dest: set_takeWhileD)
  have t: "t = [] \<or> stop (hd t)"
    using hd_dropWhile [of "\<lambda>c. \<not> stop c" u] by (auto simp: t_def)
  show ?thesis
    using copy_until_spec [OF u w assms(2) t _ assms(4), of i]
      copy_until_too_long [OF u w assms(3) _ assms(4)]
    by (auto simp: w_def [symmetric] Let_def)
qed

section \<open>The abstract grammar of a connection string\<close>

text \<open>
  What the parser means, on texts: no buffers, offsets or loops. The result is the path, the ip
  text (empty: any) and the port (NO_PORT: any); None is a refused string.
\<close>

definition drop_first :: "char \<Rightarrow> string \<Rightarrow> string" where
  "drop_first x s = (case s of [] \<Rightarrow> [] | c # t \<Rightarrow> if c = x then t else s)"

definition text_number :: "string \<Rightarrow> int" where
  "text_number s = foldl (\<lambda>a c. 10 * a + (schar c - schar (CHR ''0''))) 0 s"

definition field_text :: "string \<Rightarrow> string" where
  "field_text u = takeWhile (\<lambda>c. \<not> field_end c) (drop_first (CHR ''<'') u)"

definition field_rest :: "string \<Rightarrow> string" where
  "field_rest u = dropWhile (\<lambda>c. \<not> field_end c) (drop_first (CHR ''<'') u)"

definition bracket :: "bool \<Rightarrow> string \<Rightarrow> string" where
  "bracket ipv6 a = (if ipv6 then CHR ''['' # a @ [CHR '']''] else a)"

definition ip_of_field :: "string \<Rightarrow> string" where
  "ip_of_field v = bracket (CHR '':'' \<in> set (take INET6_ADDRSTRLEN (CHR ''i'' # v))) (field_text v)"

definition ip_too_long :: "string \<Rightarrow> bool" where
  "ip_too_long v \<longleftrightarrow>
     INET6_ADDRSTRLEN + 1 \<le>
       (if CHR '':'' \<in> set (take INET6_ADDRSTRLEN (CHR ''i'' # v)) then 1 else 0) + length (field_text v)"

text \<open>The ip field at the start of u: the ip text and what is left, the field's end dropped.\<close>

definition text_ip :: "string \<Rightarrow> (string \<times> string) option" where
  "text_ip u =
     (case u of
        c # v \<Rightarrow>
          if c = CHR ''i''
          then if ip_too_long v \<or> \<not> valid_ip_text (ip_of_field v) then None
               else Some (ip_of_field v, tl (field_rest v))
          else Some ([], u)
      | [] \<Rightarrow> Some ([], u))"

definition text_port :: "string \<Rightarrow> 32 word option" where
  "text_port u =
     (case u of
        c # v \<Rightarrow>
          if c = CHR ''p''
          then let n = word_of_int (text_number (field_text v))
               in if valid_port_number n then Some n else None
          else Some NO_PORT
      | [] \<Rightarrow> Some NO_PORT)"

definition text_path :: "string \<Rightarrow> string" where
  "text_path s = takeWhile (\<lambda>c. c \<noteq> FIELD_SEPARATOR) s"

definition text_fields :: "string \<Rightarrow> string" where
  "text_fields s = drop_first FIELD_SEPARATOR (dropWhile (\<lambda>c. c \<noteq> FIELD_SEPARATOR) s)"

definition parse_text :: "string \<Rightarrow> (string \<times> string \<times> 32 word) option" where
  "parse_text s =
     (if MAX_ABSOLUTE_EXEC_PATH \<le> length (text_path s) then None
      else case text_ip (text_fields s) of
             None \<Rightarrow> None
           | Some (a, u) \<Rightarrow>
               (case text_port (drop_first FIELD_SEPARATOR u) of
                  None \<Rightarrow> None
                | Some n \<Rightarrow> Some (text_path s, a, n)))"

text \<open>The ip field runs to the end of the string, with neither a closing bracket nor a separator.\<close>

definition ip_unterminated :: "string \<Rightarrow> bool" where
  "ip_unterminated s =
     (case text_fields s of
        c # v \<Rightarrow> c = CHR ''i'' \<and> field_rest v = []
      | [] \<Rightarrow> False)"

text \<open>What a connection object stands for.\<close>

definition conn_abs :: "connection \<Rightarrow> string \<times> string \<times> 32 word" where
  "conn_abs con = (cstr (executable con), cstr (ip con), port con)"

definition wf_connection :: "connection \<Rightarrow> bool" where
  "wf_connection con \<longleftrightarrow>
     length (ip con) = INET6_ADDRSTRLEN + 2 \<and> length (cstr (ip con)) < INET6_ADDRSTRLEN + 2 \<and>
     length (executable con) = MAX_ABSOLUTE_EXEC_PATH + 1 \<and>
     length (cstr (executable con)) < MAX_ABSOLUTE_EXEC_PATH \<and>
     (port con = NO_PORT \<or> valid_port_number (port con))"

section \<open>The fields\<close>

lemma drop_first_Nil [simp]: "drop_first x [] = []"
  by (simp add: drop_first_def)

lemma drop_first_Cons [simp]: "drop_first x (c # t) = (if c = x then t else c # t)"
  by (simp add: drop_first_def)

lemma drop_first_subset: "set (drop_first x s) \<subseteq> set s"
  by (cases s) auto

lemma skip_char_spec:
  assumes "c_string b ch u" "x \<noteq> NUL"
  shows "\<exists>ch'. skip_char x b ch = Inr ch' \<and> c_string b ch' (drop_first x u) \<and>
    ch' + length (drop_first x u) = ch + length u"
proof (cases u)
  case Nil
  with assms show ?thesis by (simp add: skip_char_def c_string_load_Nil)
next
  case (Cons c t)
  with assms have "load b ch = Inr c" "c_string b (Suc ch) t"
    by (auto intro: c_string_load_Cons c_string_Cons)
  with assms Cons show ?thesis by (simp add: skip_char_def)
qed

lemma end_of_number_spec:
  assumes "c_string b ch u"
  shows "end_of_number b ch = Inr (ch + length (takeWhile (\<lambda>c. \<not> field_end c) u))"
  using assms
proof (induction u arbitrary: ch)
  case Nil
  then show ?case by (simp add: end_of_number.simps [of b ch] c_string_load_Nil)
next
  case (Cons c u)
  then show ?case
    by (auto simp: end_of_number.simps [of b ch] c_string_load_Cons dest: c_string_Cons)
qed

lemma text_number_snoc: "text_number (w @ [c]) = 10 * text_number w + (schar c - schar (CHR ''0''))"
  by (simp add: text_number_def)

lemma sum_digits_spec:
  assumes "c_string b n (w @ t)"
  shows "sum_digits b (int n) (int n + int (length w) - 1) base prt =
    Inr (prt + base * word_of_int (text_number w))"
  using assms
proof (induction w arbitrary: base prt t rule: rev_induct)
  case Nil
  then show ?case by (simp add: sum_digits.simps text_number_def)
next
  case (snoc c w)
  have c: "load b (n + length w) = Inr c"
    using c_string_load [OF snoc.prems, of "length w"] by simp
  have "sum_digits b (int n) (int n + int (length (w @ [c])) - 1) base prt =
      sum_digits b (int n) (int n + int (length w) - 1) (base * 10)
        (prt + word_of_int (schar c - schar (CHR ''0'')) * base)"
    using c by (subst sum_digits.simps) (simp add: nat_add_distrib)
  also have "\<dots> = Inr (prt + word_of_int (schar c - schar (CHR ''0'')) * base +
      base * 10 * word_of_int (text_number w))"
    using snoc.prems by (intro snoc.IH [of "c # t"]) simp
  also have "\<dots> = Inr (prt + base * word_of_int (text_number (w @ [c])))"
    by (simp add: text_number_snoc algebra_simps wi_hom_syms)
  finally show ?case .
qed

lemma parse_port_field_spec:
  assumes "c_string b ch u" "port con = NO_PORT"
  shows "parse_port_field b ch con =
    Inr (map_option (\<lambda>n. con\<lparr>port := n\<rparr>) (text_port u))"
proof (cases u)
  case Nil
  with assms show ?thesis
    by (simp add: parse_port_field_def text_port_def c_string_load_Nil)
next
  case (Cons c v)
  show ?thesis
  proof (cases "c = CHR ''p''")
    case False
    with assms Cons show ?thesis
      by (auto simp: parse_port_field_def text_port_def dest!: c_string_load_Cons)
  next
    case True
    have "c_string b (Suc ch) v" using assms(1) Cons by (auto dest: c_string_Cons)
    then obtain n where n: "skip_char (CHR ''<'') b (Suc ch) = Inr n"
        "c_string b n (drop_first (CHR ''<'') v)"
      using skip_char_spec [of b "Suc ch" v "CHR ''<''"] by auto
    have "c_string b n (field_text v @ field_rest v)"
      using n(2) by (simp add: field_text_def field_rest_def)
    from sum_digits_spec [OF this, of 1 0] end_of_number_spec [OF n(2)]
    show ?thesis
      using n(1) True Cons c_string_load_Cons [of b ch c v] assms(1)
      by (simp add: parse_port_field_def text_port_def field_text_def Let_def)
  qed
qed

lemma store_at_end: "r \<noteq> [] \<Longrightarrow> store (w @ r) (length w) c = Inr (w @ c # tl r)"
  by (cases r) (simp_all add: store_def)

text \<open>The buffer after the copied text got its closing bracket, if any, and its NUL.\<close>

lemma close_ip_buffer:
  assumes "length w + 2 \<le> length (w @ r)"
  shows "run_bind (if ipv6 then store (w @ r) (length w) (CHR '']'') else Inr (w @ r))
      (\<lambda>buf. store buf (if ipv6 then Suc (length w) else length w) NUL) =
    Inr ((if ipv6 then w @ [CHR '']''] else w) @ NUL # (if ipv6 then tl (tl r) else tl r))"
proof -
  from assms obtain x y r' where r: "r = x # y # r'"
    by (cases r; cases "tl r") auto
  have "store ((w @ [CHR '']'']) @ y # r') (length (w @ [CHR '']''])) NUL =
      Inr ((w @ [CHR '']'']) @ NUL # tl (y # r'))"
    by (rule store_at_end) simp
  with r show ?thesis by (simp add: store_at_end)
qed

lemma field_text_no_nul: "NUL \<notin> set (field_text v)"
  by (auto simp: field_text_def dest: set_takeWhileD)

lemma ip_of_field_no_nul: "NUL \<notin> set (ip_of_field v)"
  by (auto simp: ip_of_field_def bracket_def field_text_no_nul)

lemma parse_ip_field_spec:
  assumes s: "c_string b ch (CHR ''i'' # v)" and len: "length (ip con) = INET6_ADDRSTRLEN + 2"
  shows "(ip_too_long v \<or> \<not> valid_ip_text (ip_of_field v) \<longrightarrow> parse_ip_field b ch con = Inr None) \<and>
    (\<not> ip_too_long v \<and> valid_ip_text (ip_of_field v) \<longrightarrow>
      (\<exists>buf ch'. parse_ip_field b ch con = Inr (Some (con\<lparr>ip := buf\<rparr>, Suc ch')) \<and>
         c_string b ch' (field_rest v) \<and> ch' + length (field_rest v) = Suc (ch + length v) \<and>
         length buf = INET6_ADDRSTRLEN + 2 \<and> cstr buf = ip_of_field v))"
proof -
  define ipv6 where "ipv6 \<longleftrightarrow> CHR '':'' \<in> set (take INET6_ADDRSTRLEN (CHR ''i'' # v))"
  define buf0 where "buf0 = (if ipv6 then (ip con)[0 := CHR ''[''] else ip con)"
  define i where "i = (if ipv6 then 1 else 0 :: nat)"
  define w where "w = field_text v"
  from s obtain n where n: "skip_char (CHR ''<'') b (Suc ch) = Inr n"
      "c_string b n (drop_first (CHR ''<'') v)"
      "n + length (drop_first (CHR ''<'') v) = Suc ch + length v"
    using skip_char_spec [of b "Suc ch" v "CHR ''<''"] by (auto dest: c_string_Cons)
  have buf0: "(if ipv6 then store (ip con) 0 (CHR ''['') else Inr (ip con)) = Inr buf0"
    "length buf0 = INET6_ADDRSTRLEN + 2"
    using len by (auto simp: buf0_def store_def INET6_ADDRSTRLEN_def)
  have long: "ip_too_long v \<longleftrightarrow> \<not> i + length w < INET6_ADDRSTRLEN + 1"
    by (auto simp: ip_too_long_def i_def w_def ipv6_def)
  have loop: "read_ip b n buf0 i = Inr (if ip_too_long v then None
      else Some (take i buf0 @ w @ drop (i + length w) buf0, n + length w, i + length w))"
    using copy_until_c_string [OF n(2), of field_end i "INET6_ADDRSTRLEN + 1" buf0] buf0(2)
    by (simp add: read_ip_def long w_def field_text_def Let_def i_def INET6_ADDRSTRLEN_def)
  have start: "load b ch = Inr (CHR ''i'')" "looks_like_ipv6 (Some (b, ch)) = Inr ipv6"
    using s by (auto simp: looks_like_ipv6_spec ipv6_def dest: c_string_load_Cons)
  show ?thesis
  proof (cases "ip_too_long v")
    case True
    then have "parse_ip_field b ch con = Inr None"
      using start n(1) buf0(1) loop by (simp add: parse_ip_field_def i_def)
    with True show ?thesis by simp
  next
    case False
    define pre where "pre = take i buf0 @ w"
    define r where "r = drop (i + length w) buf0"
    have pre: "pre = (if ipv6 then CHR ''['' # w else w)" "length pre = i + length w"
      using len buf0(2) by (auto simp: pre_def i_def buf0_def INET6_ADDRSTRLEN_def take_Suc_conv_app_nth)
    have loop': "read_ip b n buf0 i = Inr (Some (pre @ r, n + length w, length pre))"
      using loop False pre(2) by (simp add: pre_def r_def)
    have r: "length pre + 2 \<le> length (pre @ r)"
      using False long pre(2) buf0(2) by (simp add: r_def INET6_ADDRSTRLEN_def)
    define buf where "buf = ip_of_field v @ NUL # (if ipv6 then tl (tl r) else tl r)"
    have close: "run_bind (if ipv6 then store (pre @ r) (length pre) (CHR '']'') else Inr (pre @ r))
        (\<lambda>buf. store buf (if ipv6 then Suc (length pre) else length pre) NUL) = Inr buf"
      using close_ip_buffer [OF r, of ipv6] pre(1)
      by (simp add: buf_def ip_of_field_def bracket_def ipv6_def [symmetric] w_def)
    have "c_string buf 0 (ip_of_field v)"
      by (rule c_stringI [of _ _ "[]"]) (auto simp: buf_def ip_of_field_no_nul)
    then have "parse_ip_field b ch con =
        Inr (if valid_ip_text (ip_of_field v) then Some (con\<lparr>ip := buf\<rparr>, Suc (n + length w)) else None)"
      using start n(1) buf0(1) loop' close
      by (cases ipv6) (simp_all add: parse_ip_field_def i_def run_bind_assoc [symmetric]
          looks_like_valid_ip_spec)
    moreover have "c_string b (n + length w) (field_rest v)"
      using n(2) c_string_suffix [of b n w "field_rest v"]
      by (simp add: w_def field_text_def field_rest_def)
    moreover have "n + length w + length (field_rest v) = Suc (ch + length v)"
      using n(3) takeWhile_dropWhile_id [of "\<lambda>c. \<not> field_end c" "drop_first (CHR ''<'') v"]
      by (metis add.assoc add_Suc field_rest_def field_text_def length_append w_def)
    moreover have "cstr buf = ip_of_field v"
      by (simp add: buf_def cstr_append ip_of_field_no_nul)
    moreover have "length buf = INET6_ADDRSTRLEN + 2"
      using r pre buf0(2) False long
      by (auto simp: buf_def ip_of_field_def bracket_def ipv6_def [symmetric] w_def [symmetric] r_def i_def)
    ultimately show ?thesis using False by auto
  qed
qed

lemma parse_ip_field_other:
  assumes "c_string b ch u" "u = [] \<or> hd u \<noteq> CHR ''i''"
  shows "parse_ip_field b ch con = Inr (Some (con, ch))"
  using assms
  by (cases u) (auto simp: parse_ip_field_def c_string_load_Nil dest!: c_string_load_Cons)

lemma ip_of_field_length: "\<not> ip_too_long v \<Longrightarrow> length (ip_of_field v) < INET6_ADDRSTRLEN + 2"
  by (auto simp: ip_too_long_def ip_of_field_def bracket_def INET6_ADDRSTRLEN_def split: if_splits)

lemma parse_ip_field_text:
  assumes u: "c_string b ch u" and len: "length (ip con) = INET6_ADDRSTRLEN + 2" "cstr (ip con) = []"
    and closed: "\<And>v. u = CHR ''i'' # v \<Longrightarrow> field_rest v \<noteq> []"
  shows "case text_ip u of
      None \<Rightarrow> parse_ip_field b ch con = Inr None
    | Some (a, u') \<Rightarrow> \<exists>buf ch'. parse_ip_field b ch con = Inr (Some (con\<lparr>ip := buf\<rparr>, ch')) \<and>
        c_string b ch' u' \<and> length buf = INET6_ADDRSTRLEN + 2 \<and> cstr buf = a \<and>
        length a < INET6_ADDRSTRLEN + 2"
proof (cases "u = [] \<or> hd u \<noteq> CHR ''i''")
  case True
  then have "text_ip u = Some ([], u)" by (auto simp: text_ip_def split: list.splits)
  with True u len parse_ip_field_other [OF u True, of con] show ?thesis
    by (auto intro!: exI [of _ "ip con"] simp: INET6_ADDRSTRLEN_def)
next
  case False
  then obtain v where v: "u = CHR ''i'' # v" by (cases u) auto
  from closed [OF v] obtain c r where r: "field_rest v = c # r" by (cases "field_rest v") auto
  note spec = parse_ip_field_spec [OF u [unfolded v] len(1)]
  show ?thesis
  proof (cases "ip_too_long v \<or> \<not> valid_ip_text (ip_of_field v)")
    case True
    with spec show ?thesis by (auto simp: text_ip_def v)
  next
    case False
    with spec obtain buf ch' where
      "parse_ip_field b ch con = Inr (Some (con\<lparr>ip := buf\<rparr>, Suc ch'))"
      "c_string b ch' (c # r)" "length buf = INET6_ADDRSTRLEN + 2" "cstr buf = ip_of_field v"
      using r by auto
    moreover have "length (ip_of_field v) < INET6_ADDRSTRLEN + 2"
      using False ip_of_field_length by blast
    ultimately show ?thesis
      using False r by (auto simp: text_ip_def v intro!: exI [of _ buf] dest: c_string_Cons)
  qed
qed

lemma read_path_text:
  assumes "c_string b 0 s"
  shows "read_path b 0 (executable blank_connection) 0 =
    Inr (if length (text_path s) < MAX_ABSOLUTE_EXEC_PATH
         then Some (text_path s @ replicate (MAX_ABSOLUTE_EXEC_PATH + 1 - length (text_path s)) NUL,
                    length (text_path s), length (text_path s))
         else None)"
proof -
  have "takeWhile (\<lambda>c. \<not> path_end c) s = text_path s"
    unfolding text_path_def
    by (rule takeWhile_cong) (use c_string_no_nul [OF assms] in \<open>auto simp: path_end_def\<close>)
  then show ?thesis
    using copy_until_c_string [OF assms, of path_end 0 MAX_ABSOLUTE_EXEC_PATH
        "executable blank_connection"]
    by (simp add: read_path_def blank_connection_def MAX_ABSOLUTE_EXEC_PATH_def Let_def)
qed

text \<open>What the parser has done when it reaches the ip field.\<close>

lemma parse_fields_body:
  assumes s: "c_string b 0 s" and short: "length (text_path s) < MAX_ABSOLUTE_EXEC_PATH"
  obtains con ch where
    "parse_fields b blank_connection = run_bind (parse_ip_field b ch con)
      (\<lambda>r. case r of None \<Rightarrow> Inr None
        | Some (con, ch) \<Rightarrow>
            run_bind (skip_char FIELD_SEPARATOR b ch) (\<lambda>ch. parse_port_field b ch con))"
    "c_string b ch (text_fields s)" "ch + length (text_fields s) = length s"
    "length (ip con) = INET6_ADDRSTRLEN + 2" "cstr (ip con) = []" "port con = NO_PORT"
    "cstr (executable con) = text_path s" "length (executable con) = MAX_ABSOLUTE_EXEC_PATH + 1"
proof -
  define P where "P = text_path s"
  define n where "n = MAX_ABSOLUTE_EXEC_PATH - length P"
  define exe where "exe = P @ NUL # replicate n NUL"
  define con where "con = blank_connection\<lparr>executable := exe\<rparr>"
  have split: "s = P @ dropWhile (\<lambda>c. c \<noteq> FIELD_SEPARATOR) s"
    by (simp add: P_def text_path_def)
  have rest: "c_string b (length P) (dropWhile (\<lambda>c. c \<noteq> FIELD_SEPARATOR) s)"
    using s split c_string_suffix [of b 0 P] by simp
  have path: "read_path b 0 (executable blank_connection) 0 =
      Inr (Some (P @ NUL # replicate n NUL, length P, length P))"
    using short by (simp add: read_path_text [OF s] P_def n_def Suc_diff_le less_imp_le)
  have exe: "store (P @ NUL # replicate n NUL) (length P) NUL = Inr exe"
    using store_at_end [of "NUL # replicate n NUL" P NUL] by (simp add: exe_def)
  obtain ch where ch: "skip_char FIELD_SEPARATOR b (length P) = Inr ch" "c_string b ch (text_fields s)"
    "ch + length (text_fields s) = length P + length (dropWhile (\<lambda>c. c \<noteq> FIELD_SEPARATOR) s)"
    using skip_char_spec [OF rest, of FIELD_SEPARATOR] by (auto simp: text_fields_def)
  have P: "NUL \<notin> set P"
    using c_string_no_nul [OF s] by (auto simp: P_def text_path_def dest: set_takeWhileD)
  show thesis
  proof (rule that)
    show "parse_fields b blank_connection = run_bind (parse_ip_field b ch con)
      (\<lambda>r. case r of None \<Rightarrow> Inr None
        | Some (con, ch) \<Rightarrow>
            run_bind (skip_char FIELD_SEPARATOR b ch) (\<lambda>ch. parse_port_field b ch con))"
      by (simp add: parse_fields_def path exe ch(1) con_def)
    show "ch + length (text_fields s) = length s"
      using ch(3) arg_cong [OF split, of length] by simp
  qed (use ch P short in \<open>simp_all add: con_def blank_connection_def exe_def n_def cstr_append P_def\<close>)
qed

text \<open>
  The parser refines the grammar: on every string whose ip field is closed, the object it fills
  stands for what the grammar says, and it refuses exactly what the grammar refuses.
\<close>

lemma parse_fields_refines:
  assumes s: "c_string b 0 s" and closed: "\<not> ip_unterminated s"
  shows "case parse_text s of
      None \<Rightarrow> parse_fields b blank_connection = Inr None
    | Some r \<Rightarrow> \<exists>con. parse_fields b blank_connection = Inr (Some con) \<and>
        conn_abs con = r \<and> wf_connection con"
proof (cases "length (text_path s) < MAX_ABSOLUTE_EXEC_PATH")
  case False
  then show ?thesis by (simp add: parse_text_def parse_fields_def read_path_text [OF s])
next
  case True
  obtain con1 ch where body: "parse_fields b blank_connection = run_bind (parse_ip_field b ch con1)
      (\<lambda>r. case r of None \<Rightarrow> Inr None
        | Some (con, ch) \<Rightarrow>
            run_bind (skip_char FIELD_SEPARATOR b ch) (\<lambda>ch. parse_port_field b ch con))"
    and ch: "c_string b ch (text_fields s)"
    and con1: "length (ip con1) = INET6_ADDRSTRLEN + 2" "cstr (ip con1) = []" "port con1 = NO_PORT"
      "cstr (executable con1) = text_path s" "length (executable con1) = MAX_ABSOLUTE_EXEC_PATH + 1"
    using parse_fields_body [OF s True] by metis
  have "field_rest v \<noteq> []" if "text_fields s = CHR ''i'' # v" for v
    using closed that by (auto simp: ip_unterminated_def)
  note ipf = parse_ip_field_text [OF ch con1(1,2) this]
  show ?thesis
  proof (cases "text_ip (text_fields s)")
    case None
    with ipf body True show ?thesis by (simp add: parse_text_def)
  next
    case (Some r)
    then obtain a u where au: "text_ip (text_fields s) = Some (a, u)" by (cases r) auto
    with ipf obtain buf ch' where ip: "parse_ip_field b ch con1 = Inr (Some (con1\<lparr>ip := buf\<rparr>, ch'))"
      "c_string b ch' u" "length buf = INET6_ADDRSTRLEN + 2" "cstr buf = a"
      "length a < INET6_ADDRSTRLEN + 2"
      by auto
    obtain ch'' where ch'': "skip_char FIELD_SEPARATOR b ch' = Inr ch''"
      "c_string b ch'' (drop_first FIELD_SEPARATOR u)"
      using skip_char_spec [OF ip(2), of FIELD_SEPARATOR] by auto
    have port: "parse_port_field b ch'' (con1\<lparr>ip := buf\<rparr>) =
        Inr (map_option (\<lambda>n. con1\<lparr>ip := buf, port := n\<rparr>) (text_port (drop_first FIELD_SEPARATOR u)))"
      using parse_port_field_spec [OF ch''(2), of "con1\<lparr>ip := buf\<rparr>"] con1(3) by simp
    have valid: "n = NO_PORT \<or> valid_port_number n"
      if "text_port (drop_first FIELD_SEPARATOR u) = Some n" for n
      using that by (auto simp: text_port_def Let_def split: list.splits if_splits)
    show ?thesis
      using True con1 ip ch'' port valid
      by (cases "text_port (drop_first FIELD_SEPARATOR u)")
        (auto simp: parse_text_def au body conn_abs_def wf_connection_def)
  qed
qed

text \<open>
  An unterminated ip field: the parser steps over the NUL that ends the string and goes on with
  whatever follows it in memory.
\<close>

lemma parse_fields_unterminated:
  assumes s: "c_string b 0 s" and short: "length (text_path s) < MAX_ABSOLUTE_EXEC_PATH"
    and v: "text_fields s = CHR ''i'' # v" "field_rest v = []"
    and ok: "\<not> ip_too_long v" "valid_ip_text (ip_of_field v)"
  obtains con where
    "parse_fields b blank_connection = run_bind (skip_char FIELD_SEPARATOR b (Suc (length s)))
      (\<lambda>ch. parse_port_field b ch con)"
    "conn_abs con = (text_path s, ip_of_field v, NO_PORT)"
proof -
  obtain con1 ch where body: "parse_fields b blank_connection = run_bind (parse_ip_field b ch con1)
      (\<lambda>r. case r of None \<Rightarrow> Inr None
        | Some (con, ch) \<Rightarrow>
            run_bind (skip_char FIELD_SEPARATOR b ch) (\<lambda>ch. parse_port_field b ch con))"
    and ch: "c_string b ch (text_fields s)" "ch + length (text_fields s) = length s"
    and con1: "length (ip con1) = INET6_ADDRSTRLEN + 2" "port con1 = NO_PORT"
      "cstr (executable con1) = text_path s"
    using parse_fields_body [OF s short] by metis
  from parse_ip_field_spec [OF ch(1) [unfolded v(1)] con1(1)] ok v(2)
  obtain buf ch' where ip: "parse_ip_field b ch con1 = Inr (Some (con1\<lparr>ip := buf\<rparr>, Suc ch'))"
    "ch' = Suc (ch + length v)" "cstr buf = ip_of_field v"
    by auto
  have "ch' = length s" using ip(2) ch(2) v(1) by simp
  with body ip(1) have "parse_fields b blank_connection =
      run_bind (skip_char FIELD_SEPARATOR b (Suc (length s)))
        (\<lambda>ch. parse_port_field b ch (con1\<lparr>ip := buf\<rparr>))"
    by simp
  with that show thesis using ip(3) con1 by (simp add: conn_abs_def)
qed

section \<open>No write leaves an object\<close>

lemma ensures_copy_until:
  assumes "i < limit" "limit \<le> length buf" "F \<subseteq> - {Read_out_of_bounds}"
  shows "ensures F (copy_until stop limit b ch buf i)
    (\<lambda>r. case r of None \<Rightarrow> True | Some (buf', ch', i') \<Rightarrow> length buf' = length buf \<and> i' < limit)"
proof (cases "copy_until stop limit b ch buf i")
  case (Inl e)
  with copy_until_fault [OF Inl assms(1,2)] assms(3) show ?thesis by auto
next
  case (Inr r)
  with copy_until_result [of stop limit b ch buf i] assms(1) show ?thesis
    by (auto split: option.splits)
qed

lemma ensures_scan:
  "F \<subseteq> - {Read_out_of_bounds} \<Longrightarrow> ensures F (scan test b p n i) (\<lambda>_. True)"
proof (induction test b p n i rule: scan.induct)
  case (1 test b p n i)
  then show ?case
    by (subst scan.simps) (auto simp: load_def)
qed

lemma ensures_end_of_number:
  "F \<subseteq> - {Read_out_of_bounds} \<Longrightarrow> ensures F (end_of_number b ch) (\<lambda>_. True)"
proof (induction b ch rule: end_of_number.induct)
  case (1 b ch)
  then show ?case
    by (subst end_of_number.simps) (auto simp: load_def)
qed

lemma ensures_sum_digits:
  "F \<subseteq> - {Read_out_of_bounds} \<Longrightarrow> ensures F (sum_digits b s ch base prt) (\<lambda>_. True)"
proof (induction b s ch base prt rule: sum_digits.induct)
  case (1 b s ch base prt)
  then show ?case
    by (subst sum_digits.simps) (auto simp: load_def)
qed

lemma ensures_skip_char:
  "F \<subseteq> - {Read_out_of_bounds} \<Longrightarrow> ensures F (skip_char x b ch) (\<lambda>_. True)"
  by (auto simp: skip_char_def load_def)

lemma ensures_looks_like_ipv6:
  "F \<subseteq> - {Read_out_of_bounds} \<Longrightarrow> ensures F (looks_like_ipv6 q) (\<lambda>_. True)"
  by (auto simp: looks_like_ipv6_def ensures_scan split: option.splits)

lemma ensures_looks_like_valid_ip:
  "F \<subseteq> - {Read_out_of_bounds} \<Longrightarrow> ensures F (looks_like_valid_ip q) (\<lambda>_. True)"
  by (auto simp: looks_like_valid_ip_def intro!: ensures_bind ensures_looks_like_ipv6 ensures_scan
      split: option.splits)

lemmas ensures_reads = ensures_scan ensures_end_of_number ensures_sum_digits ensures_skip_char
  ensures_looks_like_ipv6 ensures_looks_like_valid_ip

lemma ensures_parse_port_field:
  "F \<subseteq> - {Read_out_of_bounds} \<Longrightarrow> ensures F (parse_port_field b ch con) (\<lambda>_. True)"
  unfolding parse_port_field_def
  by (intro ensures_bind [OF ensures_load] ensures_if ensures_bind [OF ensures_skip_char]
      ensures_bind [OF ensures_end_of_number] ensures_bind [OF ensures_sum_digits]) auto

lemma ensures_parse_ip_field:
  assumes len: "length (ip con) = INET6_ADDRSTRLEN + 2" and F: "F \<subseteq> - {Read_out_of_bounds}"
  shows "ensures F (parse_ip_field b ch con) (\<lambda>_. True)"
proof -
  have open_br: "ensures F (if v6 then store (ip con) 0 (CHR ''['') else Inr (ip con))
      (\<lambda>buf. length buf = INET6_ADDRSTRLEN + 2)" for v6
    using len by (auto simp: store_def INET6_ADDRSTRLEN_def)
  have loop: "ensures F (read_ip b n buf (if v6 then 1 else 0))
      (\<lambda>r. case r of None \<Rightarrow> True
        | Some (buf', ch', i') \<Rightarrow> length buf' = INET6_ADDRSTRLEN + 2 \<and> i' < INET6_ADDRSTRLEN + 1)"
    if "length buf = INET6_ADDRSTRLEN + 2" for n v6 buf
    unfolding read_ip_def
    by (rule ensures_weaken [OF ensures_copy_until])
      (use F that in \<open>auto simp: INET6_ADDRSTRLEN_def split: option.splits\<close>)
  have close_br: "ensures F (if v6 then store buf i (CHR '']'') else Inr buf)
      (\<lambda>buf'. length buf' = INET6_ADDRSTRLEN + 2)"
    if "length buf = INET6_ADDRSTRLEN + 2" "i < INET6_ADDRSTRLEN + 1" for v6 buf i
    using that by (auto simp: store_def)
  have end_nul: "ensures F (store buf (if v6 then Suc i else i) NUL) (\<lambda>_. True)"
    if "length buf = INET6_ADDRSTRLEN + 2" "i < INET6_ADDRSTRLEN + 1" for v6 buf i
    using that by (auto simp: store_def)
  show ?thesis
    unfolding parse_ip_field_def using F
    by (intro ensures_bind [OF ensures_load] ensures_if ensures_bind [OF ensures_looks_like_ipv6]
        ensures_bind [OF ensures_skip_char] ensures_bind [OF open_br] ensures_bind [OF loop]
        ensures_case_triple ensures_bind [OF close_br] ensures_bind [OF end_nul]
        ensures_bind [OF ensures_looks_like_valid_ip]) auto
qed

lemma ensures_parse_fields:
  assumes "length (ip con) = INET6_ADDRSTRLEN + 2"
    and "length (executable con) = MAX_ABSOLUTE_EXEC_PATH + 1" "F \<subseteq> - {Read_out_of_bounds}"
  shows "ensures F (parse_fields b con) (\<lambda>_. True)"
proof -
  have path: "ensures F (read_path b 0 (executable con) 0)
      (\<lambda>r. case r of None \<Rightarrow> True
        | Some (exe, ch, i) \<Rightarrow> length exe = MAX_ABSOLUTE_EXEC_PATH + 1 \<and> i < MAX_ABSOLUTE_EXEC_PATH)"
    unfolding read_path_def
    by (rule ensures_weaken [OF ensures_copy_until])
      (use assms in \<open>auto simp: MAX_ABSOLUTE_EXEC_PATH_def split: option.splits\<close>)
  have end_nul: "ensures F (store exe i NUL) (\<lambda>_. True)"
    if "length exe = MAX_ABSOLUTE_EXEC_PATH + 1" "i < MAX_ABSOLUTE_EXEC_PATH" for exe i
    using that by (simp add: store_def)
  show ?thesis
    unfolding parse_fields_def using assms
    by (intro ensures_bind [OF path] ensures_case_triple ensures_bind [OF end_nul]
        ensures_bind [OF ensures_skip_char] ensures_bind [OF ensures_parse_ip_field]
        ensures_case_pair ensures_parse_port_field) auto
qed

lemma blank_connection_lengths:
  "length (ip blank_connection) = INET6_ADDRSTRLEN + 2"
  "length (executable blank_connection) = MAX_ABSOLUTE_EXEC_PATH + 1"
  by (simp_all add: blank_connection_def)

section \<open>The parser as a whole\<close>

text \<open>Addresses that kmalloc has not handed out yet hold no object.\<close>

definition heap_wf :: "conn_heap \<Rightarrow> bool" where
  "heap_wf h \<longleftrightarrow> (\<forall>a \<ge> next_addr h. objs h a = None)"

definition bump :: "conn_heap \<Rightarrow> conn_heap" where
  "bump h = h\<lparr>next_addr := Suc (next_addr h)\<rparr>"

definition add_obj :: "connection \<Rightarrow> conn_heap \<Rightarrow> conn_heap" where
  "add_obj con h = h\<lparr>objs := (objs h)(next_addr h \<mapsto> con), next_addr := Suc (next_addr h)\<rparr>"

lemma heap_wf_fresh: "heap_wf h \<Longrightarrow> objs h (next_addr h) = None"
  by (simp add: heap_wf_def)

lemma heap_wf_bump: "heap_wf h \<Longrightarrow> heap_wf (bump h)"
  by (simp add: heap_wf_def bump_def)

lemma heap_wf_add_obj: "heap_wf h \<Longrightarrow> heap_wf (add_obj con h)"
  by (simp add: heap_wf_def add_obj_def)

lemma initialize_connection_from_string_run:
  assumes "heap_wf h"
  shows "initialize_connection_from_string True (Some b) h =
    run_bind (parse_fields b blank_connection)
      (\<lambda>r. Inr (case r of None \<Rightarrow> (None, bump h) | Some con \<Rightarrow> (Some (next_addr h), add_obj con h)))"
proof -
  have "(objs h)(next_addr h := None) = objs h"
    using heap_wf_fresh [OF assms] by (simp add: fun_upd_idem_iff)
  then show ?thesis
    by (auto simp: initialize_connection_from_string_def initialize_connection_def
        destroy_connection_def bump_def add_obj_def intro!: run_bind_cong split: option.splits)
qed

text \<open>
  C6: The parser implements the grammar of a connection string: on a C string whose ip field is
  closed it returns NULL, with the heap as it was, exactly when the grammar refuses the string,
  and otherwise a new well-formed object that stands for the path, ip and port of the grammar. It
  reads and writes nothing out of bounds on the way. (The allocation of the object succeeds.)
\<close>

theorem parser_implements_grammar:
  assumes "c_string b 0 s" "\<not> ip_unterminated s" "heap_wf h"
  shows "case parse_text s of
      None \<Rightarrow> initialize_connection_from_string True (Some b) h = Inr (None, bump h)
    | Some r \<Rightarrow> \<exists>con.
        initialize_connection_from_string True (Some b) h = Inr (Some (next_addr h), add_obj con h) \<and>
        conn_abs con = r \<and> wf_connection con"
  using parse_fields_refines [OF assms(1,2)]
  by (auto simp: initialize_connection_from_string_run [OF assms(3)] split: option.splits)

theorem parser_implements_grammar_witness:
  "\<exists>con. initialize_connection_from_string True (Some (''/bin/a|p<22>'' @ [NUL])) \<lparr>objs = Map.empty, next_addr = 1\<rparr>
     = Inr (Some 1, add_obj con \<lparr>objs = Map.empty, next_addr = 1\<rparr>) \<and>
     conn_abs con = (''/bin/a'', [], 22) \<and> wf_connection con"
proof -
  have c: "c_string (''/bin/a|p<22>'' @ [NUL]) 0 ''/bin/a|p<22>''"
    by (rule c_stringI [of _ _ "[]" "[]"]) simp_all
  have n: "\<not> ip_unterminated ''/bin/a|p<22>''" by code_simp
  have g: "parse_text ''/bin/a|p<22>'' = Some (''/bin/a'', [], 22)" by code_simp
  have h: "heap_wf \<lparr>objs = Map.empty, next_addr = 1\<rparr>" by (simp add: heap_wf_def)
  show ?thesis using parser_implements_grammar [OF c n h] unfolding g by simp
qed

text \<open>
  C19: Whatever bytes the parser is given, terminated or not, it never writes outside of the
  connection it allocated: the path and ip loops stop before their buffers end.
\<close>

theorem parser_never_writes_out_of_bounds:
  assumes "heap_wf h"
  shows "initialize_connection_from_string kmalloc_ok cs h \<noteq> Inl Write_out_of_bounds"
proof (cases "kmalloc_ok \<and> cs \<noteq> None")
  case True
  then obtain b where "cs = Some b" "kmalloc_ok" by auto
  moreover have "ensures {Write_out_of_bounds} (parse_fields b blank_connection) (\<lambda>_. True)"
    by (rule ensures_parse_fields) (auto simp: blank_connection_lengths)
  ultimately show ?thesis
    by (auto simp: initialize_connection_from_string_run [OF assms] run_bind_eq_Inl)
next
  case False
  then show ?thesis
    by (cases cs) (auto simp: initialize_connection_from_string_def initialize_connection_def
        destroy_connection_def)
qed

theorem parser_never_writes_out_of_bounds_witness:
  "initialize_connection_from_string True (Some (replicate 2000 (CHR ''a'')))
     \<lparr>objs = Map.empty, next_addr = 1\<rparr> \<noteq> Inl Write_out_of_bounds"
  by (rule parser_never_writes_out_of_bounds) (simp add: heap_wf_def)

section \<open>The documented formats\<close>

text \<open>A destination as netlog names it, and the text a user writes for it (no brackets).\<close>

datatype address = V4 be32 | V6 in6_addr

fun user_text :: "address \<Rightarrow> string" where
  "user_text (V4 a) = format_ipv4 a"
| "user_text (V6 a) = join (CHR '':'') (map fmt_04x (nip6 a))"

fun kernel_text :: "address \<Rightarrow> string" where
  "kernel_text (V4 a) = format_ipv4 a"
| "kernel_text (V6 a) = format_ipv6 a"

text \<open>The four formats of the module's documentation: path, path and ip, path and port, all three.\<close>

definition ip_part :: "address option \<Rightarrow> string" where
  "ip_part a = (case a of None \<Rightarrow> [] | Some a \<Rightarrow> ''|i<'' @ user_text a @ ''>'')"

definition port_part :: "nat option \<Rightarrow> string" where
  "port_part n = (case n of None \<Rightarrow> [] | Some n \<Rightarrow> ''|p<'' @ dec_string n @ ''>'')"

definition render_rule :: "string \<Rightarrow> address option \<Rightarrow> nat option \<Rightarrow> string" where
  "render_rule path a n = path @ ip_part a @ port_part n"

lemma text_number_digits:
  "(\<And>c. c \<in> set s \<Longrightarrow> c \<in> set ''0123456789'') \<Longrightarrow> text_number s = int (radix_value 10 s)"
proof (induction s rule: rev_induct)
  case Nil
  then show ?case by (simp add: text_number_def)
next
  case (snoc c s)
  have "list_all (\<lambda>c. schar c - schar (CHR ''0'') = int (digit_value c)) ''0123456789''"
    by code_simp
  moreover have "c \<in> set ''0123456789''" using snoc.prems by simp
  ultimately have "schar c - schar (CHR ''0'') = int (digit_value c)"
    by (simp only: list_all_iff)
  with snoc show ?case by (simp add: text_number_snoc)
qed

lemma text_number_dec_string: "text_number (dec_string n) = int n"
  using text_number_digits [of "dec_string n"] dec_string_chars
  by (simp add: dec_string_def radix_value_string)

lemma valid_port_number_of_nat:
  "valid_port_number (word_of_nat n) \<longleftrightarrow> 0 < n mod 2 ^ 32 \<and> n mod 2 ^ 32 < 65536"
proof -
  have "sint (word_of_nat n :: 32 word) = signed_take_bit 31 (int n)"
    by (simp add: signed_of_nat)
  moreover have "signed_take_bit 31 (int n) =
      (if n mod 2 ^ 32 < 2 ^ 31 then int (n mod 2 ^ 32) else int (n mod 2 ^ 32) - 2 ^ 32)"
  proof -
    have "n mod (2 ^ 31 * 2) = 2 ^ 31 * (n div 2 ^ 31 mod 2) + n mod 2 ^ 31"
      by (rule mod_mult2_eq)
    moreover have "n mod 2 ^ 31 < 2 ^ 31" by simp
    ultimately have "even (n div 2 ^ 31) \<longleftrightarrow> n mod 2 ^ 32 < 2 ^ 31"
      by (cases "even (n div 2 ^ 31)") (simp_all add: odd_iff_mod_2_eq_one)
    moreover have "int n div 2 ^ 31 = int (n div 2 ^ 31)" by (simp add: zdiv_int)
    ultimately show ?thesis
      by (simp add: signed_take_bit_eq_take_bit_minus take_bit_eq_mod bit_iff_odd zmod_int)
  qed
  ultimately show ?thesis
    by (auto simp: valid_port_number_def)
qed

lemma user_text_chars: "c \<in> set (user_text a) \<Longrightarrow> c \<in> set ''.:0123456789abcdef''"
  using join_chars [of c "CHR '':''" "map fmt_04x (nip6 (case a of V6 x \<Rightarrow> x | _ \<Rightarrow> undefined))"]
  by (cases a) (auto dest!: format_ipv4_chars fmt_04x_chars)

lemma user_text_no_end: "list_all (\<lambda>c. \<not> field_end c \<and> c \<noteq> CHR ''<'') (user_text a)"
  by (auto simp: list_all_iff field_end_def dest!: user_text_chars)

lemma drop_first_other: "list_all (\<lambda>c. c \<noteq> x) s \<Longrightarrow> drop_first x (s @ y # r) = (if s = [] \<and> y = x then r else s @ y # r)"
  by (cases s) auto

lemma bracketed_field:
  assumes "list_all (\<lambda>c. \<not> field_end c \<and> c \<noteq> CHR ''<'') t"
  shows "field_text (CHR ''<'' # t @ CHR ''>'' # r) = t"
    and "field_rest (CHR ''<'' # t @ CHR ''>'' # r) = CHR ''>'' # r"
proof -
  have "takeWhile (\<lambda>c. \<not> field_end c) (t @ CHR ''>'' # r) = t"
    "dropWhile (\<lambda>c. \<not> field_end c) (t @ CHR ''>'' # r) = CHR ''>'' # r"
    using assms by (induction t) (auto simp: field_end_def)
  then show "field_text (CHR ''<'' # t @ CHR ''>'' # r) = t"
    "field_rest (CHR ''<'' # t @ CHR ''>'' # r) = CHR ''>'' # r"
    by (simp_all add: field_text_def field_rest_def)
qed

lemma path_and_fields:
  assumes "FIELD_SEPARATOR \<notin> set path" "r = [] \<or> hd r = FIELD_SEPARATOR"
  shows "text_path (path @ r) = path" "text_fields (path @ r) = drop_first FIELD_SEPARATOR r"
proof -
  have "takeWhile (\<lambda>c. c \<noteq> FIELD_SEPARATOR) (path @ r) = path"
    "dropWhile (\<lambda>c. c \<noteq> FIELD_SEPARATOR) (path @ r) = r"
    using assms by (induction path) (auto, (cases r, auto)+)
  then show "text_path (path @ r) = path" "text_fields (path @ r) = drop_first FIELD_SEPARATOR r"
    by (simp_all add: text_path_def text_fields_def)
qed

lemma text_port_rendered:
  assumes "case n of None \<Rightarrow> True | Some n \<Rightarrow> 0 < n \<and> n < 65536"
  shows "text_port (drop_first FIELD_SEPARATOR (port_part n)) =
    Some (case n of None \<Rightarrow> NO_PORT | Some n \<Rightarrow> word_of_nat n)"
proof (cases n)
  case None
  then show ?thesis by (simp add: port_part_def text_port_def)
next
  case (Some k)
  have "field_text (CHR ''<'' # dec_string k @ [CHR ''>'']) = dec_string k"
    by (rule bracketed_field) (auto simp: list_all_iff field_end_def dest!: dec_string_chars)
  with assms Some show ?thesis
    by (simp add: port_part_def text_port_def text_number_dec_string valid_port_number_of_nat Let_def)
qed

lemma user_text_v6_colon: "CHR '':'' \<in> set (user_text (V6 a))"
  by (cases a) simp

lemma user_text_length:
  "length (user_text (V4 a)) < INET_ADDRSTRLEN" "length (user_text (V6 b)) = 39"
  using format_ipv4_length [of a] format_ipv6_length [of b] by (simp_all add: format_ipv6_def)

lemma user_text_bound: "length (user_text a) \<le> 39"
proof (cases a)
  case (V4 x)
  then show ?thesis using user_text_length(1) [of x] by (simp add: INET_ADDRSTRLEN_def)
next
  case (V6 x)
  then show ?thesis using user_text_length(2) [of x] by simp
qed

lemma text_ip_rendered:
  "text_ip (CHR ''i'' # CHR ''<'' # user_text a @ CHR ''>'' # port_part n) = Some (kernel_text a, port_part n)"
proof -
  let ?v = "CHR ''<'' # user_text a @ CHR ''>'' # port_part n"
  have colon: "CHR '':'' \<in> set (take INET6_ADDRSTRLEN (CHR ''i'' # ?v)) \<longleftrightarrow> (\<exists>x. a = V6 x)"
  proof (cases a)
    case (V4 x)
    have "CHR '':'' \<notin> set (CHR ''i'' # ?v)"
      using V4 by (auto simp: port_part_def dest!: format_ipv4_chars dec_string_chars split: option.splits)
    then show ?thesis using V4 by (auto dest: in_set_takeD)
  next
    case (V6 x)
    have "set (user_text (V6 x)) \<subseteq> set (take INET6_ADDRSTRLEN (CHR ''i'' # CHR ''<'' # user_text (V6 x) @ CHR ''>'' # port_part n))"
      using user_text_length(2) [of x] by (auto simp: INET6_ADDRSTRLEN_def)
    then show ?thesis using V6 user_text_v6_colon [of x] by auto
  qed
  note fld = bracketed_field [OF user_text_no_end, of a "port_part n"]
  have "ip_of_field ?v = kernel_text a"
    unfolding ip_of_field_def colon fld by (cases a) (simp_all add: bracket_def format_ipv6_def)
  moreover have "\<not> ip_too_long ?v"
    unfolding ip_too_long_def colon fld
    using user_text_bound [of a] by (auto simp: INET6_ADDRSTRLEN_def)
  moreover have "valid_ip_text (kernel_text a)"
    by (cases a) (simp_all add: valid_ip_text_ipv4 valid_ip_text_ipv6)
  ultimately show ?thesis by (simp add: text_ip_def fld)
qed

text \<open>The grammar reads back what is written in a documented format, with its ip field closed.\<close>

lemma documented_formats_parse:
  assumes "FIELD_SEPARATOR \<notin> set path" "length path < MAX_ABSOLUTE_EXEC_PATH"
    and "case n of None \<Rightarrow> True | Some n \<Rightarrow> 0 < n \<and> n < 65536"
  shows "parse_text (render_rule path a n) =
      Some (path, case a of None \<Rightarrow> [] | Some a \<Rightarrow> kernel_text a,
            case n of None \<Rightarrow> NO_PORT | Some n \<Rightarrow> word_of_nat n) \<and>
    \<not> ip_unterminated (render_rule path a n)"
proof -
  have "ip_part a @ port_part n = [] \<or> hd (ip_part a @ port_part n) = FIELD_SEPARATOR"
    by (auto simp: ip_part_def port_part_def split: option.splits)
  note pf = path_and_fields [OF assms(1) this, folded render_rule_def]
  have fields: "text_fields (render_rule path a n) =
      (case a of None \<Rightarrow> drop_first FIELD_SEPARATOR (port_part n)
       | Some x \<Rightarrow> CHR ''i'' # CHR ''<'' # user_text x @ CHR ''>'' # port_part n)"
    by (simp add: pf(2) ip_part_def split: option.splits)
  have none: "text_ip (drop_first FIELD_SEPARATOR (port_part n)) =
      Some ([], drop_first FIELD_SEPARATOR (port_part n))"
    "drop_first FIELD_SEPARATOR (drop_first FIELD_SEPARATOR (port_part n)) =
      drop_first FIELD_SEPARATOR (port_part n)"
    by (auto simp: port_part_def text_ip_def split: option.splits)
  have "parse_text (render_rule path a n) =
      Some (path, case a of None \<Rightarrow> [] | Some a \<Rightarrow> kernel_text a,
            case n of None \<Rightarrow> NO_PORT | Some n \<Rightarrow> word_of_nat n)"
    using assms(2) text_port_rendered [OF assms(3)] none pf(1) fields
    by (cases a) (auto simp: parse_text_def text_ip_rendered)
  moreover have "\<not> ip_unterminated (render_rule path a n)"
    using bracketed_field(2) [OF user_text_no_end]
    by (auto simp: ip_unterminated_def fields port_part_def split: option.splits)
  ultimately show ?thesis by simp
qed

lemma render_rule_no_nul:
  assumes "NUL \<notin> set path"
  shows "NUL \<notin> set (render_rule path a n)"
proof -
  have "NUL \<notin> set (user_text x)" for x
    using user_text_no_end [of x] by (auto simp: list_all_iff field_end_def)
  then show ?thesis
    using assms dec_string_no_nul by (auto simp: render_rule_def ip_part_def port_part_def split: option.splits)
qed

text \<open>
  C18: A rule written in any of the four documented formats (a path, with or without an address in
  brackets, with or without a port) is read back by the parser as what was written: from its bytes the
  code allocates a connection with that path, the address as netlog itself prints it (an IPv6 address
  gets its brackets), and that port. The path is shorter than 950 characters and holds neither a
  separator nor a NUL, and there is memory for the connection.
\<close>

theorem documented_formats_round_trip:
  assumes "FIELD_SEPARATOR \<notin> set path" "NUL \<notin> set path" "length path < MAX_ABSOLUTE_EXEC_PATH"
    and "case n of None \<Rightarrow> True | Some n \<Rightarrow> 0 < n \<and> n < 65536" "heap_wf h"
  shows "\<exists>con. initialize_connection_from_string True (Some (render_rule path a n @ NUL # rest)) h =
      Inr (Some (next_addr h), add_obj con h) \<and> wf_connection con \<and>
    cstr (executable con) = path \<and> cstr (ip con) = (case a of None \<Rightarrow> [] | Some a \<Rightarrow> kernel_text a) \<and>
    port con = (case n of None \<Rightarrow> NO_PORT | Some n \<Rightarrow> word_of_nat n)"
proof -
  have "NUL \<notin> set (render_rule path a n)" using assms(2) by (rule render_rule_no_nul)
  then have "c_string (render_rule path a n @ NUL # rest) 0 (render_rule path a n)"
    by (rule c_stringI [of _ _ "[]" rest]) simp_all
  note parsed = parse_fields_refines [OF this conjunct2 [OF documented_formats_parse [OF assms(1,3,4)]]]
  show ?thesis
    using parsed documented_formats_parse [OF assms(1,3,4), of a]
    by (auto simp: initialize_connection_from_string_run [OF assms(5)] conn_abs_def split: option.splits)
qed

theorem documented_formats_round_trip_witness:
  "\<exists>con. initialize_connection_from_string True (Some (render_rule ''/usr/bin/sshd'' (Some (V4 16777343)) (Some 22) @ [NUL]))
      \<lparr>objs = Map.empty, next_addr = 1\<rparr> = Inr (Some 1, add_obj con \<lparr>objs = Map.empty, next_addr = 1\<rparr>) \<and>
    cstr (executable con) = ''/usr/bin/sshd'' \<and> cstr (ip con) = ''127.0.0.1'' \<and> port con = 22"
proof -
  have "format_ipv4 16777343 = ''127.0.0.1''" by code_simp
  then show ?thesis
    using documented_formats_round_trip [of "''/usr/bin/sshd''" "Some 22" "\<lparr>objs = Map.empty, next_addr = 1\<rparr>"
        "Some (V4 16777343)" "[]"]
    by (simp add: MAX_ABSOLUTE_EXEC_PATH_def heap_wf_def) blast
qed

text \<open>
  A decimal port of any length is read modulo 2 to the 32: it is accepted exactly when that
  remainder is a valid port, so that a number far outside of the port range can whitelist a port.
\<close>

theorem port_read_modulo_word:
  assumes "c_string b ch (CHR ''p'' # CHR ''<'' # dec_string n @ CHR ''>'' # r)" "port con = NO_PORT"
  shows "parse_port_field b ch con =
    Inr (if 0 < n mod 2 ^ 32 \<and> n mod 2 ^ 32 < 65536 then Some (con\<lparr>port := word_of_nat n\<rparr>) else None)"
proof -
  have "field_text (CHR ''<'' # dec_string n @ CHR ''>'' # r) = dec_string n"
    by (rule bracketed_field) (auto simp: list_all_iff field_end_def dest!: dec_string_chars)
  then show ?thesis
    using parse_port_field_spec [OF assms]
    by (simp add: text_port_def text_number_dec_string valid_port_number_of_nat Let_def)
qed

theorem port_read_modulo_word_witness:
  "parse_port_field (''p<'' @ dec_string 4294967318 @ ''>'' @ [NUL]) 0 blank_connection =
     Inr (Some (blank_connection\<lparr>port := 22\<rparr>))"
proof -
  have "c_string (''p<'' @ dec_string 4294967318 @ ''>'' @ [NUL]) 0
      (CHR ''p'' # CHR ''<'' # dec_string 4294967318 @ CHR ''>'' # [])"
    by (rule c_stringI [of _ _ "[]" "[]"]) (simp_all add: dec_string_no_nul)
  moreover have "(word_of_nat 4294967318 :: 32 word) = 22" by simp
  ultimately show ?thesis
    using port_read_modulo_word [of _ 0 4294967318 "[]" blank_connection]
    by (simp add: blank_connection_def)
qed

text \<open>
  C37: An ip field that ends with the string, as the documented short form without angle brackets
  does, makes the parser read past the terminating NUL: a fault where the string's object ends,
  and otherwise a port taken from the bytes that happen to follow.
\<close>

theorem unterminated_ip_reads_past_string:
  assumes "NUL \<notin> set s" "length (text_path s) < MAX_ABSOLUTE_EXEC_PATH" "ip_unterminated s"
    and "\<not> ip_too_long (tl (text_fields s))" "valid_ip_text (ip_of_field (tl (text_fields s)))"
    and "heap_wf h" "NUL \<notin> set t" "text_port (drop_first FIELD_SEPARATOR t) = Some n"
  shows "initialize_connection_from_string True (Some (s @ [NUL])) h = Inl Read_out_of_bounds \<and>
    (\<exists>con. initialize_connection_from_string True (Some (s @ NUL # t @ NUL # r)) h =
         Inr (Some (next_addr h), add_obj con h) \<and>
       conn_abs con = (text_path s, ip_of_field (tl (text_fields s)), n))"
proof -
  from assms(3) obtain v where v: "text_fields s = CHR ''i'' # v" "field_rest v = []"
    by (auto simp: ip_unterminated_def split: list.splits)
  have ok: "\<not> ip_too_long v" "valid_ip_text (ip_of_field v)" using assms(4,5) v(1) by simp_all
  have s1: "c_string (s @ [NUL]) 0 s" and s2: "c_string (s @ NUL # t @ NUL # r) 0 s"
    using assms(1) by (auto intro: c_stringI [of s _ "[]"])
  have fault: "parse_fields (s @ [NUL]) blank_connection = Inl Read_out_of_bounds"
    using parse_fields_unterminated [OF s1 assms(2) v ok]
    by (metis (no_types, lifting) length_append_singleton load_out order_refl run_bind_Inl skip_char_def)
  obtain con where con: "parse_fields (s @ NUL # t @ NUL # r) blank_connection =
      run_bind (skip_char FIELD_SEPARATOR (s @ NUL # t @ NUL # r) (Suc (length s)))
        (\<lambda>ch. parse_port_field (s @ NUL # t @ NUL # r) ch con)"
    "conn_abs con = (text_path s, ip_of_field v, NO_PORT)"
    using parse_fields_unterminated [OF s2 assms(2) v ok] by metis
  have "c_string (s @ NUL # t @ NUL # r) (Suc (length s)) t"
    using assms(7) by (intro c_stringI [of t _ "s @ [NUL]" r]) auto
  then obtain ch where ch: "skip_char FIELD_SEPARATOR (s @ NUL # t @ NUL # r) (Suc (length s)) = Inr ch"
    "c_string (s @ NUL # t @ NUL # r) ch (drop_first FIELD_SEPARATOR t)"
    using skip_char_spec [of _ _ t FIELD_SEPARATOR] by fastforce
  have "port con = NO_PORT" using con(2) by (simp add: conn_abs_def)
  with ch con(1) have "parse_fields (s @ NUL # t @ NUL # r) blank_connection = Inr (Some (con\<lparr>port := n\<rparr>))"
    using parse_port_field_spec [OF ch(2)] assms(8) by simp
  with fault con(2) v(1) show ?thesis
    by (auto simp: initialize_connection_from_string_run [OF assms(6)] conn_abs_def)
qed

theorem unterminated_ip_reads_past_string_witness:
  "initialize_connection_from_string True (Some (''/usr/bin/ssh|i127.0.0.1'' @ [NUL]))
     \<lparr>objs = Map.empty, next_addr = 1\<rparr> = Inl Read_out_of_bounds"
proof -
  have 1: "length (text_path ''/usr/bin/ssh|i127.0.0.1'') < MAX_ABSOLUTE_EXEC_PATH" by code_simp
  have 2: "ip_unterminated ''/usr/bin/ssh|i127.0.0.1''" by code_simp
  have 3: "\<not> ip_too_long (tl (text_fields ''/usr/bin/ssh|i127.0.0.1''))" by code_simp
  have 4: "valid_ip_text (ip_of_field (tl (text_fields ''/usr/bin/ssh|i127.0.0.1'')))" by code_simp
  have 5: "text_port (drop_first FIELD_SEPARATOR ''p<22>'') = Some 22" by code_simp
  show ?thesis
    using unterminated_ip_reads_past_string [OF _ 1 2 3 4 _ _ 5,
        of "\<lparr>objs = Map.empty, next_addr = 1\<rparr>"]
    by (simp add: heap_wf_def)
qed

section \<open>Comparison of connections\<close>

text \<open>The three attributes agree, an empty ip and NO_PORT agreeing with everything.\<close>

fun attrs_match :: "string \<times> string \<times> 32 word \<Rightarrow> string \<times> string \<times> 32 word \<Rightarrow> bool" where
  "attrs_match (p, i, n) (p', i', n') \<longleftrightarrow>
     p = p' \<and> (i = [] \<or> i' = [] \<or> i = i') \<and> (n = NO_PORT \<or> n' = NO_PORT \<or> n = n')"

lemma strncmp_eq_0_short_left:
  assumes "length (cstr xs) < n"
  shows "strncmp xs ys n = 0 \<longleftrightarrow> cstr xs = cstr ys"
proof -
  have "strncmp xs ys n = 0 \<longleftrightarrow> strncmp ys xs n = 0" by (auto simp: strncmp_eq_0)
  then show ?thesis using strncmp_eq_0_short [OF assms, of ys] by auto
qed

lemma first_char_NUL: "first_char s = NUL \<longleftrightarrow> cstr s = []"
  by (cases s) (simp_all add: first_char_def)

lemma matches_attributes_iff:
  assumes "wf_connection con"
  shows "matches_attributes con p i n \<longleftrightarrow> attrs_match (conn_abs con) (cstr p, cstr i, n)"
  using assms
  by (auto simp: matches_attributes_def conn_abs_def wf_connection_def strncmp_eq_0_short_left
      first_char_NUL)

text \<open>
  A well-formed connection matches the attributes of a socket exactly when the executables are
  equal and the ip and the port are equal or left open on one of the two sides; a NULL path or ip
  never matches.
\<close>

theorem connection_matches_iff:
  assumes "objs h a = Some con" "wf_connection con"
  shows "connection_matches_attributes h (Some a) (Some p) (Some i) n =
      Inr (attrs_match (conn_abs con) (cstr p, cstr i, n)) \<and>
    connection_matches_attributes h (Some a) None i' n = Inr False \<and>
    connection_matches_attributes h (Some a) p' None n = Inr False"
  using assms
  by (cases p') (simp_all add: connection_matches_attributes_def matches_attributes_iff)

theorem connection_matches_iff_witness:
  "connection_matches_attributes \<lparr>objs = [1 \<mapsto> blank_connection], next_addr = 2\<rparr> (Some 1)
     (Some []) (Some ''10.0.0.1'') 80 = Inr True"
proof -
  have "wf_connection blank_connection"
    by (simp add: wf_connection_def blank_connection_def MAX_ABSOLUTE_EXEC_PATH_def INET6_ADDRSTRLEN_def)
  then show ?thesis
    using connection_matches_iff [of "\<lparr>objs = [1 \<mapsto> blank_connection], next_addr = 2\<rparr>" 1 blank_connection
        "[]" "''10.0.0.1''" 80]
    by (simp add: conn_abs_def blank_connection_def)
qed

lemma attrs_match_refl: "attrs_match x x"
  by (cases x) simp

lemma attrs_match_sym: "attrs_match x y \<longleftrightarrow> attrs_match y x"
  by (cases x; cases y) auto

lemma connections_are_equal_iff:
  assumes "objs h a = Some con1" "wf_connection con1" "objs h b = Some con2"
  shows "connections_are_equal h (Some a) (Some b) = Inr (attrs_match (conn_abs con1) (conn_abs con2))"
  using assms
  by (cases con2)
    (simp add: connections_are_equal_def connection_matches_attributes_def matches_attributes_iff conn_abs_def)

end
