(* ===== verification/Proc_Buffer.thy ===== *)
theory Proc_Buffer imports Kernel_Base begin

text \<open>
  The text buffer behind /proc/netlog-config (netlog/src/proc_config.c): its state and the two
  functions that the whitelist calls back into. The handlers of the proc file itself are in
  Proc_Config, because they call the whitelist in turn.
\<close>

definition PROCFS_MAX_SIZE :: nat where "PROCFS_MAX_SIZE = 4096"

record proc_state = kernel_log +
  procfs_buffer :: "char list"
  procfs_buffer_size :: "64 word"
  netlog_config_proc_file :: bool

text \<open>The text that the conversion %s prints: the bytes up to the NUL, which has to be there.\<close>

definition printed_string :: "char list \<Rightarrow> string run" where
  "printed_string b = (if NUL \<in> set b then Inr (cstr b) else Inl Read_out_of_bounds)"

definition add_connection_string_to_proc_config ::
  "char list option \<Rightarrow> 'a proc_state_scheme \<Rightarrow> 'a proc_state_scheme run" where
  "add_connection_string_to_proc_config connection_string s =
     (case connection_string of
        None \<Rightarrow> Inr s
      | Some b \<Rightarrow>
          run_bind (printed_string b) (\<lambda>str.
          run_bind (snprintf_at (procfs_buffer s) (unat (procfs_buffer_size s))
                      (word_of_nat PROCFS_MAX_SIZE - procfs_buffer_size s) (str @ '',''))
            (\<lambda>(buf, n). Inr (s\<lparr>procfs_buffer := buf,
                               procfs_buffer_size := procfs_buffer_size s + word_of_nat n\<rparr>))))"

definition initialize_procfs_buffer :: "'a proc_state_scheme \<Rightarrow> 'a proc_state_scheme" where
  "initialize_procfs_buffer s =
     s\<lparr>procfs_buffer := replicate PROCFS_MAX_SIZE NUL, procfs_buffer_size := 0\<rparr>"

section \<open>The size of the text and the size of the buffer\<close>

text \<open>
  The buffer has its 4096 bytes; the counter can run past them (snprintf returns the length the
  text would have had), but stays far below the range of an int.
\<close>

definition proc_inv :: "'a proc_state_scheme \<Rightarrow> bool" where
  "proc_inv s \<longleftrightarrow> length (procfs_buffer s) = PROCFS_MAX_SIZE \<and> unat (procfs_buffer_size s) < 2 ^ 31"

text \<open>The buffer holds exactly the text t.\<close>

definition config_text :: "'a proc_state_scheme \<Rightarrow> string \<Rightarrow> bool" where
  "config_text s t \<longleftrightarrow>
     length (procfs_buffer s) = PROCFS_MAX_SIZE \<and> length t < PROCFS_MAX_SIZE \<and> NUL \<notin> set t \<and>
     procfs_buffer_size s = word_of_nat (length t) \<and>
     take (length t) (procfs_buffer s) = t \<and> procfs_buffer s ! length t = NUL"

lemma initialize_procfs_buffer_inv [simp]: "proc_inv (initialize_procfs_buffer s)"
  by (simp add: proc_inv_def initialize_procfs_buffer_def)

lemma initialize_procfs_buffer_text: "config_text (initialize_procfs_buffer s) []"
  by (simp add: config_text_def initialize_procfs_buffer_def PROCFS_MAX_SIZE_def)

lemma unat_word_of_nat_small: "n < 2 ^ 64 \<Longrightarrow> unat (word_of_nat n :: 64 word) = n"
  by (simp add: unat_of_nat take_bit_nat_eq_self)

lemma sint_ucast_small:
  assumes "n < 2 ^ 31"
  shows "0 \<le> sint (ucast (word_of_nat n :: 64 word) :: 32 word)"
proof -
  have "ucast (word_of_nat n :: 64 word) = (word_of_nat n :: 32 word)"
    by (rule bit_word_eqI) (simp add: bit_simps)
  moreover have "signed_take_bit 31 (int n) = int n"
    using assms by (intro signed_take_bit_int_eq_self) auto
  ultimately show ?thesis by (simp add: signed_of_nat)
qed

lemma remaining_room:
  assumes "unat (z :: 64 word) \<le> PROCFS_MAX_SIZE"
  shows "word_of_nat PROCFS_MAX_SIZE - z = word_of_nat (PROCFS_MAX_SIZE - unat z)"
  using assms by (simp add: of_nat_diff)

text \<open>Past its end the buffer refuses further text: the size left is negative as an int.\<close>

lemma no_room:
  assumes "PROCFS_MAX_SIZE < unat (z :: 64 word)" "unat z < 2 ^ 31"
  shows "sint (ucast (word_of_nat PROCFS_MAX_SIZE - z) :: 32 word) < 0"
proof -
  define k where "k = unat z - PROCFS_MAX_SIZE"
  have k: "0 < k" "k < 2 ^ 31" using assms by (auto simp: k_def)
  have z: "z = word_of_nat (PROCFS_MAX_SIZE + k)"
    using assms by (simp add: k_def)
  have "ucast (word_of_nat PROCFS_MAX_SIZE - z :: 64 word) = (word_of_int (- int k) :: 32 word)"
  proof -
    have "word_of_nat PROCFS_MAX_SIZE - z = (word_of_int (- int k) :: 64 word)"
      by (simp add: z)
    moreover have "ucast (word_of_int (- int k) :: 64 word) = (word_of_int (- int k) :: 32 word)"
      by (rule bit_word_eqI) (simp add: bit_simps del: of_int_minus)
    ultimately show ?thesis by simp
  qed
  moreover have "signed_take_bit 31 (- int k) = - int k"
    using k by (intro signed_take_bit_int_eq_self) auto
  moreover have "sint (word_of_int (- int k) :: 32 word) = signed_take_bit 31 (- int k)"
    by (simp add: signed_of_int del: of_int_minus)
  ultimately show ?thesis using k by (simp del: of_int_minus)
qed

text \<open>Appending an entry that fits, with its comma and the closing NUL.\<close>

lemma add_connection_string_fits:
  assumes t: "config_text s t" and str: "NUL \<in> set b"
    and fits: "length t + length (cstr b) + 1 < PROCFS_MAX_SIZE"
  obtains s' where "add_connection_string_to_proc_config (Some b) s = Inr s'"
    "config_text s' (t @ cstr b @ '','')"
    "s' = s\<lparr>procfs_buffer := procfs_buffer s', procfs_buffer_size := procfs_buffer_size s'\<rparr>"
proof -
  define e where "e = cstr b @ '',''"
  define buf where "buf = t @ e @ NUL # drop (length t + length e + 1) (procfs_buffer s)"
  from t have len: "length (procfs_buffer s) = PROCFS_MAX_SIZE" and z: "unat (procfs_buffer_size s) = length t"
    by (auto simp: config_text_def PROCFS_MAX_SIZE_def unat_word_of_nat_small)
  define room where "room = PROCFS_MAX_SIZE - length t"
  have room: "length e < room" "room \<le> PROCFS_MAX_SIZE"
    using fits by (auto simp: room_def e_def)
  have rem: "word_of_nat PROCFS_MAX_SIZE - procfs_buffer_size s = word_of_nat room"
    using remaining_room [of "procfs_buffer_size s"] z fits by (simp add: room_def)
  have "\<not> sint (ucast (word_of_nat room :: 64 word) :: 32 word) < 0"
    using sint_ucast_small [of room] room(2) by (simp add: PROCFS_MAX_SIZE_def)
  moreover have unat_room: "unat (word_of_nat room :: 64 word) = room"
    using room(2) by (simp add: unat_word_of_nat_small PROCFS_MAX_SIZE_def)
  moreover have "(word_of_nat room :: 64 word) \<noteq> 0"
    using unat_room room(1) by (metis gr_implies_not0 unsigned_0)
  moreover have "take (length t) (procfs_buffer s) = t"
    using t by (simp add: config_text_def)
  moreover have "length t + (length e + 1) \<le> length (procfs_buffer s)"
    using room(1) len by (simp add: room_def)
  ultimately have "snprintf_at (procfs_buffer s) (length t) (word_of_nat room) e = Inr (buf, length e)"
    using room(1) by (simp add: snprintf_at_def blit_def buf_def)
  then have run: "add_connection_string_to_proc_config (Some b) s =
      Inr (s\<lparr>procfs_buffer := buf, procfs_buffer_size := procfs_buffer_size s + word_of_nat (length e)\<rparr>)"
    using str
    by (simp add: add_connection_string_to_proc_config_def printed_string_def z rem e_def)
  show thesis
  proof (rule that [OF run])
    show "config_text (s\<lparr>procfs_buffer := buf,
        procfs_buffer_size := procfs_buffer_size s + word_of_nat (length e)\<rparr>) (t @ cstr b @ '','')"
      using t fits len by (auto simp: config_text_def buf_def e_def nth_append)
  qed simp
qed

text \<open>Whatever the counter is, the buffer is never written past its end.\<close>

lemma add_connection_string_safe:
  assumes inv: "proc_inv s" and str: "NUL \<in> set b" "length b < 2 ^ 30"
  obtains s' where "add_connection_string_to_proc_config (Some b) s = Inr s'"
    "procfs_buffer_size s' = procfs_buffer_size s +
       (if unat (procfs_buffer_size s) \<le> PROCFS_MAX_SIZE then word_of_nat (length (cstr b) + 1) else 0)"
    "proc_inv s'"
    "s' = s\<lparr>procfs_buffer := procfs_buffer s', procfs_buffer_size := procfs_buffer_size s'\<rparr>"
proof -
  define e where "e = cstr b @ '',''"
  define z where "z = procfs_buffer_size s"
  from inv have len: "length (procfs_buffer s) = PROCFS_MAX_SIZE" and small: "unat z < 2 ^ 31"
    by (auto simp: proc_inv_def z_def)
  have run: "add_connection_string_to_proc_config (Some b) s =
      run_bind (snprintf_at (procfs_buffer s) (unat z) (word_of_nat PROCFS_MAX_SIZE - z) e)
        (\<lambda>(buf, n). Inr (s\<lparr>procfs_buffer := buf, procfs_buffer_size := z + word_of_nat n\<rparr>))"
    using str by (simp add: add_connection_string_to_proc_config_def printed_string_def z_def e_def)
  show thesis
  proof (cases "unat z \<le> PROCFS_MAX_SIZE")
    case False
    then have "snprintf_at (procfs_buffer s) (unat z) (word_of_nat PROCFS_MAX_SIZE - z) e =
        Inr (procfs_buffer s, 0)"
      using no_room [of z] small by (simp add: snprintf_at_def)
    with False inv run show thesis by (intro that) (auto simp: z_def proc_inv_def)
  next
    case True
    define room where "room = PROCFS_MAX_SIZE - unat z"
    have rem: "word_of_nat PROCFS_MAX_SIZE - z = word_of_nat room"
      using remaining_room [OF True] by (simp add: room_def)
    have room_less: "room < 2 ^ 31" by (simp add: room_def PROCFS_MAX_SIZE_def)
    then have unat_room: "unat (word_of_nat room :: 64 word) = room"
      by (simp add: unat_word_of_nat_small)
    have zero: "(word_of_nat room :: 64 word) = 0 \<longleftrightarrow> room = 0"
      using unat_room by (metis unat_0_iff)
    have sum: "unat z + room = PROCFS_MAX_SIZE"
      using True by (simp add: room_def)
    have "\<not> sint (ucast (word_of_nat room :: 64 word) :: 32 word) < 0"
      using sint_ucast_small [of room] room_less by simp
    then have "\<exists>buf. snprintf_at (procfs_buffer s) (unat z) (word_of_nat room) e = Inr (buf, length e) \<and>
        length buf = PROCFS_MAX_SIZE"
      using len unat_room zero sum
      by (auto simp: snprintf_at_def blit_def)
    then obtain buf where buf: "snprintf_at (procfs_buffer s) (unat z) (word_of_nat room) e = Inr (buf, length e)"
      "length buf = PROCFS_MAX_SIZE" by auto
    have "length e \<le> 2 ^ 30" using str(2) cstr_length [of b] by (simp add: e_def)
    then have "unat (z + word_of_nat (length e)) < 2 ^ 31"
      using True by (simp add: unat_word_ariths unat_word_of_nat_small PROCFS_MAX_SIZE_def)
    with True buf run rem show thesis
      by (intro that) (auto simp: z_def proc_inv_def e_def)
  qed
qed

end
