(* ===== verification/Whitelist.thy ===== *)
theory Whitelist imports Connection Proc_Buffer begin

text \<open>
  The whitelist of netlog (netlog/src/whitelist.c): the array of the connections to ignore, its
  operations, the path of a task's executable, and the abstract store of rules they implement. The
  interface that the users of the whitelist rely on (the module parameters in probes.c and the
  proc file in proc_config.c) is the locale rule_store, interpreted here on the code's model.
\<close>

definition MAX_WHITELIST_SIZE :: nat where "MAX_WHITELIST_SIZE = 150"
definition WHITELIST_FAIL :: int where "WHITELIST_FAIL = - 1"
definition WHITELISTED :: int where "WHITELISTED = 1"
definition NOT_WHITELISTED :: int where "NOT_WHITELISTED = 0"

text \<open>The globals: the objects kmalloc gave out, the number of entries, and the array of pointers.\<close>

record wl_state = proc_state +
  conns :: conn_heap
  wl_size :: nat
  white_list :: "nat option list"

text \<open>The loop \<^verbatim>\<open>for(i = 0; i < size; ++i) if(f(white_list[i])) goto found\<close>.\<close>

primrec some_entry :: "(nat option \<Rightarrow> bool run) \<Rightarrow> nat option list \<Rightarrow> bool run" where
  "some_entry f [] = Inr False"
| "some_entry f (c # cs) = run_bind (f c) (\<lambda>found. if found then Inr True else some_entry f cs)"

definition live_entries :: "'a wl_state_scheme \<Rightarrow> nat option list" where
  "live_entries s = take (wl_size s) (white_list s)"

definition whitelist :: "bool \<Rightarrow> char list option \<Rightarrow> 'a wl_state_scheme \<Rightarrow> (int \<times> 'a wl_state_scheme) run" where
  "whitelist kmalloc_ok connection_string s =
     (if wl_size s = MAX_WHITELIST_SIZE then Inr (WHITELIST_FAIL, s)
      else
        run_bind (initialize_connection_from_string kmalloc_ok connection_string (conns s))
          (\<lambda>(connection_to_whitelist, h).
          (let s = s\<lparr>conns := h\<rparr> in
           if connection_to_whitelist = None then Inr (WHITELIST_FAIL, s)
           else
             run_bind (some_entry (connections_are_equal h connection_to_whitelist) (live_entries s))
               (\<lambda>already.
               if already then Inr (WHITELIST_FAIL, s)
               else if \<not> wl_size s < length (white_list s) then Inl Write_out_of_bounds
               else
                 run_bind (add_connection_string_to_proc_config connection_string
                             (s\<lparr>white_list := (white_list s)[wl_size s := connection_to_whitelist],
                                wl_size := Suc (wl_size s)\<rparr>))
                   (\<lambda>s. Inr (WHITELISTED, s))))))"

primrec destroy_entries :: "nat option list \<Rightarrow> conn_heap \<Rightarrow> conn_heap run" where
  "destroy_entries [] h = Inr h"
| "destroy_entries (c # cs) h = run_bind (destroy_connection c h) (destroy_entries cs)"

definition destroy_whitelist :: "'a wl_state_scheme \<Rightarrow> 'a wl_state_scheme run" where
  "destroy_whitelist s =
     run_bind (destroy_entries (live_entries s) (conns s))
       (\<lambda>h. Inr (s\<lparr>conns := h, wl_size := 0\<rparr>))"

section \<open>The executable of a task\<close>

text \<open>
  The memory map of a task is the list of its areas; d_path is the kernel's function, which gives
  the path of a file if it fits the buffer of the given length, and an error otherwise.
\<close>

record vma =
  vm_executable :: bool
  vm_file :: "nat option"

record task_struct =
  pid :: nat
  comm :: string
  mm :: "vma list option"
  uid :: int

primrec find_executable_vma :: "vma list \<Rightarrow> vma list" where
  "find_executable_vma [] = []"
| "find_executable_vma (v # vs) =
     (if vm_executable v \<and> vm_file v \<noteq> None then v # vs else find_executable_vma vs)"

definition exe_from_mm :: "(nat \<Rightarrow> nat \<Rightarrow> string option) \<Rightarrow> vma list option \<Rightarrow> nat \<Rightarrow> string option" where
  "exe_from_mm d_path m len =
     (case m of
        None \<Rightarrow> None
      | Some vmas \<Rightarrow>
          (case find_executable_vma vmas of
             [] \<Rightarrow> None
           | v # _ \<Rightarrow> (case vm_file v of None \<Rightarrow> None | Some f \<Rightarrow> d_path f len)))"

definition strnlen :: "char list \<Rightarrow> nat \<Rightarrow> nat" where
  "strnlen s n = min (length (cstr s)) n"

definition is_whitelisted ::
  "(nat \<Rightarrow> nat \<Rightarrow> string option) \<Rightarrow> task_struct option \<Rightarrow> string option \<Rightarrow> 32 word \<Rightarrow>
   'a wl_state_scheme \<Rightarrow> int run" where
  "is_whitelisted d_path task ip' port' s =
     (case task of
        None \<Rightarrow> Inr NOT_WHITELISTED
      | Some t \<Rightarrow>
          if mm t = None then Inr NOT_WHITELISTED
          else
            (case exe_from_mm d_path (mm t) MAX_ABSOLUTE_EXEC_PATH of
               None \<Rightarrow> Inr NOT_WHITELISTED
             | Some path \<Rightarrow>
                 (let path_length = strnlen path MAX_ABSOLUTE_EXEC_PATH in
                  if path_length = 0 \<or> path_length = MAX_ABSOLUTE_EXEC_PATH then Inr NOT_WHITELISTED
                  else
                    run_bind (some_entry (\<lambda>c. connection_matches_attributes (conns s) c (Some path) ip' port')
                                (live_entries s))
                      (\<lambda>found. Inr (if found then WHITELISTED else NOT_WHITELISTED)))))"

section \<open>The rules the array stands for\<close>

type_synonym rule = "string \<times> string \<times> 32 word"

definition entries :: "'a wl_state_scheme \<Rightarrow> rule list" where
  "entries s = map (\<lambda>c. conn_abs (the (objs (conns s) (the c)))) (live_entries s)"

definition wl_inv :: "'a wl_state_scheme \<Rightarrow> bool" where
  "wl_inv s \<longleftrightarrow>
     length (white_list s) = MAX_WHITELIST_SIZE \<and> wl_size s \<le> MAX_WHITELIST_SIZE \<and>
     heap_wf (conns s) \<and> distinct (live_entries s) \<and>
     (\<forall>c \<in> set (live_entries s). \<exists>a con. c = Some a \<and> objs (conns s) a = Some con \<and> wf_connection con)"

text \<open>The objects that only a leak can explain: allocated, but not in the array.\<close>

definition leaked :: "'a wl_state_scheme \<Rightarrow> nat set" where
  "leaked s = dom (objs (conns s)) - the ` set (live_entries s)"

text \<open>What adding a rule means: a full or a malformed or a matching rule changes nothing.\<close>

definition add_rule :: "string \<Rightarrow> rule list \<Rightarrow> int \<times> rule list" where
  "add_rule t rs =
     (if length rs = MAX_WHITELIST_SIZE then (WHITELIST_FAIL, rs)
      else case parse_text t of
             None \<Rightarrow> (WHITELIST_FAIL, rs)
           | Some r \<Rightarrow>
               if list_ex (attrs_match r) rs then (WHITELIST_FAIL, rs)
               else (WHITELISTED, rs @ [r]))"

lemmas wl_codes = WHITELIST_FAIL_def WHITELISTED_def NOT_WHITELISTED_def

lemma some_entry_spec:
  "(\<And>c. c \<in> set cs \<Longrightarrow> f c = Inr (P c)) \<Longrightarrow> some_entry f cs = Inr (list_ex P cs)"
  by (induction cs) auto

lemma length_live_entries: "wl_inv s \<Longrightarrow> length (live_entries s) = wl_size s"
  by (simp add: wl_inv_def live_entries_def)

lemma length_entries: "wl_inv s \<Longrightarrow> length (entries s) = wl_size s"
  by (simp add: entries_def length_live_entries)

lemma entries_bound: "wl_inv s \<Longrightarrow> length (entries s) \<le> MAX_WHITELIST_SIZE"
  by (simp add: length_entries) (simp add: wl_inv_def)

lemma wl_inv_live:
  assumes "wl_inv s" "c \<in> set (live_entries s)"
  obtains a con where "c = Some a" "objs (conns s) a = Some con" "wf_connection con" "a < next_addr (conns s)"
proof -
  from assms obtain a con where c: "c = Some a" "objs (conns s) a = Some con" "wf_connection con"
    by (auto simp: wl_inv_def)
  moreover have "a < next_addr (conns s)"
    using assms(1) c(2) by (auto simp: wl_inv_def heap_wf_def not_le [symmetric])
  ultimately show thesis by (rule that)
qed

lemma live_entries_conns [simp]: "live_entries (s\<lparr>conns := h\<rparr>) = live_entries s"
  by (simp add: live_entries_def)

lemma live_entries_proc [simp]:
  "live_entries (s\<lparr>procfs_buffer := b, procfs_buffer_size := n\<rparr>) = live_entries s"
  by (simp add: live_entries_def)

lemma live_entries_add:
  "wl_size s < length (white_list s) \<Longrightarrow>
   live_entries (s\<lparr>conns := h, white_list := (white_list s)[wl_size s := c], wl_size := Suc (wl_size s)\<rparr>) =
   live_entries s @ [c]"
  by (simp add: live_entries_def take_Suc_conv_app_nth)

lemma wl_inv_proc [simp]:
  "wl_inv (s\<lparr>procfs_buffer := b, procfs_buffer_size := n\<rparr>) = wl_inv s"
  by (simp add: wl_inv_def)

lemma entries_proc [simp]:
  "entries (s\<lparr>procfs_buffer := b, procfs_buffer_size := n\<rparr>) = entries s"
  by (simp add: entries_def)

lemma leaked_proc [simp]:
  "leaked (s\<lparr>procfs_buffer := b, procfs_buffer_size := n\<rparr>) = leaked s"
  by (simp add: leaked_def)

text \<open>A fresh object leaves the objects of the array as they are.\<close>

lemma wl_inv_bump:
  assumes "wl_inv s"
  shows "wl_inv (s\<lparr>conns := bump (conns s)\<rparr>)" "entries (s\<lparr>conns := bump (conns s)\<rparr>) = entries s"
    "leaked (s\<lparr>conns := bump (conns s)\<rparr>) = leaked s"
  using assms by (simp_all add: wl_inv_def heap_wf_bump entries_def leaked_def) (simp_all add: bump_def)

lemma objs_add_obj: "a < next_addr h \<Longrightarrow> objs (add_obj con h) a = objs h a"
  by (simp add: add_obj_def)

lemma objs_add_obj_new: "objs (add_obj con h) (next_addr h) = Some con"
  by (simp add: add_obj_def)

lemma live_not_fresh:
  assumes "wl_inv s" "c \<in> set (live_entries s)"
  shows "objs (add_obj con (conns s)) (the c) = objs (conns s) (the c)"
  by (rule wl_inv_live [OF assms]) (simp add: objs_add_obj)

lemma entries_add_obj:
  assumes "wl_inv s"
  shows "map (\<lambda>c. conn_abs (the (objs (add_obj con (conns s)) (the c)))) (live_entries s) = entries s"
  using assms by (simp add: entries_def live_not_fresh)

lemma fresh_not_live:
  assumes "wl_inv s"
  shows "Some (next_addr (conns s)) \<notin> set (live_entries s)"
  using assms by (auto elim: wl_inv_live)

lemma wl_inv_leak:
  assumes "wl_inv s"
  shows "wl_inv (s\<lparr>conns := add_obj con (conns s)\<rparr>)"
    "entries (s\<lparr>conns := add_obj con (conns s)\<rparr>) = entries s"
    "leaked (s\<lparr>conns := add_obj con (conns s)\<rparr>) = insert (next_addr (conns s)) (leaked s)"
proof -
  have "\<exists>a con'. c = Some a \<and> objs (add_obj con (conns s)) a = Some con' \<and> wf_connection con'"
    if "c \<in> set (live_entries s)" for c
    by (rule wl_inv_live [OF assms that]) (simp add: objs_add_obj)
  then show "wl_inv (s\<lparr>conns := add_obj con (conns s)\<rparr>)"
    using assms by (simp add: wl_inv_def heap_wf_add_obj)
  show "entries (s\<lparr>conns := add_obj con (conns s)\<rparr>) = entries s"
    using entries_add_obj [OF assms] by (simp add: entries_def)
  have "next_addr (conns s) \<notin> the ` set (live_entries s)"
    using assms by (auto elim!: wl_inv_live)
  moreover have "dom (objs (add_obj con (conns s))) = insert (next_addr (conns s)) (dom (objs (conns s)))"
    by (simp add: add_obj_def)
  ultimately show "leaked (s\<lparr>conns := add_obj con (conns s)\<rparr>) = insert (next_addr (conns s)) (leaked s)"
    by (auto simp: leaked_def)
qed

text \<open>Storing the fresh object in the array.\<close>

definition push_entry :: "connection \<Rightarrow> 'a wl_state_scheme \<Rightarrow> 'a wl_state_scheme" where
  "push_entry con s =
     s\<lparr>conns := add_obj con (conns s),
       white_list := (white_list s)[wl_size s := Some (next_addr (conns s))],
       wl_size := Suc (wl_size s)\<rparr>"

lemma wl_inv_push:
  assumes inv: "wl_inv s" and room: "wl_size s < MAX_WHITELIST_SIZE" and con: "wf_connection con"
  shows "wl_inv (push_entry con s)" "entries (push_entry con s) = entries s @ [conn_abs con]"
    "leaked (push_entry con s) = leaked s"
proof -
  have live: "live_entries (push_entry con s) = live_entries s @ [Some (next_addr (conns s))]"
    unfolding push_entry_def by (rule live_entries_add) (use inv room in \<open>simp add: wl_inv_def\<close>)
  have conns: "conns (push_entry con s) = add_obj con (conns s)"
    by (simp add: push_entry_def)
  have "\<exists>a con'. c = Some a \<and> objs (add_obj con (conns s)) a = Some con' \<and> wf_connection con'"
    if "c \<in> set (live_entries (push_entry con s))" for c
    using inv that con unfolding live
    by (auto simp: objs_add_obj_new elim!: wl_inv_live) (metis objs_add_obj)
  moreover have "distinct (live_entries (push_entry con s))"
    using inv fresh_not_live [OF inv] by (simp add: live wl_inv_def)
  moreover have "length (white_list (push_entry con s)) = MAX_WHITELIST_SIZE"
    "wl_size (push_entry con s) \<le> MAX_WHITELIST_SIZE"
    using inv room by (simp_all add: push_entry_def wl_inv_def)
  ultimately show "wl_inv (push_entry con s)"
    using inv by (simp add: wl_inv_def conns heap_wf_add_obj)
  show "entries (push_entry con s) = entries s @ [conn_abs con]"
    unfolding entries_def [of "push_entry con s"] live conns map_append entries_add_obj [OF inv]
    by (simp add: objs_add_obj_new)
  have "dom (objs (add_obj con (conns s))) = insert (next_addr (conns s)) (dom (objs (conns s)))"
    by (simp add: add_obj_def)
  moreover have "next_addr (conns s) \<notin> dom (objs (conns s))"
    using inv by (simp add: wl_inv_def heap_wf_def domIff)
  ultimately show "leaked (push_entry con s) = leaked s"
    by (auto simp: leaked_def live conns)
qed

section \<open>The operations on the rules\<close>

lemma duplicate_test:
  assumes "wl_inv s" "wf_connection con"
  shows "some_entry (connections_are_equal (add_obj con (conns s)) (Some (next_addr (conns s)))) (live_entries s) =
    Inr (list_ex (attrs_match (conn_abs con)) (entries s))"
proof -
  have "some_entry (connections_are_equal (add_obj con (conns s)) (Some (next_addr (conns s)))) (live_entries s) =
      Inr (list_ex (\<lambda>c. attrs_match (conn_abs con) (conn_abs (the (objs (conns s) (the c))))) (live_entries s))"
  proof (rule some_entry_spec)
    fix c assume "c \<in> set (live_entries s)"
    then obtain a con' where c: "c = Some a" "objs (conns s) a = Some con'" "a < next_addr (conns s)"
      using assms(1) by (elim wl_inv_live)
    then show "connections_are_equal (add_obj con (conns s)) (Some (next_addr (conns s))) c =
        Inr (attrs_match (conn_abs con) (conn_abs (the (objs (conns s) (the c)))))"
      using assms(2) by (simp add: connections_are_equal_iff objs_add_obj objs_add_obj_new)
  qed
  then show ?thesis by (simp add: entries_def list_ex_iff)
qed

text \<open>The four ways through whitelist, on a well-terminated string.\<close>

lemma whitelist_cases:
  assumes inv: "wl_inv s" and t: "c_string b 0 t" "\<not> ip_unterminated t"
  obtains
    (full) "wl_size s = MAX_WHITELIST_SIZE" "whitelist True (Some b) s = Inr (WHITELIST_FAIL, s)"
  | (refused) "wl_size s < MAX_WHITELIST_SIZE" "parse_text t = None"
      "whitelist True (Some b) s = Inr (WHITELIST_FAIL, s\<lparr>conns := bump (conns s)\<rparr>)"
  | (duplicate) con where "wl_size s < MAX_WHITELIST_SIZE" "parse_text t = Some (conn_abs con)"
      "wf_connection con" "list_ex (attrs_match (conn_abs con)) (entries s)"
      "whitelist True (Some b) s = Inr (WHITELIST_FAIL, s\<lparr>conns := add_obj con (conns s)\<rparr>)"
  | (added) con where "wl_size s < MAX_WHITELIST_SIZE" "parse_text t = Some (conn_abs con)"
      "wf_connection con" "\<not> list_ex (attrs_match (conn_abs con)) (entries s)"
      "whitelist True (Some b) s =
         run_bind (add_connection_string_to_proc_config (Some b) (push_entry con s))
           (\<lambda>s. Inr (WHITELISTED, s))"
proof (cases "wl_size s = MAX_WHITELIST_SIZE")
  case True
  then show thesis by (intro full) (simp_all add: whitelist_def)
next
  case False
  with inv have room: "wl_size s < MAX_WHITELIST_SIZE" and len: "length (white_list s) = MAX_WHITELIST_SIZE"
    and heap: "heap_wf (conns s)"
    by (auto simp: wl_inv_def)
  note parse = initialize_connection_from_string_run [OF heap]
  show thesis
  proof (cases "parse_text t")
    case None
    then have "parse_fields b blank_connection = Inr None"
      using parse_fields_refines [OF t] by simp
    with None room show thesis by (intro refused) (simp_all add: whitelist_def parse)
  next
    case (Some r)
    then obtain con where con: "parse_fields b blank_connection = Inr (Some con)" "conn_abs con = r"
      "wf_connection con"
      using parse_fields_refines [OF t] by auto
    note run = whitelist_def parse con(1) duplicate_test [OF inv con(3)]
    show thesis
    proof (cases "list_ex (attrs_match (conn_abs con)) (entries s)")
      case True
      with con Some room show thesis by (intro duplicate) (simp_all add: run)
    next
      case False
      with con Some room len show thesis
        by (intro added [of con]) (simp_all add: run push_entry_def)
    qed
  qed
qed

text \<open>The invariants of the whitelist and of the proc buffer it writes to.\<close>

definition store_inv :: "'a wl_state_scheme \<Rightarrow> bool" where
  "store_inv s \<longleftrightarrow> wl_inv s \<and> proc_inv s"

lemma proc_inv_conns [simp]: "proc_inv (s\<lparr>conns := h\<rparr>) = proc_inv s"
  by (simp add: proc_inv_def)

lemma proc_inv_push [simp]: "proc_inv (push_entry con s) = proc_inv s"
  by (simp add: proc_inv_def push_entry_def)

lemma c_string_NUL: "c_string b p t \<Longrightarrow> NUL \<in> set b"
  by (auto simp: c_string_def)

lemma c_string_cstr: "c_string b 0 t \<Longrightarrow> cstr b = t"
  by (auto simp: c_string_def cstr_append)

lemma whitelist_refines:
  assumes inv: "store_inv s" and t: "c_string b 0 t" "\<not> ip_unterminated t" and len: "length b < 2 ^ 30"
  shows "\<exists>v s'. whitelist True (Some b) s = Inr (v, s') \<and> store_inv s' \<and>
    (v, entries s') = add_rule t (entries s) \<and> klog s' = klog s"
proof -
  from inv have wl: "wl_inv s" and p: "proc_inv s" by (simp_all add: store_inv_def)
  have n: "length (entries s) = wl_size s" by (rule length_entries [OF wl])
  from wl t show ?thesis
  proof (cases rule: whitelist_cases)
    case full
    with inv n show ?thesis by (simp add: add_rule_def)
  next
    case refused
    with p n wl_inv_bump [OF wl] show ?thesis by (simp add: add_rule_def store_inv_def)
  next
    case (duplicate con)
    with p n wl_inv_leak [OF wl, of con] show ?thesis by (simp add: add_rule_def store_inv_def)
  next
    case (added con)
    note push = wl_inv_push [OF wl added(1,3)]
    from p have "proc_inv (push_entry con s)" by simp
    then obtain s' where s': "add_connection_string_to_proc_config (Some b) (push_entry con s) = Inr s'"
      "proc_inv s'"
      "s' = (push_entry con s)\<lparr>procfs_buffer := procfs_buffer s', procfs_buffer_size := procfs_buffer_size s'\<rparr>"
      using c_string_NUL [OF t(1)] len by (rule add_connection_string_safe)
    have "wl_inv s'" "entries s' = entries s @ [conn_abs con]" "klog s' = klog s"
      by (subst s'(3), simp add: push, subst s'(3), simp add: push,
          subst s'(3), simp add: push_entry_def)
    with added n s' show ?thesis by (simp add: add_rule_def store_inv_def)
  qed
qed

section \<open>Clearing the whitelist\<close>

lemma destroy_entries_spec:
  assumes "distinct cs" "\<And>c. c \<in> set cs \<Longrightarrow> \<exists>a con. c = Some a \<and> objs h a = Some con"
  shows "destroy_entries cs h = Inr (h\<lparr>objs := objs h |` (- the ` set cs)\<rparr>)"
  using assms
proof (induction cs arbitrary: h)
  case Nil
  then show ?case by (simp add: Compl_eq_Diff_UNIV)
next
  case (Cons c cs)
  then obtain a where c: "c = Some a" "objs h a \<noteq> None" by force
  define h' where "h' = h\<lparr>objs := (objs h)(a := None)\<rparr>"
  have "\<exists>a con. d = Some a \<and> objs h' a = Some con" if "d \<in> set cs" for d
    using Cons.prems(2) [of d] Cons.prems(1) that c(1) by (auto simp: h'_def)
  then have "destroy_entries cs h' = Inr (h'\<lparr>objs := objs h' |` (- the ` set cs)\<rparr>)"
    using Cons.IH Cons.prems(1) by simp
  moreover have "objs h' |` (- the ` set cs) = objs h |` (- the ` set (c # cs))"
    by (rule ext) (auto simp: h'_def c(1) restrict_map_def)
  ultimately show ?case using c by (simp add: destroy_connection_def h'_def)
qed

lemma destroy_whitelist_run:
  assumes "wl_inv s"
  shows "destroy_whitelist s =
    Inr (s\<lparr>conns := (conns s)\<lparr>objs := objs (conns s) |` (- the ` set (live_entries s))\<rparr>, wl_size := 0\<rparr>)"
proof -
  have "destroy_entries (live_entries s) (conns s) =
      Inr ((conns s)\<lparr>objs := objs (conns s) |` (- the ` set (live_entries s))\<rparr>)"
    using assms by (intro destroy_entries_spec) (auto simp: wl_inv_def)
  then show ?thesis by (simp add: destroy_whitelist_def)
qed

lemma destroy_whitelist_refines:
  assumes "store_inv s"
  shows "\<exists>s'. destroy_whitelist s = Inr s' \<and> store_inv s' \<and> entries s' = [] \<and>
    leaked s' = leaked s \<and> dom (objs (conns s')) = leaked s \<and> klog s' = klog s \<and>
    procfs_buffer s' = procfs_buffer s \<and> procfs_buffer_size s' = procfs_buffer_size s"
  using assms
  by (auto simp: store_inv_def destroy_whitelist_run)
    (auto simp: wl_inv_def proc_inv_def live_entries_def entries_def leaked_def heap_wf_def
      restrict_map_def split: if_splits)

section \<open>The interface of the rule store\<close>

text \<open>
  What netlog's module parameters and its proc file rely on: a store of rules whose add and clear
  operations refine add_rule and the empty list. A rule text the parser reads past is outside of
  the contract.
\<close>

definition rule_bytes :: "char list \<Rightarrow> string \<Rightarrow> bool" where
  "rule_bytes b t \<longleftrightarrow> c_string b 0 t \<and> \<not> ip_unterminated t \<and> length b < 2 ^ 30"

locale rule_store =
  fixes add :: "char list \<Rightarrow> 's \<Rightarrow> (int \<times> 's) run"
    and clear :: "'s \<Rightarrow> 's run"
    and rules :: "'s \<Rightarrow> rule list"
    and good :: "'s \<Rightarrow> bool"
  assumes add_refines: "good s \<Longrightarrow> rule_bytes b t \<Longrightarrow>
      \<exists>v s'. add b s = Inr (v, s') \<and> good s' \<and> (v, rules s') = add_rule t (rules s)"
    and clear_refines: "good s \<Longrightarrow> \<exists>s'. clear s = Inr s' \<and> good s' \<and> rules s' = []"
    and rules_bound: "good s \<Longrightarrow> length (rules s) \<le> MAX_WHITELIST_SIZE"
begin

lemma add_outcome:
  assumes "good s" "rule_bytes b t"
  shows "\<exists>v s'. add b s = Inr (v, s') \<and> good s' \<and>
    (v = WHITELISTED \<and> (\<exists>r. parse_text t = Some r \<and> rules s' = rules s @ [r]) \<or>
     v = WHITELIST_FAIL \<and> rules s' = rules s)"
  using add_refines [OF assms]
  by (auto simp: add_rule_def wl_codes split: if_splits option.splits)

lemma add_preserves_incompatible:
  assumes "good s" "rule_bytes b t" "add b s = Inr (v, s')"
    and "sorted_wrt (\<lambda>x y. \<not> attrs_match x y) (rules s)"
  shows "sorted_wrt (\<lambda>x y. \<not> attrs_match x y) (rules s')"
  using add_refines [OF assms(1,2)] assms(3,4)
  by (auto simp: add_rule_def wl_codes sorted_wrt_append list_ex_iff attrs_match_sym
      split: if_splits option.splits)

end

text \<open>Adding a list of rules one by one, whatever becomes of each.\<close>

primrec add_all :: "(char list \<Rightarrow> 's \<Rightarrow> (int \<times> 's) run) \<Rightarrow> char list list \<Rightarrow> 's \<Rightarrow> (int list \<times> 's) run" where
  "add_all add [] s = Inr ([], s)"
| "add_all add (b # bs) s =
     run_bind (add b s) (\<lambda>(v, s). run_bind (add_all add bs s) (\<lambda>(vs, s). Inr (v # vs, s)))"

primrec add_rules :: "string list \<Rightarrow> rule list \<Rightarrow> int list \<times> rule list" where
  "add_rules [] rs = ([], rs)"
| "add_rules (t # ts) rs =
     (let (v, rs) = add_rule t rs; (vs, rs) = add_rules ts rs in (v # vs, rs))"

context rule_store
begin

lemma add_all_refines:
  assumes "list_all2 rule_bytes bs ts" "good s"
  shows "\<exists>vs s'. add_all add bs s = Inr (vs, s') \<and> good s' \<and> (vs, rules s') = add_rules ts (rules s)"
  using assms
proof (induction bs ts arbitrary: s rule: list_all2_induct)
  case Nil
  then show ?case by simp
next
  case (Cons b bs t ts)
  obtain v s1 where 1: "add b s = Inr (v, s1)" "good s1" "add_rule t (rules s) = (v, rules s1)"
    using add_refines [OF Cons.prems Cons.hyps(1)] by auto
  obtain vs s2 where "add_all add bs s1 = Inr (vs, s2)" "good s2" "add_rules ts (rules s1) = (vs, rules s2)"
    using Cons.IH [OF 1(2)] by auto
  with 1 show ?case by simp
qed

lemma clear_add_all_refines:
  assumes "list_all2 rule_bytes bs ts" "good s"
  shows "\<exists>vs s'. run_bind (clear s) (add_all add bs) = Inr (vs, s') \<and> good s' \<and>
    (vs, rules s') = add_rules ts []"
proof -
  obtain s1 where "clear s = Inr s1" "good s1" "rules s1 = []"
    using clear_refines [OF assms(2)] by auto
  then show ?thesis using add_all_refines [OF assms(1), of s1] by simp
qed

end

interpretation wl: rule_store "\<lambda>b. whitelist True (Some b)" destroy_whitelist entries store_inv
proof unfold_locales
  show "\<exists>v s'. whitelist True (Some b) s = Inr (v, s') \<and> store_inv s' \<and> (v, entries s') = add_rule t (entries s)"
    if "store_inv s" "rule_bytes b t" for s :: "'a wl_state_scheme" and b t
    using whitelist_refines [OF that(1), of b t] that(2) by (auto simp: rule_bytes_def)
  show "\<exists>s'. destroy_whitelist s = Inr s' \<and> store_inv s' \<and> entries s' = []"
    if "store_inv s" for s :: "'a wl_state_scheme"
    using destroy_whitelist_refines [OF that] by auto
  show "length (entries s) \<le> MAX_WHITELIST_SIZE" if "store_inv s" for s :: "'a wl_state_scheme"
    using that by (intro entries_bound) (simp add: store_inv_def)
qed

lemmas whitelist_add = wl.add_refines wl.add_outcome wl.add_all_refines wl.add_preserves_incompatible

section \<open>The properties of the whitelist\<close>

lemma whitelist_no_memory:
  "whitelist False (Some b) s = Inr (WHITELIST_FAIL, s)"
  by (simp add: whitelist_def initialize_connection_from_string_def initialize_connection_def destroy_connection_def)

text \<open>
  C3: Adding a rule refines the abstract rule store. Take any terminated rule text whose ip field is
  closed, in fewer than 2 to the 30 bytes; a field that the string's end cuts off is read past the
  end. Then whitelist runs into no fault and keeps the array, heap and proc buffer invariants. If there is
  memory for the rule it returns WHITELISTED with the parsed rule appended exactly when the list has
  room, the text is in the grammar and no entry matches the new rule, and WHITELIST_FAIL with the rules
  unchanged otherwise; without memory it returns WHITELIST_FAIL and changes nothing.
\<close>

theorem whitelist_implements_store:
  assumes "store_inv s" "rule_bytes b t"
  shows "\<exists>v s'. whitelist kmalloc_ok (Some b) s = Inr (v, s') \<and> store_inv s' \<and>
    (if kmalloc_ok then (v, entries s') = add_rule t (entries s) else v = WHITELIST_FAIL \<and> s' = s)"
proof (cases kmalloc_ok)
  case True
  then show ?thesis using wl.add_refines [OF assms] by auto
next
  case False
  then show ?thesis using whitelist_no_memory [of b s] assms(1) by simp
qed

text \<open>
  The type of a rule: a path below the limit without a separator, an ip text that passes the
  plausibility test, fits its array and holds no character that ends a field, and a port or none.
\<close>

fun rule_typed :: "rule \<Rightarrow> bool" where
  "rule_typed (p, i, n) \<longleftrightarrow>
     length p < MAX_ABSOLUTE_EXEC_PATH \<and> FIELD_SEPARATOR \<notin> set p \<and>
     length i < INET6_ADDRSTRLEN + 2 \<and> valid_ip_text i \<and> list_all (\<lambda>c. \<not> field_end c) i \<and>
     (n = NO_PORT \<or> valid_port_number n)"

text \<open>A store of rules of which none matches an earlier one.\<close>

definition rules_typed :: "rule list \<Rightarrow> bool" where
  "rules_typed rs \<longleftrightarrow> list_all rule_typed rs \<and> sorted_wrt (\<lambda>x y. \<not> attrs_match x y) rs \<and> length rs \<le> MAX_WHITELIST_SIZE"

lemma ip_of_field_typed:
  assumes "\<not> ip_too_long v"
  shows "length (ip_of_field v) < INET6_ADDRSTRLEN + 2" "list_all (\<lambda>c. \<not> field_end c) (ip_of_field v)"
proof -
  have "list_all (\<lambda>c. \<not> field_end c) (field_text v)"
    by (auto simp: field_text_def list_all_iff dest: set_takeWhileD)
  then show "list_all (\<lambda>c. \<not> field_end c) (ip_of_field v)"
    by (simp add: ip_of_field_def bracket_def) (simp add: field_end_def)
  show "length (ip_of_field v) < INET6_ADDRSTRLEN + 2"
    using assms by (auto simp: ip_too_long_def ip_of_field_def bracket_def split: if_splits)
qed

lemma text_ip_typed:
  "text_ip u = Some (a, w) \<Longrightarrow>
   length a < INET6_ADDRSTRLEN + 2 \<and> valid_ip_text a \<and> list_all (\<lambda>c. \<not> field_end c) a"
  using ip_of_field_typed by (auto simp: text_ip_def valid_ip_text_def split: list.splits if_splits)

lemma text_port_typed: "text_port u = Some n \<Longrightarrow> n = NO_PORT \<or> valid_port_number n"
  by (auto simp: text_port_def Let_def split: list.splits if_splits)

lemma parse_text_typed: "parse_text t = Some r \<Longrightarrow> rule_typed r"
proof -
  have "FIELD_SEPARATOR \<notin> set (text_path t)" by (auto simp: text_path_def dest: set_takeWhileD)
  then show "parse_text t = Some r \<Longrightarrow> rule_typed r"
    by (auto simp: parse_text_def not_le dest!: text_ip_typed text_port_typed split: if_splits option.splits)
qed

lemma rules_typed_Nil [simp]: "rules_typed []"
  by (simp add: rules_typed_def)

lemma add_rule_typed: "rules_typed rs \<Longrightarrow> rules_typed (snd (add_rule t rs))"
  by (auto simp: add_rule_def rules_typed_def sorted_wrt_append list_ex_iff attrs_match_sym
      simp del: rule_typed.simps dest: parse_text_typed split: option.splits)

lemma add_rules_typed: "rules_typed rs \<Longrightarrow> rules_typed (snd (add_rules ts rs))"
proof (induction ts arbitrary: rs)
  case (Cons t ts)
  from Cons.IH [OF add_rule_typed [OF Cons.prems, of t]] show ?case
    by (simp add: split_beta Let_def)
qed simp

definition empty_whitelist :: wl_state where
  "empty_whitelist =
     \<lparr>klog = [], procfs_buffer = replicate PROCFS_MAX_SIZE NUL, procfs_buffer_size = 0,
      netlog_config_proc_file = False, conns = \<lparr>objs = Map.empty, next_addr = 1\<rparr>, wl_size = 0,
      white_list = replicate MAX_WHITELIST_SIZE None\<rparr>"

lemma empty_whitelist_inv: "store_inv empty_whitelist" "entries empty_whitelist = []" "leaked empty_whitelist = {}"
  by (simp_all add: empty_whitelist_def store_inv_def wl_inv_def proc_inv_def live_entries_def
      heap_wf_def entries_def leaked_def)

lemma rule_bytesI: "NUL \<notin> set t \<Longrightarrow> \<not> ip_unterminated t \<Longrightarrow> length t < 2 ^ 30 - 1 \<Longrightarrow> rule_bytes (t @ [NUL]) t"
  by (auto simp: rule_bytes_def intro: c_stringI [of _ _ "[]" "[]"])

theorem whitelist_implements_store_witness:
  "\<exists>s'. whitelist True (Some (''/bin/a|p<22>'' @ [NUL])) empty_whitelist = Inr (WHITELISTED, s') \<and>
     entries s' = [(''/bin/a'', [], 22)]"
proof -
  have "\<not> ip_unterminated ''/bin/a|p<22>''" by code_simp
  then have b: "rule_bytes (''/bin/a|p<22>'' @ [NUL]) ''/bin/a|p<22>''"
    by (intro rule_bytesI) simp_all
  have "parse_text ''/bin/a|p<22>'' = Some (''/bin/a'', [], 22)" by code_simp
  then have "add_rule ''/bin/a|p<22>'' [] = (WHITELISTED, [(''/bin/a'', [], 22)])"
    by (simp add: add_rule_def MAX_WHITELIST_SIZE_def)
  with whitelist_implements_store [OF empty_whitelist_inv(1) b, of True] show ?thesis
    by (auto simp: empty_whitelist_inv)
qed

text \<open>A list with one rule, given as the object that parsing it allocates.\<close>

definition one_rule :: "connection \<Rightarrow> wl_state" where
  "one_rule con = push_entry con empty_whitelist"

lemma one_rule_inv:
  "wf_connection con \<Longrightarrow> store_inv (one_rule con) \<and> entries (one_rule con) = [conn_abs con] \<and>
     leaked (one_rule con) = {}"
proof -
  assume con: "wf_connection con"
  have "wl_inv empty_whitelist" "proc_inv empty_whitelist"
    using empty_whitelist_inv(1) by (simp_all add: store_inv_def)
  with con show ?thesis
    using wl_inv_push [of empty_whitelist con]
    by (simp add: one_rule_def store_inv_def empty_whitelist_inv)
      (simp add: empty_whitelist_def MAX_WHITELIST_SIZE_def)
qed

lemma parsed_wf:
  assumes "c_string b 0 t" "\<not> ip_unterminated t" "parse_text t = Some r"
  obtains con where "conn_abs con = r" "wf_connection con"
  using parse_fields_refines [OF assms(1,2)] assms(3) by auto

text \<open>The path that whitelisting looks at: none for a kernel thread or for a path that is too long.\<close>

definition task_path :: "(nat \<Rightarrow> nat \<Rightarrow> string option) \<Rightarrow> task_struct \<Rightarrow> string option" where
  "task_path d_path t =
     (case exe_from_mm d_path (mm t) MAX_ABSOLUTE_EXEC_PATH of
        None \<Rightarrow> None
      | Some p \<Rightarrow> if cstr p = [] \<or> MAX_ABSOLUTE_EXEC_PATH \<le> length (cstr p) then None else Some (cstr p))"

lemma exe_from_mm_None [simp]: "exe_from_mm d_path None n = None"
  by (simp add: exe_from_mm_def)

lemma is_whitelisted_run:
  assumes "wl_inv s"
  shows "is_whitelisted d_path (Some t) (Some i) n s =
    Inr (case task_path d_path t of
           None \<Rightarrow> NOT_WHITELISTED
         | Some p \<Rightarrow> if list_ex (\<lambda>r. attrs_match r (p, cstr i, n)) (entries s)
                     then WHITELISTED else NOT_WHITELISTED)"
proof (cases "exe_from_mm d_path (mm t) MAX_ABSOLUTE_EXEC_PATH")
  case None
  then show ?thesis by (auto simp: is_whitelisted_def task_path_def split: option.splits)
next
  case (Some p)
  then have mm: "mm t \<noteq> None" by (cases "mm t") simp_all
  have "some_entry (\<lambda>c. connection_matches_attributes (conns s) c (Some p) (Some i) n) (live_entries s) =
      Inr (list_ex (\<lambda>c. attrs_match (conn_abs (the (objs (conns s) (the c)))) (cstr p, cstr i, n)) (live_entries s))"
  proof (rule some_entry_spec)
    fix c assume "c \<in> set (live_entries s)"
    with assms show "connection_matches_attributes (conns s) c (Some p) (Some i) n =
        Inr (attrs_match (conn_abs (the (objs (conns s) (the c)))) (cstr p, cstr i, n))"
      by (elim wl_inv_live) (auto simp: connection_matches_attributes_def matches_attributes_iff)
  qed
  then have "some_entry (\<lambda>c. connection_matches_attributes (conns s) c (Some p) (Some i) n) (live_entries s) =
      Inr (list_ex (\<lambda>r. attrs_match r (cstr p, cstr i, n)) (entries s))"
    by (simp add: entries_def list_ex_iff)
  moreover have "0 < MAX_ABSOLUTE_EXEC_PATH" by (simp add: MAX_ABSOLUTE_EXEC_PATH_def)
  ultimately show ?thesis
    using Some mm by (auto simp: is_whitelisted_def task_path_def strnlen_def Let_def)
qed

lemma is_whitelisted_no_ip:
  assumes "wl_inv s"
  shows "is_whitelisted d_path task None n s = Inr NOT_WHITELISTED"
proof -
  have "some_entry (\<lambda>c. connection_matches_attributes (conns s) c p None n) cs = Inr False" for p cs
    by (induction cs) (auto simp: connection_matches_attributes_def split: option.splits)
  then show ?thesis
    by (auto simp: is_whitelisted_def Let_def split: option.splits)
qed

lemma is_whitelisted_code:
  "wl_inv s \<Longrightarrow> \<exists>v. is_whitelisted d_path task i n s = Inr v \<and> v \<in> {WHITELISTED, NOT_WHITELISTED}"
  apply (cases task)
   apply (simp add: is_whitelisted_def)
  apply (cases i)
   apply (auto simp: is_whitelisted_run is_whitelisted_no_ip split: option.splits)
  done

text \<open>
  C5: The lookup in the whitelist runs into no fault, and ignores a connection of a task exactly when
  the path of the task's executable is known, not empty and shorter than 950 characters and one of the
  rules of the list matches it with the address and port of the peer. In every other case it answers that
  the connection is not whitelisted, also for a task that is NULL or has no memory map.
\<close>

theorem is_whitelisted_iff_rule:
  assumes "store_inv s"
  shows "is_whitelisted d_path (Some t) (Some i) n s =
      Inr (if \<exists>p r. task_path d_path t = Some p \<and> r \<in> set (entries s) \<and> attrs_match r (p, cstr i, n)
           then WHITELISTED else NOT_WHITELISTED) \<and>
    is_whitelisted d_path None (Some i) n s = Inr NOT_WHITELISTED \<and>
    is_whitelisted d_path (Some (t\<lparr>mm := None\<rparr>)) (Some i) n s = Inr NOT_WHITELISTED"
proof -
  have "wl_inv s" using assms by (simp add: store_inv_def)
  then show ?thesis
    by (auto simp: is_whitelisted_run list_ex_iff task_path_def exe_from_mm_def is_whitelisted_def [of d_path None]
        simp del: attrs_match.simps split: option.splits)
qed

theorem is_whitelisted_iff_rule_witness:
  "\<exists>s :: wl_state. store_inv s \<and>
     is_whitelisted (\<lambda>f n. Some ''/bin/a'') (Some \<lparr>pid = 1, comm = ''a'', mm = Some [\<lparr>vm_executable = True,
       vm_file = Some 7\<rparr>], uid = 0\<rparr>) (Some ''10.0.0.1'') 22 s = Inr WHITELISTED"
proof -
  have c: "c_string (''/bin/a'' @ [NUL]) 0 ''/bin/a''" by (rule c_stringI [of _ _ "[]" "[]"]) simp_all
  have "\<not> ip_unterminated ''/bin/a''" "parse_text ''/bin/a'' = Some (''/bin/a'', [], NO_PORT)"
    by code_simp+
  with c obtain con where con: "conn_abs con = (''/bin/a'', [], NO_PORT)" "wf_connection con"
    by (rule parsed_wf)
  note inv = one_rule_inv [OF con(2)]
  have "task_path (\<lambda>f n. Some ''/bin/a'') \<lparr>pid = 1, comm = ''a'', mm = Some [\<lparr>vm_executable = True,
       vm_file = Some 7\<rparr>], uid = 0\<rparr> = Some ''/bin/a''"
    by (simp add: task_path_def exe_from_mm_def MAX_ABSOLUTE_EXEC_PATH_def)
  with inv con(1) show ?thesis
    by (intro exI [of _ "one_rule con"] conjI)
      (simp, subst is_whitelisted_iff_rule, simp_all)
qed

text \<open>
  C39: A rule that is refused because an entry already matches it leaves its parsed object
  allocated and unreachable: nothing frees it, and clearing the whitelist afterwards frees the
  objects of the array, each once, and leaves exactly the leaked ones. Every other outcome leaks
  nothing. (The ip field of the rule is closed, and there is memory for its object.)
\<close>

theorem refused_duplicate_leaks:
  assumes "store_inv s" "rule_bytes b t" "whitelist True (Some b) s = Inr (v, s')"
  shows "leaked s' =
      (if wl_size s < MAX_WHITELIST_SIZE \<and>
          (\<exists>r. parse_text t = Some r \<and> list_ex (attrs_match r) (entries s))
       then insert (next_addr (conns s)) (leaked s) else leaked s) \<and>
    (\<exists>s2. destroy_whitelist s' = Inr s2 \<and> dom (objs (conns s2)) = leaked s')"
proof
  from assms(1) have wl: "wl_inv s" and p: "proc_inv s" by (simp_all add: store_inv_def)
  from assms(2) have t: "c_string b 0 t" "\<not> ip_unterminated t" "length b < 2 ^ 30"
    by (simp_all add: rule_bytes_def)
  from wl t(1,2) show "leaked s' =
      (if wl_size s < MAX_WHITELIST_SIZE \<and>
          (\<exists>r. parse_text t = Some r \<and> list_ex (attrs_match r) (entries s))
       then insert (next_addr (conns s)) (leaked s) else leaked s)"
  proof (cases rule: whitelist_cases)
    case full
    with assms(3) show ?thesis by simp
  next
    case refused
    with assms(3) wl_inv_bump [OF wl] show ?thesis by auto
  next
    case (duplicate con)
    with assms(3) wl_inv_leak [OF wl] show ?thesis by auto
  next
    case (added con)
    from p have "proc_inv (push_entry con s)" by simp
    then obtain s1 where s1: "add_connection_string_to_proc_config (Some b) (push_entry con s) = Inr s1"
      "s1 = (push_entry con s)\<lparr>procfs_buffer := procfs_buffer s1, procfs_buffer_size := procfs_buffer_size s1\<rparr>"
      using c_string_NUL [OF t(1)] t(3) by (rule add_connection_string_safe)
    moreover have "leaked s1 = leaked s"
      by (subst s1(2)) (simp add: wl_inv_push [OF wl added(1,3)])
    ultimately show ?thesis using added assms(3) by simp
  qed
  have "store_inv s'"
    using whitelist_refines [OF assms(1) t] assms(3) by auto
  then show "\<exists>s2. destroy_whitelist s' = Inr s2 \<and> dom (objs (conns s2)) = leaked s'"
    using destroy_whitelist_refines [of s'] by auto
qed

theorem refused_duplicate_leaks_witness:
  "\<exists>(s :: wl_state) v s'. store_inv s \<and> leaked s = {} \<and>
     whitelist True (Some (''/bin/a'' @ [NUL])) s = Inr (v, s') \<and> leaked s' \<noteq> {}"
proof -
  have un: "\<not> ip_unterminated ''/bin/a''" by code_simp
  then have b: "rule_bytes (''/bin/a'' @ [NUL]) ''/bin/a''" by (intro rule_bytesI) simp_all
  have p: "parse_text ''/bin/a'' = Some (''/bin/a'', [], NO_PORT)" by code_simp
  from b have "c_string (''/bin/a'' @ [NUL]) 0 ''/bin/a''" by (simp add: rule_bytes_def)
  then obtain con where con: "conn_abs con = (''/bin/a'', [], NO_PORT)" "wf_connection con"
    using un p by (rule parsed_wf)
  note inv = one_rule_inv [OF con(2)]
  obtain v s' where run: "whitelist True (Some (''/bin/a'' @ [NUL])) (one_rule con) = Inr (v, s')"
    using whitelist_refines [of "one_rule con" "''/bin/a'' @ [NUL]" "''/bin/a''"] inv b
    by (auto simp: rule_bytes_def)
  have "wl_size (one_rule con) < MAX_WHITELIST_SIZE"
    by (simp add: one_rule_def push_entry_def empty_whitelist_def MAX_WHITELIST_SIZE_def)
  with refused_duplicate_leaks [OF _ b run] inv p con(1) run show ?thesis
    by (intro exI [of _ "one_rule con"] exI [of _ v] exI [of _ s']) simp
qed

text \<open>
  C38: Matching is not an order on rules: once a rule restricted to an address or a port of a program
  is in the list, the rule that whitelists the program as a whole is refused as already present,
  and the connections it was meant to cover are still reported.
\<close>

theorem broader_rule_refused:
  assumes "store_inv s" "rule_bytes b t" "parse_text t = Some (p, [], NO_PORT)" "(p, i, n) \<in> set (entries s)"
    and "task_path d_path tk = Some p" "\<not> list_ex (\<lambda>r. attrs_match r (p, cstr j, m)) (entries s)"
  shows "\<exists>s'. whitelist True (Some b) s = Inr (WHITELIST_FAIL, s') \<and> entries s' = entries s \<and>
    attrs_match (p, [], NO_PORT) (p, cstr j, m) \<and>
    is_whitelisted d_path (Some tk) (Some j) m s' = Inr NOT_WHITELISTED"
proof -
  have "attrs_match (p, [], NO_PORT) (p, i, n)" by simp
  with assms(4) have "list_ex (attrs_match (p, [], NO_PORT)) (entries s)"
    unfolding list_ex_iff by blast
  with assms(3) have "add_rule t (entries s) = (WHITELIST_FAIL, entries s)"
    by (simp add: add_rule_def)
  with wl.add_refines [OF assms(1,2)] obtain s' where
    "whitelist True (Some b) s = Inr (WHITELIST_FAIL, s')" "store_inv s'" "entries s' = entries s"
    by auto
  moreover from this assms(5,6) have "is_whitelisted d_path (Some tk) (Some j) m s' = Inr NOT_WHITELISTED"
    by (simp add: store_inv_def is_whitelisted_run)
  ultimately show ?thesis by auto
qed

theorem broader_rule_refused_witness:
  "\<exists>(s :: wl_state) s'. entries s = [(''/bin/a'', [], 22)] \<and>
     whitelist True (Some (''/bin/a'' @ [NUL])) s = Inr (WHITELIST_FAIL, s') \<and>
     is_whitelisted (\<lambda>f n. Some ''/bin/a'') (Some \<lparr>pid = 1, comm = ''a'', mm = Some [\<lparr>vm_executable = True,
       vm_file = Some 7\<rparr>], uid = 0\<rparr>) (Some ''10.0.0.1'') 80 s' = Inr NOT_WHITELISTED"
proof -
  have c: "c_string (''/bin/a|p<22>'' @ [NUL]) 0 ''/bin/a|p<22>''"
    by (rule c_stringI [of _ _ "[]" "[]"]) simp_all
  have "\<not> ip_unterminated ''/bin/a|p<22>''" "parse_text ''/bin/a|p<22>'' = Some (''/bin/a'', [], 22)"
    by code_simp+
  with c obtain con where con: "conn_abs con = (''/bin/a'', [], 22)" "wf_connection con"
    by (rule parsed_wf)
  note inv = one_rule_inv [OF con(2)]
  have "\<not> ip_unterminated ''/bin/a''" by code_simp
  then have b: "rule_bytes (''/bin/a'' @ [NUL]) ''/bin/a''" by (intro rule_bytesI) simp_all
  have p: "parse_text ''/bin/a'' = Some (''/bin/a'', [], NO_PORT)" by code_simp
  have tk: "task_path (\<lambda>f n. Some ''/bin/a'') \<lparr>pid = 1, comm = ''a'', mm = Some [\<lparr>vm_executable = True,
       vm_file = Some 7\<rparr>], uid = 0\<rparr> = Some ''/bin/a''"
    by (simp add: task_path_def exe_from_mm_def MAX_ABSOLUTE_EXEC_PATH_def)
  have "\<not> list_ex (\<lambda>r. attrs_match r (''/bin/a'', cstr ''10.0.0.1'', 80)) (entries (one_rule con))"
    using inv con(1) by (simp add: NO_PORT_def)
  with broader_rule_refused [OF _ b p _ tk, of "one_rule con" "[]" 22 "''10.0.0.1''" 80] inv con(1)
  obtain s' where
    "whitelist True (Some (''/bin/a'' @ [NUL])) (one_rule con) = Inr (WHITELIST_FAIL, s')"
    "is_whitelisted (\<lambda>f n. Some ''/bin/a'') (Some \<lparr>pid = 1, comm = ''a'', mm = Some [\<lparr>vm_executable = True,
       vm_file = Some 7\<rparr>], uid = 0\<rparr>) (Some ''10.0.0.1'') 80 s' = Inr NOT_WHITELISTED"
    by auto
  with inv con(1) show ?thesis by metis
qed

section \<open>The text of the proc file\<close>

lemma config_text_conns [simp]: "config_text (s\<lparr>conns := h\<rparr>) u = config_text s u"
  by (simp add: config_text_def)

lemma config_text_push [simp]: "config_text (push_entry con s) u = config_text s u"
  by (simp add: config_text_def push_entry_def)

text \<open>An accepted rule is appended to the text, with a comma; a refused one leaves it as it is.\<close>

lemma whitelist_config_text:
  assumes "store_inv s" "rule_bytes b t" "config_text s u" "length u + length t + 1 < PROCFS_MAX_SIZE"
    and "whitelist True (Some b) s = Inr (v, s')"
  shows "config_text s' (if v = WHITELISTED then u @ t @ '','' else u)"
proof -
  from assms(1) have wl: "wl_inv s" by (simp add: store_inv_def)
  from assms(2) have t: "c_string b 0 t" "\<not> ip_unterminated t" by (simp_all add: rule_bytes_def)
  from wl t show ?thesis
  proof (cases rule: whitelist_cases)
    case (added con)
    have "config_text (push_entry con s) u" using assms(3) by simp
    then obtain s1 where
      "add_connection_string_to_proc_config (Some b) (push_entry con s) = Inr s1"
      "config_text s1 (u @ cstr b @ '','')"
      using assms(4) add_connection_string_fits [OF _ c_string_NUL [OF t(1)]]
      by (metis c_string_cstr [OF t(1)])
    with added assms(5) c_string_cstr [OF t(1)] show ?thesis by auto
  qed (use assms(3,5) in \<open>auto simp: wl_codes\<close>)
qed

text \<open>The texts of the accepted rules, each followed by a comma.\<close>

definition accepted_text :: "string list \<Rightarrow> int list \<Rightarrow> string" where
  "accepted_text ts vs = concat (map (\<lambda>(t, v). if v = WHITELISTED then t @ '','' else []) (zip ts vs))"

lemma accepted_text_simps [simp]:
  "accepted_text [] [] = []"
  "accepted_text (t # ts) (v # vs) = (if v = WHITELISTED then t @ '','' else []) @ accepted_text ts vs"
  by (simp_all add: accepted_text_def)

lemma add_all_config_text:
  assumes "list_all2 rule_bytes bs ts" "store_inv s" "config_text s u"
    and "length u + (\<Sum>t\<leftarrow>ts. length t + 1) < PROCFS_MAX_SIZE"
    and "add_all (\<lambda>b. whitelist True (Some b)) bs s = Inr (vs, s')"
  shows "config_text s' (u @ accepted_text ts vs)"
  using assms
proof (induction bs ts arbitrary: s u vs rule: list_all2_induct)
  case Nil
  then show ?case by simp
next
  case (Cons b bs t ts)
  obtain v s1 where 1: "whitelist True (Some b) s = Inr (v, s1)" "store_inv s1"
    using wl.add_refines [OF Cons.prems(1) Cons.hyps(1)] by auto
  then obtain ws where ws: "add_all (\<lambda>b. whitelist True (Some b)) bs s1 = Inr (ws, s')" "vs = v # ws"
    using Cons.prems(4) by (auto simp: run_bind_eq_Inr)
  have "config_text s1 (if v = WHITELISTED then u @ t @ '','' else u)"
    using whitelist_config_text [OF Cons.prems(1) Cons.hyps(1) Cons.prems(2) _ 1(1)] Cons.prems(3) by simp
  from Cons.IH [OF 1(2) this _ ws(1)] Cons.prems(3) ws(2) show ?case
    by (auto split: if_splits)
qed

end
