(* ===== verification/Proc_Config.thy ===== *)
theory Proc_Config imports Whitelist begin

text \<open>
  The proc file that shows and replaces the whitelist of netlog (netlog/src/proc_config.c). A write
  splits the text at its commas and hands the pieces to the whitelist; each accepted piece comes
  back into the text through add_connection_string_to_proc_config.
\<close>

definition MAX_NEW_CONNECTION_SIZE :: nat where "MAX_NEW_CONNECTION_SIZE = 512"
definition CREATE_PROC_FAILED :: int where "CREATE_PROC_FAILED = 5"
definition ENOSPC :: int where "ENOSPC = 28"
definition EFAULT :: int where "EFAULT = 14"

abbreviation TAB :: char where "TAB \<equiv> CHR 0x09"
abbreviation NL :: char where "NL \<equiv> CHR 0x0A"

definition PROC_CONFIG_NAME :: string where "PROC_CONFIG_NAME = ''netlog-config''"

section \<open>Whitelisting one text and reporting it\<close>

definition report :: "string \<Rightarrow> int \<Rightarrow> string \<Rightarrow> string" where
  "report who err txt =
     who @ '':'' @ [TAB] @
     (if err < 0 then ''[-] Failed to whitelist '' else ''[+] Whitelisted '') @ txt @ [NL]"

text \<open>The call of whitelist and the message about it, as do_whitelist and update_whitelist have them.\<close>

definition whitelist_and_report ::
  "string \<Rightarrow> bool \<Rightarrow> char list \<Rightarrow> 'a wl_state_scheme \<Rightarrow> (int \<times> 'a wl_state_scheme) run" where
  "whitelist_and_report who kmalloc_ok b s =
     run_bind (whitelist kmalloc_ok (Some b) s) (\<lambda>(err, s).
     run_bind (printed_string b) (\<lambda>txt. Inr (err, printk (report who err txt) s)))"

section \<open>The handlers\<close>

function update_loop ::
  "(nat \<Rightarrow> bool) \<Rightarrow> char list \<Rightarrow> nat \<Rightarrow> nat \<Rightarrow> nat \<Rightarrow> char list \<Rightarrow> 'a wl_state_scheme \<Rightarrow> 'a wl_state_scheme run" where
  "update_loop kmalloc_ok temp i start len new_connection_string s =
     run_bind (load temp i) (\<lambda>c.
     if c = CHR '','' \<or> c = NUL
     then
       run_bind (blit new_connection_string 0 (take (Suc len) (drop start temp))) (\<lambda>b.
       run_bind (store b len NUL) (\<lambda>b.
       run_bind (whitelist_and_report PROC_CONFIG_NAME (kmalloc_ok i) b s) (\<lambda>(err, s).
       if c = NUL then Inr s
       else update_loop kmalloc_ok temp (Suc i) (start + Suc len) 0 b s)))
     else update_loop kmalloc_ok temp (Suc i) start (Suc len) new_connection_string s)"
  by pat_completeness auto
termination
  by (relation "measure (\<lambda>(k, temp, i, r). length temp - i)") (auto simp: load_def split: if_splits)

declare update_loop.simps [simp del]

text \<open>stack is what the 512 bytes of the local buffer hold when the function is entered.\<close>

definition update_whitelist ::
  "(nat \<Rightarrow> bool) \<Rightarrow> char list \<Rightarrow> 'a wl_state_scheme \<Rightarrow> 'a wl_state_scheme run" where
  "update_whitelist kmalloc_ok stack s =
     (let temp_procfs_buffer = procfs_buffer s in
      run_bind (destroy_whitelist (initialize_procfs_buffer s)) (\<lambda>s.
      update_loop kmalloc_ok temp_procfs_buffer 0 0 0 stack
        (printk (PROC_CONFIG_NAME @ '':'' @ [TAB] @ ''[+] Cleared whitelist'' @ [NL]) s)))"

text \<open>The result is the number returned and the text put into the caller's buffer.\<close>

definition procfile_read ::
  "int \<Rightarrow> nat \<Rightarrow> 'a wl_state_scheme \<Rightarrow> (nat \<times> string \<times> 'a wl_state_scheme) run" where
  "procfile_read offset buffer_length s =
     (if 0 < offset then Inr (0, [], s)
      else if buffer_length < unat (procfs_buffer_size s)
      then Inr (0, [], printk (PROC_CONFIG_NAME @ '': Not large enought buffer to copy the procfs buffer'' @ [NL]) s)
      else
        run_bind (load (procfs_buffer s) (unat (procfs_buffer_size s - 1))) (\<lambda>c.
        run_bind (if c = CHR '',''
                  then run_bind (store (procfs_buffer s) (unat (procfs_buffer_size s - 1)) NUL)
                         (\<lambda>b. Inr (s\<lparr>procfs_buffer := b, procfs_buffer_size := procfs_buffer_size s - 1\<rparr>))
                  else Inr s) (\<lambda>s.
        run_bind (printed_string (procfs_buffer s)) (\<lambda>txt.
        Inr (length (txt @ [NL]), snprintf_text buffer_length (txt @ [NL]), s)))))"

text \<open>
  user is the part of the user's buffer that can be read; copy_from_user copies it, clears the rest
  and returns the number of bytes it could not copy.
\<close>

definition procfile_write ::
  "(nat \<Rightarrow> bool) \<Rightarrow> char list \<Rightarrow> char list \<Rightarrow> 64 word \<Rightarrow> 'a wl_state_scheme \<Rightarrow> (int \<times> 'a wl_state_scheme) run" where
  "procfile_write kmalloc_ok stack user count s =
     (let s = s\<lparr>procfs_buffer_size := count\<rparr>; n = unat count in
      if PROCFS_MAX_SIZE \<le> n
      then Inr (- ENOSPC, printk (PROC_CONFIG_NAME @
             '': There is no enought space in the procfs buffer, changes will be ignored'' @ [NL]) s)
      else
        run_bind (blit (procfs_buffer s) 0 (take n user @ replicate (n - length user) NUL)) (\<lambda>b.
        if length user < n then Inr (- EFAULT, s\<lparr>procfs_buffer := b\<rparr>)
        else
          run_bind (store b (unat (procfs_buffer_size s - 1)) NUL) (\<lambda>b.
          run_bind (update_whitelist kmalloc_ok stack (s\<lparr>procfs_buffer := b\<rparr>)) (\<lambda>s.
          Inr (int n, s)))))"

definition create_proc_config :: "bool \<Rightarrow> 'a wl_state_scheme \<Rightarrow> int \<times> 'a wl_state_scheme" where
  "create_proc_config create_ok s =
     (if \<not> create_ok then (- CREATE_PROC_FAILED, s\<lparr>netlog_config_proc_file := False\<rparr>)
      else (0, initialize_procfs_buffer (s\<lparr>netlog_config_proc_file := True\<rparr>)))"

definition destroy_proc_config :: "'a wl_state_scheme \<Rightarrow> 'a wl_state_scheme" where
  "destroy_proc_config s =
     (if netlog_config_proc_file s
      then initialize_procfs_buffer (s\<lparr>netlog_config_proc_file := False\<rparr>)
      else s)"

section \<open>Reporting does not disturb the store\<close>

lemma printk_store [simp]:
  "store_inv (printk x s) = store_inv s" "entries (printk x s) = entries s"
  "config_text (printk x s) u = config_text s u"
  by (simp_all add: printk_def store_inv_def wl_inv_def proc_inv_def entries_def live_entries_def config_text_def)

lemma rule_bytes_printed: "rule_bytes b t \<Longrightarrow> printed_string b = Inr t"
  by (auto simp: rule_bytes_def printed_string_def c_string_NUL c_string_cstr)

lemma whitelist_and_report_run:
  assumes "store_inv s" "rule_bytes b t"
  obtains v s1 where "whitelist True (Some b) s = Inr (v, s1)" "store_inv s1"
    "(v, entries s1) = add_rule t (entries s)" "klog s1 = klog s"
    "whitelist_and_report who True b s = Inr (v, printk (report who v t) s1)"
proof -
  obtain v s1 where "whitelist True (Some b) s = Inr (v, s1)" "store_inv s1"
    "(v, entries s1) = add_rule t (entries s)" "klog s1 = klog s"
    using whitelist_refines [OF assms(1)] assms(2) unfolding rule_bytes_def by blast
  with rule_bytes_printed [OF assms(2)] show thesis
    by (intro that) (simp_all add: whitelist_and_report_def)
qed

interpretation reported: rule_store "whitelist_and_report who True" destroy_whitelist entries store_inv
proof unfold_locales
  show "\<exists>v s'. whitelist_and_report who True b s = Inr (v, s') \<and> store_inv s' \<and>
      (v, entries s') = add_rule t (entries s)"
    if "store_inv s" "rule_bytes b t" for s :: "'a wl_state_scheme" and b t
    by (rule whitelist_and_report_run [OF that, of who]) simp
qed (simp_all add: wl.clear_refines wl.rules_bound)

lemma reported_log:
  assumes "list_all2 rule_bytes bs ts" "store_inv s"
    and "add_all (whitelist_and_report who True) bs s = Inr (vs, s')"
  shows "klog s' = klog s @ map (\<lambda>(t, v). report who v t) (zip ts vs) \<and> length vs = length ts"
  using assms
proof (induction bs ts arbitrary: s vs rule: list_all2_induct)
  case Nil
  then show ?case by simp
next
  case (Cons b bs t ts)
  obtain v s1 where 1: "store_inv s1" "klog s1 = klog s"
    "whitelist_and_report who True b s = Inr (v, printk (report who v t) s1)"
    by (rule whitelist_and_report_run [OF Cons.prems(1) Cons.hyps(1), of who])
  with Cons.prems(2) obtain ws where ws: "vs = v # ws"
    "add_all (whitelist_and_report who True) bs (printk (report who v t) s1) = Inr (ws, s')"
    by (auto simp: run_bind_eq_Inr)
  from Cons.IH [OF _ ws(2)] 1 ws(1) show ?case by simp
qed

lemma reported_config_text:
  assumes "list_all2 rule_bytes bs ts" "store_inv s" "config_text s u"
    and "length u + (\<Sum>t\<leftarrow>ts. length t + 1) < PROCFS_MAX_SIZE"
    and "add_all (whitelist_and_report who True) bs s = Inr (vs, s')"
  shows "config_text s' (u @ accepted_text ts vs)"
  using assms
proof (induction bs ts arbitrary: s u vs rule: list_all2_induct)
  case Nil
  then show ?case by simp
next
  case (Cons b bs t ts)
  obtain v s1 where 1: "whitelist True (Some b) s = Inr (v, s1)" "store_inv s1"
    "whitelist_and_report who True b s = Inr (v, printk (report who v t) s1)"
    by (rule whitelist_and_report_run [OF Cons.prems(1) Cons.hyps(1), of who])
  with Cons.prems(4) obtain ws where ws: "vs = v # ws"
    "add_all (whitelist_and_report who True) bs (printk (report who v t) s1) = Inr (ws, s')"
    by (auto simp: run_bind_eq_Inr)
  have "config_text (printk (report who v t) s1) (if v = WHITELISTED then u @ t @ '','' else u)"
    using whitelist_config_text [OF Cons.prems(1) Cons.hyps(1) Cons.prems(2) _ 1(1)] Cons.prems(3) by simp
  from Cons.IH [OF _ this _ ws(2)] 1(2) Cons.prems(3) ws(1) show ?case
    by (auto split: if_splits)
qed

section \<open>The pieces of a text\<close>

primrec split_commas :: "string \<Rightarrow> string list" where
  "split_commas [] = [[]]"
| "split_commas (c # w) =
     (if c = CHR '','' then [] # split_commas w
      else (c # hd (split_commas w)) # tl (split_commas w))"

lemma split_commas_nonempty [simp]: "split_commas w \<noteq> []"
  by (cases w) auto

lemma split_commas_prefix:
  "CHR '','' \<notin> set acc \<Longrightarrow> split_commas (acc @ w) = (acc @ hd (split_commas w)) # tl (split_commas w)"
  by (induction acc) auto

lemma split_commas_at: "CHR '','' \<notin> set acc \<Longrightarrow> split_commas (acc @ CHR '','' # w) = acc # split_commas w"
  by (simp add: split_commas_prefix)

lemma split_commas_single: "CHR '','' \<notin> set acc \<Longrightarrow> split_commas acc = [acc]"
  using split_commas_prefix [of acc "[]"] by simp

lemma split_commas_length: "(\<Sum>t\<leftarrow>split_commas w. length t + 1) = length w + 1"
proof (induction w)
  case (Cons c w)
  then show ?case by (cases "split_commas w") auto
qed simp

lemma split_commas_chars: "t \<in> set (split_commas w) \<Longrightarrow> set t \<subseteq> set w"
proof (induction w arbitrary: t)
  case (Cons c w)
  then show ?case by (cases "split_commas w") (auto split: if_splits, blast+)
qed simp

text \<open>What the local buffer holds at each call of whitelist: the piece, then what was there before.\<close>

primrec stack_images :: "char list \<Rightarrow> string list \<Rightarrow> char list list" where
  "stack_images n [] = []"
| "stack_images n (t # ts) =
     (let n' = t @ NUL # drop (Suc (length t)) n in n' # stack_images n' ts)"

text \<open>A piece that the local buffer can hold and the parser reads within its bounds.\<close>

definition good_piece :: "string \<Rightarrow> bool" where
  "good_piece t \<longleftrightarrow> length t < MAX_NEW_CONNECTION_SIZE \<and> NUL \<notin> set t \<and> \<not> ip_unterminated t"

lemma stack_images_rule_bytes:
  "list_all good_piece ts \<Longrightarrow> length n = MAX_NEW_CONNECTION_SIZE \<Longrightarrow> list_all2 rule_bytes (stack_images n ts) ts"
proof (induction ts arbitrary: n)
  case (Cons t ts)
  define n' where "n' = t @ NUL # drop (Suc (length t)) n"
  from Cons.prems have len: "length n' = MAX_NEW_CONNECTION_SIZE"
    by (simp add: n'_def good_piece_def)
  moreover have "c_string n' 0 t"
    using Cons.prems by (intro c_stringI [of _ _ "[]" "drop (Suc (length t)) n"]) (auto simp: n'_def good_piece_def)
  ultimately have "rule_bytes n' t"
    using Cons.prems by (simp add: rule_bytes_def good_piece_def MAX_NEW_CONNECTION_SIZE_def)
  with Cons.IH [of n'] Cons.prems len show ?case
    by (simp add: n'_def Let_def)
qed simp

lemma update_loop_step:
  assumes "temp = pre @ acc @ c # r" "CHR '','' \<notin> set acc" "NUL \<notin> set acc" "c = CHR '','' \<or> c = NUL"
    and "length n = MAX_NEW_CONNECTION_SIZE" "length acc < MAX_NEW_CONNECTION_SIZE"
  shows "update_loop k temp (length pre + length acc) (length pre) (length acc) n s =
    run_bind (whitelist_and_report PROC_CONFIG_NAME (k (length pre + length acc))
        (acc @ NUL # drop (Suc (length acc)) n) s) (\<lambda>(err, s).
      if c = NUL then Inr s
      else update_loop k temp (Suc (length pre + length acc)) (length pre + Suc (length acc)) 0
             (acc @ NUL # drop (Suc (length acc)) n) s)"
proof -
  have "load temp (length pre + length acc) = Inr c"
    using assms(1) by (simp add: load_def nth_append)
  moreover have "take (Suc (length acc)) (drop (length pre) temp) = acc @ [c]"
    using assms(1) by simp
  moreover have "blit n 0 (acc @ [c]) = Inr (acc @ c # drop (Suc (length acc)) n)"
    using assms(5,6) by (simp add: blit_def)
  moreover have "store (acc @ c # drop (Suc (length acc)) n) (length acc) NUL =
      Inr (acc @ NUL # drop (Suc (length acc)) n)"
    by (simp add: store_at_end)
  ultimately show ?thesis
    using assms(4) by (subst update_loop.simps) simp
qed

lemma update_loop_run:
  assumes "temp = pre @ acc @ w @ NUL # post" "CHR '','' \<notin> set acc" "NUL \<notin> set (acc @ w)"
    and "length n = MAX_NEW_CONNECTION_SIZE" "list_all good_piece (split_commas (acc @ w))"
  shows "update_loop (\<lambda>_. True) temp (length pre + length acc) (length pre) (length acc) n s =
    run_bind (add_all (whitelist_and_report PROC_CONFIG_NAME True) (stack_images n (split_commas (acc @ w))) s)
      (\<lambda>(vs, s). Inr s)"
  using assms
proof (induction w arbitrary: pre acc n s)
  case Nil
  then have "length acc < MAX_NEW_CONNECTION_SIZE"
    by (simp add: split_commas_single good_piece_def)
  with Nil show ?case
    by (subst update_loop_step [of _ _ _ NUL post])
      (auto simp: split_commas_single Let_def run_bind_assoc split_def)
next
  case (Cons c w)
  show ?case
  proof (cases "c = CHR '',''")
    case True
    with Cons.prems have "good_piece acc" and pieces: "list_all good_piece (split_commas ([] @ w))"
      by (simp_all add: split_commas_at)
    then have acc: "length acc < MAX_NEW_CONNECTION_SIZE" by (simp add: good_piece_def)
    define n' where "n' = acc @ NUL # drop (Suc (length acc)) n"
    have len: "length n' = MAX_NEW_CONNECTION_SIZE"
      using acc Cons.prems(4) by (simp add: n'_def)
    have temp: "temp = (pre @ acc @ [c]) @ [] @ w @ NUL # post"
      using Cons.prems(1) by simp
    have "update_loop (\<lambda>_. True) temp (Suc (length pre + length acc)) (length pre + Suc (length acc)) 0 n' s' =
        run_bind (add_all (whitelist_and_report PROC_CONFIG_NAME True) (stack_images n' (split_commas w)) s')
          (\<lambda>(vs, s). Inr s)" for s' :: "'a wl_state_scheme"
      using Cons.IH [OF temp _ _ len pieces] Cons.prems(3) by simp
    with True Cons.prems acc show ?thesis
      by (subst update_loop_step [of _ _ _ c "w @ NUL # post"])
        (auto simp: split_commas_at Let_def run_bind_assoc split_def n'_def)
  next
    case False
    with Cons.prems have "update_loop (\<lambda>_. True) temp (length pre + length acc) (length pre) (length acc) n s =
        update_loop (\<lambda>_. True) temp (length pre + length (acc @ [c])) (length pre) (length (acc @ [c])) n s"
      by (subst update_loop.simps) (auto simp: load_def nth_append)
    with Cons.IH [of pre "acc @ [c]" n s] Cons.prems False show ?thesis by simp
  qed
qed

lemma config_text_of_init: "length (procfs_buffer s) = PROCFS_MAX_SIZE \<Longrightarrow> store_inv s \<Longrightarrow>
    store_inv (initialize_procfs_buffer s) \<and> config_text (initialize_procfs_buffer s) []"
  using initialize_procfs_buffer_text [of s]
  by (simp add: store_inv_def) (simp add: wl_inv_def live_entries_def initialize_procfs_buffer_def)

text \<open>Rebuilding the whitelist from the text w of the buffer.\<close>

lemma update_whitelist_run:
  assumes inv: "store_inv s" and buf: "procfs_buffer s = w @ NUL # post" "NUL \<notin> set w"
    and room: "length w + 1 < PROCFS_MAX_SIZE"
    and pieces: "list_all good_piece (split_commas w)" and stack: "length stack = MAX_NEW_CONNECTION_SIZE"
  shows "\<exists>vs s'. update_whitelist (\<lambda>_. True) stack s = Inr s' \<and> store_inv s' \<and>
    add_rules (split_commas w) [] = (vs, entries s') \<and>
    config_text s' (accepted_text (split_commas w) vs) \<and>
    klog s' = klog s @ [PROC_CONFIG_NAME @ '':'' @ [TAB] @ ''[+] Cleared whitelist'' @ [NL]] @
      map (\<lambda>(t, v). report PROC_CONFIG_NAME v t) (zip (split_commas w) vs)"
proof -
  let ?msg = "PROC_CONFIG_NAME @ '':'' @ [TAB] @ ''[+] Cleared whitelist'' @ [NL]"
  let ?bs = "stack_images stack (split_commas w)"
  have len: "length (procfs_buffer s) = PROCFS_MAX_SIZE" using inv by (simp add: store_inv_def proc_inv_def)
  note init = config_text_of_init [OF len inv]
  obtain s1 where s1: "destroy_whitelist (initialize_procfs_buffer s) = Inr s1" "store_inv s1" "entries s1 = []"
    "klog s1 = klog s" "config_text s1 []"
    using destroy_whitelist_refines [of "initialize_procfs_buffer s"] init
    by (auto simp: config_text_def initialize_procfs_buffer_def)
  have bytes: "list_all2 rule_bytes ?bs (split_commas w)"
    by (rule stack_images_rule_bytes [OF pieces stack])
  have "store_inv (printk ?msg s1)" using s1(2) by simp
  then obtain vs s' where s': "add_all (whitelist_and_report PROC_CONFIG_NAME True) ?bs (printk ?msg s1) = Inr (vs, s')"
    "store_inv s'" "(vs, entries s') = add_rules (split_commas w) (entries (printk ?msg s1))"
    using reported.add_all_refines [OF bytes] by blast
  have "update_loop (\<lambda>_. True) (procfs_buffer s) 0 0 0 stack (printk ?msg s1) = Inr s'"
    using update_loop_run [of "procfs_buffer s" "[]" "[]" w post stack "printk ?msg s1"]
      buf pieces stack s'(1) by simp
  then have "update_whitelist (\<lambda>_. True) stack s = Inr s'"
    using s1(1) by (simp add: update_whitelist_def)
  moreover have "(\<Sum>t\<leftarrow>split_commas w. length t + 1) < PROCFS_MAX_SIZE"
    using split_commas_length [of w] room by simp
  then have "config_text s' (accepted_text (split_commas w) vs)"
    using reported_config_text [OF bytes _ _ _ s'(1), of "[]"] s1(2,5) by simp
  moreover have "klog s' = klog s @ [?msg] @ map (\<lambda>(t, v). report PROC_CONFIG_NAME v t) (zip (split_commas w) vs)"
    using reported_log [OF bytes _ s'(1)] s1(2,4) by simp
  moreover have "add_rules (split_commas w) [] = (vs, entries s')" using s'(3) s1(3) by simp
  ultimately show ?thesis using s'(2) by blast
qed

section \<open>The properties of the proc file\<close>

text \<open>The text a write of the bytes user leaves: all but the last byte, up to a NUL.\<close>

definition written_text :: "char list \<Rightarrow> string" where
  "written_text user = cstr (butlast user)"

lemma written_text_split:
  assumes "user \<noteq> []"
  shows "\<exists>post. user[length user - 1 := NUL] = written_text user @ NUL # post"
proof -
  have upd: "user[length user - 1 := NUL] = butlast user @ [NUL]"
    using assms by (metis append_butlast_last_id length_butlast list_update_length)
  have "\<exists>post. xs @ [NUL] = cstr xs @ NUL # post" for xs :: "char list"
    by (induction xs) auto
  then show ?thesis unfolding upd written_text_def .
qed

lemma procfile_write_copy:
  assumes len: "length (procfs_buffer s) = PROCFS_MAX_SIZE" and user: "0 < length user" "length user < PROCFS_MAX_SIZE"
  shows "procfile_write k stack user (word_of_nat (length user)) s =
    run_bind (update_whitelist k stack (s\<lparr>procfs_buffer_size := word_of_nat (length user),
        procfs_buffer := user[length user - 1 := NUL] @ drop (length user) (procfs_buffer s)\<rparr>))
      (\<lambda>s. Inr (int (length user), s))"
proof -
  have n: "unat (word_of_nat (length user) :: 64 word) = length user"
    using user(2) by (simp add: unat_word_of_nat_small PROCFS_MAX_SIZE_def)
  have "(word_of_nat (length user) :: 64 word) - 1 = word_of_nat (length user - 1)"
    using user(1) by (cases user) simp_all
  moreover have "unat (word_of_nat (length user - 1) :: 64 word) = length user - 1"
    using user(2) by (intro unat_word_of_nat_small) (simp add: PROCFS_MAX_SIZE_def)
  moreover have "store (user @ drop (length user) (procfs_buffer s)) (length user - 1) NUL =
      Inr (user[length user - 1 := NUL] @ drop (length user) (procfs_buffer s))"
    using user(1) by (cases user) (simp_all add: store_def list_update_append split: nat.split)
  ultimately show ?thesis
    using user len by (simp add: procfile_write_def n blit_def Let_def)
qed

lemma store_inv_buffer:
  assumes "store_inv s" "length b = PROCFS_MAX_SIZE" "unat n < 2 ^ 31"
  shows "store_inv (s\<lparr>procfs_buffer_size := n, procfs_buffer := b\<rparr>)"
  using assms by (simp add: store_inv_def wl_inv_def live_entries_def proc_inv_def)

lemma procfile_write_rules:
  assumes "store_inv s" "0 < length user" "length user < PROCFS_MAX_SIZE"
    and "list_all good_piece (split_commas (written_text user))" "length stack = MAX_NEW_CONNECTION_SIZE"
  shows "\<exists>vs s'. procfile_write (\<lambda>_. True) stack user (word_of_nat (length user)) s =
        Inr (int (length user), s') \<and> store_inv s' \<and>
      add_rules (split_commas (written_text user)) [] = (vs, entries s') \<and>
      config_text s' (accepted_text (split_commas (written_text user)) vs) \<and>
      klog s' = klog s @ [PROC_CONFIG_NAME @ '':'' @ [TAB] @ ''[+] Cleared whitelist'' @ [NL]] @
        map (\<lambda>(t, v). report PROC_CONFIG_NAME v t) (zip (split_commas (written_text user)) vs)"
proof -
  have len: "length (procfs_buffer s) = PROCFS_MAX_SIZE" using assms(1) by (simp add: store_inv_def proc_inv_def)
  have "user \<noteq> []" using assms(2) by simp
  then obtain post where post: "user[length user - 1 := NUL] = written_text user @ NUL # post"
    using written_text_split by blast
  define s1 where "s1 = s\<lparr>procfs_buffer_size := word_of_nat (length user),
      procfs_buffer := user[length user - 1 := NUL] @ drop (length user) (procfs_buffer s)\<rparr>"
  have "unat (word_of_nat (length user) :: 64 word) < 2 ^ 31"
    using assms(3) by (simp add: unat_word_of_nat_small PROCFS_MAX_SIZE_def)
  then have inv: "store_inv s1"
    unfolding s1_def using assms(1,3) len by (intro store_inv_buffer) simp_all
  have buf: "procfs_buffer s1 = written_text user @ NUL # post @ drop (length user) (procfs_buffer s)"
    by (simp add: s1_def post [simplified])
  have room: "length (written_text user) + 1 < PROCFS_MAX_SIZE"
    using assms(2,3) cstr_length [of "butlast user"] length_butlast [of user] unfolding written_text_def by linarith
  have "NUL \<notin> set (written_text user)" by (simp add: written_text_def)
  from update_whitelist_run [OF inv buf this room assms(4,5)] show ?thesis
    unfolding procfile_write_copy [OF len assms(2,3)] s1_def [symmetric] by (auto simp: s1_def)
qed

text \<open>
  C10: Writing the proc file replaces the whitelist by what the text says: the text without its last
  byte is split at the commas, the list is cleared and every piece is added in order; the call
  returns the number of bytes written, the file then shows exactly the accepted pieces, and each
  piece is reported. This holds whatever the old list was, for a text of 1 to 4095 bytes whose pieces
  are shorter than 512 bytes and have closed ip fields (longer pieces overflow the local buffer, and an ip
  field that ends with its piece is read past its end), and with memory for every rule.
\<close>

theorem proc_write_replaces_whitelist:
  assumes "store_inv s" "0 < length user" "length user < PROCFS_MAX_SIZE"
    and "list_all good_piece (split_commas (written_text user))" "length stack = MAX_NEW_CONNECTION_SIZE"
  shows "\<exists>vs s'. procfile_write (\<lambda>_. True) stack user (word_of_nat (length user)) s =
        Inr (int (length user), s') \<and> store_inv s' \<and>
      add_rules (split_commas (written_text user)) [] = (vs, entries s') \<and>
      config_text s' (accepted_text (split_commas (written_text user)) vs) \<and>
      klog s' = klog s @ [PROC_CONFIG_NAME @ '':'' @ [TAB] @ ''[+] Cleared whitelist'' @ [NL]] @
        map (\<lambda>(t, v). report PROC_CONFIG_NAME v t) (zip (split_commas (written_text user)) vs)"
  by (rule procfile_write_rules [OF assms])

theorem proc_write_replaces_whitelist_witness:
  "\<exists>s'. procfile_write (\<lambda>_. True) (replicate 512 NUL) (''/bin/a,/bin/b'' @ [NL]) 14 empty_whitelist = Inr (14, s') \<and>
     entries s' = [(''/bin/a'', [], NO_PORT), (''/bin/b'', [], NO_PORT)]"
proof -
  have w: "written_text (''/bin/a,/bin/b'' @ [NL]) = ''/bin/a,/bin/b''" by code_simp
  have pieces: "split_commas ''/bin/a,/bin/b'' = [''/bin/a'', ''/bin/b'']" by simp
  have "\<not> ip_unterminated ''/bin/a''" "\<not> ip_unterminated ''/bin/b''" by code_simp+
  then have good: "list_all good_piece [''/bin/a'', ''/bin/b'']"
    by (simp add: good_piece_def MAX_NEW_CONNECTION_SIZE_def)
  have "parse_text ''/bin/a'' = Some (''/bin/a'', [], NO_PORT)"
    "parse_text ''/bin/b'' = Some (''/bin/b'', [], NO_PORT)" by code_simp+
  then have rules: "add_rules [''/bin/a'', ''/bin/b''] [] =
      ([WHITELISTED, WHITELISTED], [(''/bin/a'', [], NO_PORT), (''/bin/b'', [], NO_PORT)])"
    by (simp add: add_rule_def MAX_WHITELIST_SIZE_def)
  show ?thesis
    using proc_write_replaces_whitelist [OF empty_whitelist_inv(1), of "''/bin/a,/bin/b'' @ [NL]" "replicate 512 NUL"]
    unfolding w pieces rules using good by (auto simp: PROCFS_MAX_SIZE_def MAX_NEW_CONNECTION_SIZE_def)
qed

lemma config_text_cstr: "config_text s u \<Longrightarrow> cstr (procfs_buffer s) = u \<and> NUL \<in> set (procfs_buffer s)"
proof -
  assume c: "config_text s u"
  then have len: "length u < length (procfs_buffer s)" by (simp add: config_text_def)
  from c have "procfs_buffer s = u @ procfs_buffer s ! length u # drop (Suc (length u)) (procfs_buffer s)"
    by (metis config_text_def id_take_nth_drop)
  then have "procfs_buffer s = u @ NUL # drop (Suc (length u)) (procfs_buffer s)"
    using c by (simp add: config_text_def)
  moreover have "cstr (u @ NUL # r) = u" for r
    using c by (simp add: cstr_append config_text_def)
  ultimately show ?thesis by (metis in_set_conv_decomp)
qed

definition without_comma :: "string \<Rightarrow> string" where
  "without_comma u = (if u \<noteq> [] \<and> last u = CHR '','' then butlast u else u)"

lemma config_text_size:
  assumes "config_text s u" "u \<noteq> []"
  shows "unat (procfs_buffer_size s) = length u"
    "procfs_buffer_size s - 1 = word_of_nat (length u - 1)"
    "unat (word_of_nat (length u - 1) :: 64 word) = length u - 1"
proof -
  have "length u < 2 ^ 64" using assms(1) by (simp add: config_text_def PROCFS_MAX_SIZE_def)
  then show "unat (procfs_buffer_size s) = length u" "unat (word_of_nat (length u - 1) :: 64 word) = length u - 1"
    using assms(1) by (simp_all add: config_text_def unat_word_of_nat_small)
  show "procfs_buffer_size s - 1 = word_of_nat (length u - 1)"
    using assms by (cases u) (simp_all add: config_text_def)
qed

lemma config_text_last:
  assumes "config_text s u" "u \<noteq> []"
  shows "procfs_buffer s ! (length u - 1) = last u" "length u - 1 < length (procfs_buffer s)"
proof -
  have "take (length u) (procfs_buffer s) ! (length u - 1) = last u"
    using assms by (simp add: config_text_def last_conv_nth)
  then show "procfs_buffer s ! (length u - 1) = last u" using assms(2) by simp
  show "length u - 1 < length (procfs_buffer s)"
    using assms(1) unfolding config_text_def by linarith
qed

lemma trim_config_text:
  assumes u: "config_text s u" "u \<noteq> []"
  shows "config_text (s\<lparr>procfs_buffer := (procfs_buffer s)[length u - 1 := NUL],
      procfs_buffer_size := procfs_buffer_size s - 1\<rparr>) (butlast u)"
proof -
  obtain v c where v: "u = v @ [c]" using u(2) by (metis append_butlast_last_id)
  have "take (length v) (procfs_buffer s) = v"
  proof -
    have "take (length v) (take (length u) (procfs_buffer s)) = take (length v) u"
      using u(1) by (simp add: config_text_def)
    then show ?thesis by (simp add: v)
  qed
  with u(1) show ?thesis
    by (simp add: config_text_def v)
qed



text \<open>Reading the proc file from its start again and again, with buffers of the given lengths.\<close>

primrec read_again :: "nat list \<Rightarrow> 'a wl_state_scheme \<Rightarrow> (string list \<times> 'a wl_state_scheme) run" where
  "read_again [] s = Inr ([], s)"
| "read_again (n # ns) s =
     run_bind (procfile_read 0 n s) (\<lambda>(_, txt, s). run_bind (read_again ns s) (\<lambda>(txts, s). Inr (txt # txts, s)))"

lemma read_again_small:
  assumes "\<forall>n \<in> set ns. n < unat (procfs_buffer_size s)"
  shows "\<exists>l. read_again ns s = Inr (replicate (length ns) [], s\<lparr>klog := l\<rparr>)"
  using assms
proof (induction ns arbitrary: s)
  case Nil
  then show ?case by (intro exI [of _ "klog s"]) simp
next
  case (Cons n ns)
  define s1 where "s1 = printk (PROC_CONFIG_NAME @ '': Not large enought buffer to copy the procfs buffer'' @ [NL]) s"
  have "procfile_read 0 n s = Inr (0, [], s1)" using Cons.prems by (simp add: procfile_read_def s1_def)
  moreover obtain l where "read_again ns s1 = Inr (replicate (length ns) [], s1\<lparr>klog := l\<rparr>)"
    using Cons.IH [of s1] Cons.prems by (auto simp: s1_def printk_def)
  ultimately show ?case by (auto simp: s1_def printk_def)
qed

text \<open>
  C40: A write of 4096 bytes or more is refused, but only after the size of the text was overwritten:
  the rules stay in force, yet all further reads whose buffers are smaller than the refused size give
  nothing, however many there are. The first with a larger buffer reads past the end of the text buffer,
  if the refused size was more than 4096.
\<close>

theorem refused_write_breaks_reading:
  assumes "store_inv s" "PROCFS_MAX_SIZE \<le> unat count" "\<forall>n \<in> set ns. n < unat count"
  shows "\<exists>s1 s2. procfile_write k stack user count s = Inr (- ENOSPC, s1) \<and> entries s1 = entries s \<and>
    read_again ns s1 = Inr (replicate (length ns) [], s2) \<and> entries s2 = entries s \<and>
    (PROCFS_MAX_SIZE < unat count \<longrightarrow> procfile_read 0 (unat count + m) s2 = Inl Read_out_of_bounds)"
proof -
  define s1 where "s1 = printk (PROC_CONFIG_NAME @
      '': There is no enought space in the procfs buffer, changes will be ignored'' @ [NL]) (s\<lparr>procfs_buffer_size := count\<rparr>)"
  have refused: "procfile_write k stack user count s = Inr (- ENOSPC, s1)"
    using assms(2) by (simp add: procfile_write_def s1_def)
  have rules: "entries s1 = entries s" by (simp add: s1_def) (simp add: entries_def live_entries_def)
  obtain l where l: "read_again ns s1 = Inr (replicate (length ns) [], s1\<lparr>klog := l\<rparr>)"
    using read_again_small [of ns s1] assms(3) by (auto simp: s1_def printk_def)
  have len: "length (procfs_buffer s) = PROCFS_MAX_SIZE"
    using assms(1) by (simp add: store_inv_def proc_inv_def)
  have "1 \<le> count" using assms(2) by (simp add: word_le_nat_alt PROCFS_MAX_SIZE_def)
  then have "unat (count - 1) = unat count - 1" by (simp add: unat_sub)
  with len have "load (procfs_buffer s) (unat (count - 1)) = Inl Read_out_of_bounds" if "PROCFS_MAX_SIZE < unat count"
    using that by (simp add: load_def)
  then have "PROCFS_MAX_SIZE < unat count \<longrightarrow> procfile_read 0 (unat count + m) (s1\<lparr>klog := l\<rparr>) = Inl Read_out_of_bounds"
    by (simp add: procfile_read_def s1_def printk_def)
  moreover have "entries (s1\<lparr>klog := l\<rparr>) = entries s" using rules by (simp add: entries_def live_entries_def)
  ultimately show ?thesis using refused rules l by blast
qed

theorem refused_write_breaks_reading_witness:
  "\<exists>s1 s2. procfile_write (\<lambda>_. True) [] [] 5000 empty_whitelist = Inr (- ENOSPC, s1) \<and>
     read_again [3072, 100] s1 = Inr ([[], []], s2) \<and> procfile_read 0 5001 s2 = Inl Read_out_of_bounds"
  using refused_write_breaks_reading [OF empty_whitelist_inv(1), of 5000 "[3072, 100]" "\<lambda>_. True" "[]" "[]" 1]
  by (auto simp: PROCFS_MAX_SIZE_def simp del: read_again.simps)

text \<open>
  The last byte of an empty text is the byte before the buffer: a write of no bytes stores a
  NUL there, and a read while no rule is in the text reads it.
\<close>

theorem empty_text_out_of_bounds:
  assumes "store_inv s"
  shows "procfile_write k stack user 0 s = Inl Write_out_of_bounds \<and>
    (procfs_buffer_size s = 0 \<longrightarrow> procfile_read 0 buffer_length s = Inl Read_out_of_bounds)"
proof -
  have len: "length (procfs_buffer s) = PROCFS_MAX_SIZE"
    using assms by (simp add: store_inv_def proc_inv_def)
  have "unat (0 - 1 :: 64 word) = 2 ^ 64 - 1"
    by (simp add: unsigned_minus_1_eq_mask mask_eq_exp_minus_1)
  then show ?thesis
    using len by (simp add: procfile_write_def procfile_read_def load_def store_def blit_def PROCFS_MAX_SIZE_def)
qed

theorem empty_text_out_of_bounds_witness:
  "procfile_write (\<lambda>_. True) [] [] 0 empty_whitelist = Inl Write_out_of_bounds \<and>
     procfile_read 0 3072 empty_whitelist = Inl Read_out_of_bounds"
  using empty_text_out_of_bounds [OF empty_whitelist_inv(1), of "\<lambda>_. True" "[]" "[]" 3072]
  by (simp add: empty_whitelist_def)

lemma update_loop_overflow:
  assumes "temp = pre @ acc @ w @ c # r" "c = CHR '','' \<or> c = NUL" "NUL \<notin> set w" "CHR '','' \<notin> set w"
    and "length n = MAX_NEW_CONNECTION_SIZE" "MAX_NEW_CONNECTION_SIZE \<le> length (acc @ w)"
  shows "update_loop k temp (length pre + length acc) (length pre) (length acc) n s = Inl Write_out_of_bounds"
  using assms
proof (induction w arbitrary: acc)
  case Nil
  then have "blit n 0 (take (Suc (length acc)) (drop (length pre) temp)) = Inl Write_out_of_bounds"
    by (simp add: blit_def)
  with Nil show ?case by (subst update_loop.simps) (simp add: load_def nth_append)
next
  case (Cons x w)
  then have "update_loop k temp (length pre + length acc) (length pre) (length acc) n s =
      update_loop k temp (length pre + length (acc @ [x])) (length pre) (length (acc @ [x])) n s"
    by (subst update_loop.simps) (auto simp: load_def nth_append)
  with Cons.IH [of "acc @ [x]"] Cons.prems show ?case by simp
qed

text \<open>
  A first piece of 512 bytes or more overflows the 512 bytes of the local buffer: the copy
  writes past its end, whatever the rest of the text and the state of the whitelist are.
\<close>

theorem long_piece_overflows_stack:
  assumes "store_inv s" "length stack = MAX_NEW_CONNECTION_SIZE"
    and "length user < PROCFS_MAX_SIZE" "MAX_NEW_CONNECTION_SIZE \<le> length (hd (split_commas (written_text user)))"
  shows "procfile_write k stack user (word_of_nat (length user)) s = Inl Write_out_of_bounds"
proof -
  have len: "length (procfs_buffer s) = PROCFS_MAX_SIZE"
    using assms(1) by (simp add: store_inv_def proc_inv_def)
  have "user \<noteq> []" using assms(4) by (auto simp: written_text_def MAX_NEW_CONNECTION_SIZE_def)
  then obtain post where post: "user[length user - 1 := NUL] = written_text user @ NUL # post"
    using written_text_split by blast
  define s1 where "s1 = s\<lparr>procfs_buffer_size := word_of_nat (length user),
      procfs_buffer := user[length user - 1 := NUL] @ drop (length user) (procfs_buffer s)\<rparr>"
  have buf: "procfs_buffer s1 = written_text user @ NUL # post @ drop (length user) (procfs_buffer s)"
    by (simp add: s1_def post [simplified])
  have "\<exists>c r. w @ NUL # z = hd (split_commas w) @ c # r \<and> (c = CHR '','' \<or> c = NUL) \<and>
      CHR '','' \<notin> set (hd (split_commas w))" for w z
    by (induction w) auto
  then obtain c r where c: "procfs_buffer s1 = hd (split_commas (written_text user)) @ c # r"
    "c = CHR '','' \<or> c = NUL" "CHR '','' \<notin> set (hd (split_commas (written_text user)))"
    unfolding buf by blast
  have "NUL \<notin> set (hd (split_commas (written_text user)))"
    using split_commas_chars [of "hd (split_commas (written_text user))" "written_text user"]
    by (auto simp: written_text_def)
  then have over: "update_loop k (procfs_buffer s1) 0 0 0 stack s2 = Inl Write_out_of_bounds"
    for s2 :: "'a wl_state_scheme"
    using update_loop_overflow [of "procfs_buffer s1" "[]" "[]" _ c r stack k s2] c assms(2,4) by simp
  have "unat (word_of_nat (length user) :: 64 word) < 2 ^ 31"
    using assms(3) by (simp add: unat_word_of_nat_small PROCFS_MAX_SIZE_def)
  then have "store_inv s1"
    unfolding s1_def using assms(1,3) len by (intro store_inv_buffer) simp_all
  then have "store_inv (initialize_procfs_buffer s1)"
    using config_text_of_init [of s1] by (simp add: store_inv_def proc_inv_def)
  then have "update_whitelist k stack s1 = Inl Write_out_of_bounds"
    using destroy_whitelist_refines [of "initialize_procfs_buffer s1"] over
    by (auto simp: update_whitelist_def)
  with procfile_write_copy [OF len _ assms(3), of k stack] \<open>user \<noteq> []\<close> show ?thesis
    by (simp add: s1_def [simplified])
qed

lemma butlast_replicate_Suc: "butlast (replicate (Suc n) x) = replicate n x"
  by (induction n) auto

theorem long_piece_overflows_stack_witness:
  "\<exists>stack user. length stack = 512 \<and> length user = 513 \<and>
     procfile_write (\<lambda>_. True) stack user 513 empty_whitelist = Inl Write_out_of_bounds"
proof -
  obtain n where n: "n = (512 :: nat)" by simp
  have "written_text (replicate (Suc n) (CHR ''a'')) = replicate n (CHR ''a'')"
    unfolding written_text_def butlast_replicate_Suc by (rule cstr_id) simp
  moreover have "split_commas (replicate n (CHR ''a'')) = [replicate n (CHR ''a'')]"
    by (rule split_commas_single) simp
  ultimately have "procfile_write (\<lambda>_. True) (replicate n NUL) (replicate (Suc n) (CHR ''a''))
      (word_of_nat (length (replicate (Suc n) (CHR ''a'')))) empty_whitelist = Inl Write_out_of_bounds"
    using n by (intro long_piece_overflows_stack [OF empty_whitelist_inv(1)])
      (auto simp: MAX_NEW_CONNECTION_SIZE_def PROCFS_MAX_SIZE_def)
  moreover have "length (replicate n NUL) = 512" "length (replicate (Suc n) (CHR ''a'')) = 513"
    using n by auto
  ultimately show ?thesis by (metis of_nat_numeral)
qed

section \<open>The rest of the state\<close>

text \<open>No operation of the whitelist or its proc file touches the fields that extend its record.\<close>

lemma more_printk [simp]: "wl_state.more (printk x s) = wl_state.more s"
  by (simp add: printk_def)

lemma more_initialize [simp]: "wl_state.more (initialize_procfs_buffer s) = wl_state.more s"
  by (simp add: initialize_procfs_buffer_def)

lemma more_add_text:
  "add_connection_string_to_proc_config cs s = Inr s' \<Longrightarrow> wl_state.more s' = wl_state.more s"
  by (auto simp: add_connection_string_to_proc_config_def run_bind_eq_Inr split: option.splits)

lemma more_whitelist: "whitelist k cs s = Inr (v, s') \<Longrightarrow> wl_state.more s' = wl_state.more s"
  by (auto simp: whitelist_def run_bind_eq_Inr Let_def dest!: more_add_text split: if_splits)

lemma more_report: "whitelist_and_report who k b s = Inr (v, s') \<Longrightarrow> wl_state.more s' = wl_state.more s"
  by (auto simp: whitelist_and_report_def run_bind_eq_Inr dest!: more_whitelist)

lemma more_destroy_whitelist: "destroy_whitelist s = Inr s' \<Longrightarrow> wl_state.more s' = wl_state.more s"
  by (auto simp: destroy_whitelist_def run_bind_eq_Inr)

lemma more_update_loop: "update_loop k temp i start len n s = Inr s' \<Longrightarrow> wl_state.more s' = wl_state.more s"
proof (induction k temp i start len n s rule: update_loop.induct)
  case (1 k temp i start len n s)
  note run = "1.prems" [unfolded update_loop.simps [of k temp i start len n s]]
  then obtain c where c: "load temp i = Inr c"
    by (auto simp: run_bind_eq_Inr)
  show ?case
  proof (cases "c = CHR '','' \<or> c = NUL")
    case True
    from c run True obtain b where b: "blit n 0 (take (Suc len) (drop start temp)) = Inr b"
      and run1: "run_bind (store b len NUL) (\<lambda>b.
        run_bind (whitelist_and_report PROC_CONFIG_NAME (k i) b s) (\<lambda>(err, s).
        if c = NUL then Inr s else update_loop k temp (Suc i) (start + Suc len) 0 b s)) = Inr s'"
      by (auto simp: run_bind_eq_Inr simp del: add_Suc_right)
    from run1 obtain b' where b': "store b len NUL = Inr b'"
      and run2: "run_bind (whitelist_and_report PROC_CONFIG_NAME (k i) b' s) (\<lambda>(err, s).
        if c = NUL then Inr s else update_loop k temp (Suc i) (start + Suc len) 0 b' s) = Inr s'"
      by (auto simp: run_bind_eq_Inr [of "store b len NUL"] simp del: add_Suc_right)
    from run2 obtain v s1 where s1: "whitelist_and_report PROC_CONFIG_NAME (k i) b' s = Inr (v, s1)"
      "(if c = NUL then Inr s1 else update_loop k temp (Suc i) (start + Suc len) 0 b' s1) = Inr s'"
      by (auto simp: run_bind_eq_Inr simp del: add_Suc_right)
    show ?thesis
    proof (cases "c = NUL")
      case True
      with s1 show ?thesis by (auto dest: more_report)
    next
      case False
      have "wl_state.more s' = wl_state.more s1"
        by (rule "1.IH"(1) [OF c True b b' s1(1) refl False]) (use s1(2) False in simp)
      with s1(1) show ?thesis by (auto dest: more_report)
    qed
  next
    case False
    with run c have "update_loop k temp (Suc i) start (Suc len) n s = Inr s'"
      by simp
    with "1.IH"(2) [OF c False] show ?thesis by blast
  qed
qed

lemma more_update_whitelist: "update_whitelist k stack s = Inr s' \<Longrightarrow> wl_state.more s' = wl_state.more s"
  by (auto simp: update_whitelist_def run_bind_eq_Inr Let_def
      dest!: more_destroy_whitelist more_update_loop)

lemma more_procfile_write: "procfile_write k stack user n s = Inr (v, s') \<Longrightarrow> wl_state.more s' = wl_state.more s"
  by (auto simp: procfile_write_def run_bind_eq_Inr Let_def dest!: more_update_whitelist split: if_splits)

lemmas more_frames = more_whitelist more_report more_destroy_whitelist more_update_whitelist more_procfile_write

end
