(* ===== verification/Probes.thy ===== *)
theory Probes imports Inet_Utils Proc_Config begin

text \<open>
  The probes of netlog and the life of the module (netlog/src/probes.c): the handlers that run
  before or after connect, accept, close and bind, the planting and unplanting of the probes, and
  the whitelisting of the module's parameters. The compile-time switch PROBE_UDP is an argument;
  PROBE_CONNECTION_CLOSE and WHITELISTING are on, as in netlog.h.

  Sockets are kernel objects: mem gives the socket at an address, sockfd_lookup the address behind
  a file descriptor. current is the running task, None when the code's NULL check would see NULL.
\<close>

definition MODULE_NAME :: string where "MODULE_NAME = ''netlog''"
definition PID_MAX_LIMIT :: nat where "PID_MAX_LIMIT = 4194304"
definition CONNECT_PROBE_FAILED :: int where "CONNECT_PROBE_FAILED = 1"
definition ACCEPT_PROBE_FAILED :: int where "ACCEPT_PROBE_FAILED = 2"
definition CLOSE_PROBE_FAILED :: int where "CLOSE_PROBE_FAILED = 3"
definition BIND_PROBE_FAILED :: int where "BIND_PROBE_FAILED = 4"

datatype probe = connect_jprobe | connect_kretprobe | accept_kretprobe | tcp_close_jprobe | bind_jprobe

text \<open>The probes in the order in which they are planted.\<close>

instantiation probe :: enum
begin

definition enum_probe :: "probe list" where
  "enum_probe = [connect_jprobe, connect_kretprobe, accept_kretprobe, tcp_close_jprobe, bind_jprobe]"

definition enum_all_probe :: "(probe \<Rightarrow> bool) \<Rightarrow> bool" where
  "enum_all_probe P \<longleftrightarrow> list_all P enum_class.enum"

definition enum_ex_probe :: "(probe \<Rightarrow> bool) \<Rightarrow> bool" where
  "enum_ex_probe P \<longleftrightarrow> list_ex P enum_class.enum"

instance
proof
  show u: "(UNIV :: probe set) = set enum_class.enum"
    by (auto simp: enum_probe_def intro: probe.exhaust)
  show "distinct (enum_class.enum :: probe list)" by (simp add: enum_probe_def)
  show "enum_class.enum_all P \<longleftrightarrow> Ball UNIV P" for P :: "probe \<Rightarrow> bool"
    unfolding u by (simp add: enum_all_probe_def list_all_iff)
  show "enum_class.enum_ex P \<longleftrightarrow> Bex UNIV P" for P :: "probe \<Rightarrow> bool"
    unfolding u by (simp add: enum_ex_probe_def list_ex_iff)
qed

end

text \<open>
  The function of the kernel that each probe is planted on: sys_accept became sys_accept4 in
  kernel 2.6.32.
\<close>

primrec symbol_name :: "bool \<Rightarrow> probe \<Rightarrow> string" where
  "symbol_name old_kernel connect_jprobe = ''inet_stream_connect''"
| "symbol_name old_kernel connect_kretprobe = ''inet_stream_connect''"
| "symbol_name old_kernel accept_kretprobe = (if old_kernel then ''sys_accept'' else ''sys_accept4'')"
| "symbol_name old_kernel tcp_close_jprobe = ''sys_close''"
| "symbol_name old_kernel bind_jprobe = ''sys_bind''"

record netlog_state = wl_state +
  absolute_path_mode :: bool
  match_socket :: "nat \<Rightarrow> nat option"
  bufs :: inet_bufs
  sock_refs :: "nat \<Rightarrow> int"
  planted :: "probe set"

section \<open>The lines of the log\<close>

text \<open>The conversion %s of printk, which prints a NULL pointer as (null).\<close>

definition fmt_s :: "string option \<Rightarrow> string" where
  "fmt_s s = (case s of None \<Rightarrow> ''(null)'' | Some t \<Rightarrow> t)"

definition connection_line ::
  "string \<Rightarrow> string \<Rightarrow> string option \<Rightarrow> nat \<Rightarrow> string option \<Rightarrow> 32 word \<Rightarrow> string option \<Rightarrow> 32 word \<Rightarrow> int \<Rightarrow> string" where
  "connection_line proto arrow name p sip sport dip dport u =
     MODULE_NAME @ '': '' @ fmt_s name @ ''['' @ fmt_d (int p) @ ''] '' @ proto @ '' '' @
     fmt_s sip @ '':'' @ fmt_d (sint sport) @ '' '' @ arrow @ '' '' @
     fmt_s dip @ '':'' @ fmt_d (sint dport) @ '' (uid='' @ fmt_d u @ '')'' @ [NL]"

definition task_name :: "(nat \<Rightarrow> nat \<Rightarrow> string option) \<Rightarrow> bool \<Rightarrow> task_struct \<Rightarrow> string option" where
  "task_name d_path abs_mode t =
     (if \<not> abs_mode then Some (comm t) else exe_from_mm d_path (mm t) (MAX_ABSOLUTE_EXEC_PATH + 1))"

text \<open>
  The printk of a connection. dip is the pointer that get_destination_ip returned: what it points
  to is read only here.
\<close>

definition log_connection ::
  "(nat \<Rightarrow> nat \<Rightarrow> string option) \<Rightarrow> string \<Rightarrow> string \<Rightarrow> task_struct \<Rightarrow> socket option \<Rightarrow> ip_buf option \<Rightarrow>
   32 word \<Rightarrow> netlog_state \<Rightarrow> netlog_state" where
  "log_connection d_path proto arrow t sock dip dport s =
     (let (sip, b) = get_source_ip sock (bufs s); s = s\<lparr>bufs := b\<rparr>
      in printk (connection_line proto arrow (task_name d_path (absolute_path_mode s) t) (pid t)
           (map_option b sip) (get_source_port sock) (map_option b dip) dport (uid t)) s)"

text \<open>The whitelist test and the printk that follows it.\<close>

definition report_connection ::
  "(nat \<Rightarrow> nat \<Rightarrow> string option) \<Rightarrow> string \<Rightarrow> string \<Rightarrow> task_struct \<Rightarrow> socket option \<Rightarrow> ip_buf option \<Rightarrow>
   32 word \<Rightarrow> netlog_state \<Rightarrow> netlog_state run" where
  "report_connection d_path proto arrow t sock dip dport s =
     run_bind (is_whitelisted d_path (Some t) (map_option (bufs s) dip) dport s)
       (\<lambda>w. Inr (if w \<noteq> 0 then s else log_connection d_path proto arrow t sock dip dport s))"

section \<open>The handlers\<close>

definition set_match_socket :: "nat \<Rightarrow> nat option \<Rightarrow> netlog_state \<Rightarrow> netlog_state run" where
  "set_match_socket p a s =
     (if p < PID_MAX_LIMIT then Inr (s\<lparr>match_socket := (match_socket s)(p := a)\<rparr>)
      else Inl Write_out_of_bounds)"

definition netlog_inet_stream_connect ::
  "task_struct option \<Rightarrow> nat option \<Rightarrow> netlog_state \<Rightarrow> netlog_state run" where
  "netlog_inet_stream_connect current sock s =
     (case current of None \<Rightarrow> Inr s | Some t \<Rightarrow> set_match_socket (pid t) sock s)"

text \<open>The first half of post_connect ends with the two reads of the destination.\<close>

definition post_connect_lookup ::
  "(nat \<Rightarrow> socket) \<Rightarrow> task_struct \<Rightarrow> netlog_state \<Rightarrow>
   ((socket option \<times> ip_buf option \<times> 32 word) option \<times> netlog_state) run" where
  "post_connect_lookup mem t s =
     (if \<not> pid t < PID_MAX_LIMIT then Inl Read_out_of_bounds
      else
        let sock = map_option mem (match_socket s (pid t)) in
        if \<not> is_tcp sock \<or> \<not> is_inet sock then Inr (None, s)
        else
          let (dip, b) = get_destination_ip sock (bufs s)
          in Inr (Some (sock, dip, get_destination_port sock), s\<lparr>bufs := b\<rparr>))"

definition post_connect_report ::
  "(nat \<Rightarrow> nat \<Rightarrow> string option) \<Rightarrow> task_struct \<Rightarrow> (socket option \<times> ip_buf option \<times> 32 word) option \<Rightarrow>
   netlog_state \<Rightarrow> netlog_state run" where
  "post_connect_report d_path t r s =
     run_bind (case r of None \<Rightarrow> Inr s
               | Some (sock, dip, dport) \<Rightarrow> report_connection d_path ''TCP'' ''->'' t sock dip dport s)
       (set_match_socket (pid t) None)"

definition post_connect ::
  "(nat \<Rightarrow> nat \<Rightarrow> string option) \<Rightarrow> (nat \<Rightarrow> socket) \<Rightarrow> task_struct option \<Rightarrow> netlog_state \<Rightarrow> netlog_state run" where
  "post_connect d_path mem current s =
     (case current of
        None \<Rightarrow> Inl Null_dereference
      | Some t \<Rightarrow>
          run_bind (post_connect_lookup mem t s) (\<lambda>(r, s). post_connect_report d_path t r s))"

definition sockfd_get :: "nat option \<Rightarrow> netlog_state \<Rightarrow> netlog_state" where
  "sockfd_get a s = (case a of None \<Rightarrow> s | Some x \<Rightarrow> s\<lparr>sock_refs := (sock_refs s)(x := sock_refs s x + 1)\<rparr>)"

definition sockfd_put :: "nat option \<Rightarrow> netlog_state \<Rightarrow> netlog_state" where
  "sockfd_put a s = (case a of None \<Rightarrow> s | Some x \<Rightarrow> s\<lparr>sock_refs := (sock_refs s)(x := sock_refs s x - 1)\<rparr>)"

definition post_accept ::
  "(nat \<Rightarrow> nat \<Rightarrow> string option) \<Rightarrow> (nat \<Rightarrow> socket) \<Rightarrow> (int \<Rightarrow> nat option) \<Rightarrow> task_struct option \<Rightarrow> int \<Rightarrow>
   netlog_state \<Rightarrow> netlog_state run" where
  "post_accept d_path mem sockfd_lookup current return_value s =
     (let a = sockfd_lookup return_value; sock = map_option mem a; s = sockfd_get a s in
      run_bind
        (if \<not> is_tcp sock \<or> \<not> is_inet sock then Inr s
         else case current of
                None \<Rightarrow> Inr s
              | Some t \<Rightarrow>
                  let (dip, b) = get_destination_ip sock (bufs s)
                  in report_connection d_path ''TCP'' ''<-'' t sock dip (get_destination_port sock) (s\<lparr>bufs := b\<rparr>))
        (\<lambda>s. Inr (sockfd_put a s)))"

definition report_close ::
  "bool \<Rightarrow> (nat \<Rightarrow> nat \<Rightarrow> string option) \<Rightarrow> task_struct \<Rightarrow> socket option \<Rightarrow> ip_buf option \<Rightarrow> 32 word \<Rightarrow>
   netlog_state \<Rightarrow> netlog_state run" where
  "report_close probe_udp d_path t sock dip dport s =
     run_bind (is_whitelisted d_path (Some t) (map_option (bufs s) dip) dport s)
       (\<lambda>w. Inr
          (if w \<noteq> 0 then s
           else if is_tcp sock \<and> get_destination_port sock \<noteq> 0
           then log_connection d_path ''TCP'' ''<->'' t sock dip dport s
           else if probe_udp \<and> is_udp sock \<and> is_inet sock
           then log_connection d_path ''UDP'' ''<->'' t sock dip dport s
           else s))"

definition netlog_sys_close ::
  "bool \<Rightarrow> (nat \<Rightarrow> nat \<Rightarrow> string option) \<Rightarrow> (nat \<Rightarrow> socket) \<Rightarrow> (int \<Rightarrow> nat option) \<Rightarrow> task_struct option \<Rightarrow> int \<Rightarrow>
   netlog_state \<Rightarrow> netlog_state run" where
  "netlog_sys_close probe_udp d_path mem sockfd_lookup current fd s =
     (let a = sockfd_lookup fd; sock = map_option mem a; s = sockfd_get a s in
      run_bind
        (if \<not> is_inet sock then Inr s
         else case current of
                None \<Rightarrow> Inr s
              | Some t \<Rightarrow>
                  let (dip, b) = get_destination_ip sock (bufs s)
                  in report_close probe_udp d_path t sock dip (get_destination_port sock) (s\<lparr>bufs := b\<rparr>))
        (\<lambda>s. Inr (sockfd_put a s)))"

definition bind_line :: "string option \<Rightarrow> nat \<Rightarrow> string option \<Rightarrow> 16 word \<Rightarrow> int \<Rightarrow> string" where
  "bind_line name p dip prt u =
     MODULE_NAME @ '': '' @ fmt_s name @ ''['' @ fmt_d (int p) @ ''] UDP bind '' @
     (if any_ip_address dip then ''(any IP address)'' else fmt_s dip) @ '':'' @ fmt_d (uint (ntohs prt)) @
     '' (uid='' @ fmt_d u @ '')'' @ [NL]"

definition netlog_sys_bind ::
  "(nat \<Rightarrow> nat \<Rightarrow> string option) \<Rightarrow> (nat \<Rightarrow> socket) \<Rightarrow> (int \<Rightarrow> nat option) \<Rightarrow> task_struct option \<Rightarrow> int \<Rightarrow>
   sockaddr option \<Rightarrow> netlog_state \<Rightarrow> netlog_state run" where
  "netlog_sys_bind d_path mem sockfd_lookup current sockfd addr s =
     (let a = sockfd_lookup sockfd; sock = map_option mem a; s = sockfd_get a s in
      run_bind
        (if \<not> is_inet sock \<or> \<not> is_udp sock then Inr s
         else case current of
                None \<Rightarrow> Inr s
              | Some t \<Rightarrow>
                  let (p, b) = get_ip addr (bufs s); s = s\<lparr>bufs := b\<rparr>
                  in run_bind (is_whitelisted d_path (Some t) (map_option b p) NO_PORT s)
                       (\<lambda>w. if w \<noteq> 0 then Inr s
                            else case addr of
                                   None \<Rightarrow> Inl Null_dereference
                                 | Some ad \<Rightarrow>
                                     Inr (printk (bind_line (task_name d_path (absolute_path_mode s) t) (pid t)
                                       (map_option b p) (sin_port ad) (uid t)) s)))
        (\<lambda>s. Inr (sockfd_put a s)))"

definition signal_that_will_cause_exit :: "int \<Rightarrow> bool" where
  "signal_that_will_cause_exit trap_number \<longleftrightarrow> trap_number = 6 \<or> trap_number = 11 \<or> trap_number = 3"

definition handler_fault :: "int \<Rightarrow> netlog_state \<Rightarrow> int \<times> netlog_state" where
  "handler_fault trap_number s =
     (0, if signal_that_will_cause_exit trap_number
         then printk (MODULE_NAME @ '': fault handler: Detected fault '' @ fmt_d trap_number @
                '' from inside probes.'') s
         else s)"

section \<open>Planting the probes\<close>

definition unregister_probe :: "probe \<Rightarrow> string \<Rightarrow> netlog_state \<Rightarrow> netlog_state" where
  "unregister_probe p what s =
     printk (MODULE_NAME @ '':'' @ [TAB] @ ''[+] Unplanted '' @ what @ '' probe'' @ [NL])
       (s\<lparr>planted := planted s - {p}\<rparr>)"

definition unplant_all :: "bool \<Rightarrow> netlog_state \<Rightarrow> netlog_state" where
  "unplant_all probe_udp s =
     (let s = unregister_probe connect_jprobe ''connect pre handler'' s;
          s = unregister_probe connect_kretprobe ''connect post handler'' s;
          s = unregister_probe accept_kretprobe ''accept post handler'' s;
          s = unregister_probe tcp_close_jprobe ''close pre handler'' s
      in if probe_udp then unregister_probe bind_jprobe ''bind pre handler'' s else s)"

text \<open>
  One registration of plant_all, with what follows it when it succeeds. register is the kernel's
  answer for each probe.
\<close>

definition plant ::
  "bool \<Rightarrow> (probe \<Rightarrow> int) \<Rightarrow> probe \<Rightarrow> string \<Rightarrow> int \<Rightarrow> (netlog_state \<Rightarrow> int \<times> netlog_state) \<Rightarrow>
   netlog_state \<Rightarrow> int \<times> netlog_state" where
  "plant probe_udp register p what code rest s =
     (if register p < 0
      then (- code, unplant_all probe_udp
              (printk (MODULE_NAME @ '':'' @ [TAB] @ ''[-] Failed to plant '' @ what @ [NL]) s))
      else rest (printk (MODULE_NAME @ '':'' @ [TAB] @ ''[+] Planted '' @ what @ [NL])
                   (s\<lparr>planted := insert p (planted s)\<rparr>)))"

definition plant_all :: "bool \<Rightarrow> (probe \<Rightarrow> int) \<Rightarrow> netlog_state \<Rightarrow> int \<times> netlog_state" where
  "plant_all probe_udp register =
     plant probe_udp register connect_jprobe ''connect pre handler'' CONNECT_PROBE_FAILED
     (plant probe_udp register connect_kretprobe ''connect post handler'' CONNECT_PROBE_FAILED
     (plant probe_udp register accept_kretprobe ''accept post handler'' ACCEPT_PROBE_FAILED
     (plant probe_udp register tcp_close_jprobe ''close pre handler'' CLOSE_PROBE_FAILED
       (if probe_udp
        then plant probe_udp register bind_jprobe ''bind pre handler'' BIND_PROBE_FAILED (\<lambda>s. (0, s))
        else (\<lambda>s. (0, s))))))"

section \<open>The life of the module\<close>

fun whitelist_parameters ::
  "(nat \<Rightarrow> bool) \<Rightarrow> nat \<Rightarrow> char list list \<Rightarrow> netlog_state \<Rightarrow> netlog_state run" where
  "whitelist_parameters kmalloc_ok i [] s = Inr s"
| "whitelist_parameters kmalloc_ok i (b # bs) s =
     run_bind (whitelist_and_report MODULE_NAME (kmalloc_ok i) b s)
       (\<lambda>(err, s). whitelist_parameters kmalloc_ok (Suc i) bs s)"

definition do_whitelist :: "(nat \<Rightarrow> bool) \<Rightarrow> char list list \<Rightarrow> netlog_state \<Rightarrow> netlog_state run" where
  "do_whitelist kmalloc_ok connections_to_whitelist s =
     (let n = length connections_to_whitelist;
          s = (if MAX_WHITELIST_SIZE < n
               then printk (MODULE_NAME @ '':'' @ [TAB] @ ''[-] Cannot whitelist more than '' @
                      fmt_d (int MAX_WHITELIST_SIZE) @ '' connections. The '' @ fmt_d (int (n - MAX_WHITELIST_SIZE)) @
                      '' last parameters paths will be ignored. '' @ replicate 5 TAB @
                      ''Please change MAX_WHITELIST_SIZE definition in netlog.h and recompile, or contact '' @
                      replicate 5 TAB @ ''CERN-CERT <cert@cern.ch>'' @ [NL]) s
               else s)
      in whitelist_parameters kmalloc_ok 0 (take MAX_WHITELIST_SIZE connections_to_whitelist) s)"

definition announce_proc_config :: "int \<Rightarrow> netlog_state \<Rightarrow> netlog_state" where
  "announce_proc_config err s =
     (if err < 0
      then printk (MODULE_NAME @ '':'' @ [TAB] @
        ''[-] Creation of proc file for configuring connection whitelisting failed'' @ [NL]) s
      else printk (MODULE_NAME @ '':'' @ [TAB] @ ''[+] Created '' @ PROC_CONFIG_NAME @
        '' proc file for configuring connection whitelisting'' @ [NL]) s)"

definition announce_mode :: "netlog_state \<Rightarrow> netlog_state" where
  "announce_mode s =
     printk (MODULE_NAME @ '':'' @ [TAB] @ ''[+] Deployed'' @ [NL])
       (if absolute_path_mode s
        then printk (MODULE_NAME @ '':'' @ [TAB] @
          ''[+] Absolute path mode is enabled. The logs will contain the absolute execution path'' @ [NL]) s
        else printk (MODULE_NAME @ '':'' @ [TAB] @
          ''[-] Absolute path mode is disabled. The logs will contain the process name'' @ [NL]) s)"

definition plant_probes ::
  "bool \<Rightarrow> (probe \<Rightarrow> int) \<Rightarrow> bool \<Rightarrow> (nat \<Rightarrow> bool) \<Rightarrow> char list list \<Rightarrow> netlog_state \<Rightarrow> (int \<times> netlog_state) run" where
  "plant_probes probe_udp register create_ok kmalloc_ok connections_to_whitelist s =
     (let s = printk (MODULE_NAME @ '': Light monitoring tool for inet connections by CERN Security Team'' @ [NL]) s;
          (err, s) = plant_all probe_udp register s
      in if err < 0 then Inr (err, s)
         else
           let (err, s) = create_proc_config create_ok s
           in run_bind (do_whitelist kmalloc_ok connections_to_whitelist (announce_proc_config err s))
                (\<lambda>s. Inr (0, announce_mode s)))"

definition unplant_probes :: "bool \<Rightarrow> netlog_state \<Rightarrow> netlog_state run" where
  "unplant_probes probe_udp s =
     run_bind (destroy_whitelist (unplant_all probe_udp s)) (\<lambda>s. Inr (destroy_proc_config s))"

section \<open>What the handlers leave alone\<close>

named_theorems netlog_frame

lemma store_netlog_fields [simp, netlog_frame]:
  "store_inv (s\<lparr>bufs := b\<rparr>) = store_inv s" "store_inv (s\<lparr>match_socket := m\<rparr>) = store_inv s"
  "store_inv (s\<lparr>sock_refs := r\<rparr>) = store_inv s" "store_inv (s\<lparr>planted := p\<rparr>) = store_inv s"
  "store_inv (s\<lparr>klog := l\<rparr>) = store_inv s"
  by (simp_all add: store_inv_def wl_inv_def live_entries_def proc_inv_def)

lemma entries_netlog_fields [simp, netlog_frame]:
  "entries (s\<lparr>bufs := b\<rparr>) = entries s" "entries (s\<lparr>match_socket := m\<rparr>) = entries s"
  "entries (s\<lparr>sock_refs := r\<rparr>) = entries s" "entries (s\<lparr>planted := p\<rparr>) = entries s"
  "entries (s\<lparr>klog := l\<rparr>) = entries s"
  by (simp_all add: entries_def live_entries_def)

section \<open>What a handler reports of a socket\<close>

definition source_text :: "sock \<Rightarrow> string option" where
  "source_text k =
     (if sk_family k = AF_INET then Some (format_ipv4 (inet_saddr k))
      else if sk_family k = AF_INET6 then Some (format_ipv6 (saddr6 k)) else None)"

definition destination_text :: "sock \<Rightarrow> string option" where
  "destination_text k =
     (if sk_family k = AF_INET then Some (format_ipv4 (inet_daddr k))
      else if sk_family k = AF_INET6 then Some (format_ipv6 (daddr6 k)) else None)"

definition source_port :: "sock \<Rightarrow> 32 word" where
  "source_port k = ucast (ntohs (inet_sport k))"

definition destination_port :: "sock \<Rightarrow> 32 word" where
  "destination_port k = ucast (ntohs (inet_dport k))"

definition line_of ::
  "(nat \<Rightarrow> nat \<Rightarrow> string option) \<Rightarrow> bool \<Rightarrow> string \<Rightarrow> string \<Rightarrow> task_struct \<Rightarrow> sock \<Rightarrow> string" where
  "line_of d_path abs_mode proto arrow t k =
     connection_line proto arrow (task_name d_path abs_mode t) (pid t) (source_text k) (source_port k)
       (destination_text k) (destination_port k) (uid t)"

text \<open>The rules of the whitelist cover a connection of the task t to the peer of k.\<close>

definition covered ::
  "(nat \<Rightarrow> nat \<Rightarrow> string option) \<Rightarrow> rule list \<Rightarrow> task_struct \<Rightarrow> string option \<Rightarrow> 32 word \<Rightarrow> bool" where
  "covered d_path rs t a n =
     (case (task_path d_path t, a) of
        (Some p, Some i) \<Rightarrow> list_ex (\<lambda>r. attrs_match r (p, i, n)) rs
      | _ \<Rightarrow> False)"

lemma is_whitelisted_covered:
  assumes "store_inv s" "\<And>i. a = Some i \<Longrightarrow> NUL \<notin> set i"
  shows "is_whitelisted d_path (Some t) a n s =
    Inr (if covered d_path (entries s) t a n then WHITELISTED else NOT_WHITELISTED)"
  using assms
  by (cases a) (auto simp: store_inv_def is_whitelisted_run is_whitelisted_no_ip covered_def
      split: option.splits)

lemma destination_text_no_nul: "destination_text k = Some i \<Longrightarrow> NUL \<notin> set i"
  by (auto simp: destination_text_def format_ipv4_no_nul format_ipv6_no_nul split: if_splits)

lemma get_destination_ip_text:
  assumes "sk so = Some k" "get_destination_ip (Some so) b = (dip, b')"
  shows "map_option b' dip = destination_text k"
    "get_source_ip (Some so) b' = (sip, b'') \<Longrightarrow> map_option b'' dip = destination_text k"
    "get_source_ip (Some so) b' = (sip, b'') \<Longrightarrow> map_option b'' sip = source_text k"
  using assms
  by (auto simp: get_destination_ip_def get_destination_ip_sk_def get_source_ip_def get_source_ip_sk_def
      destination_text_def source_text_def split: if_splits)

lemma ports:
  "sk so = Some k \<Longrightarrow> get_source_port (Some so) = source_port k"
  "sk so = Some k \<Longrightarrow> get_destination_port (Some so) = destination_port k"
  by (simp_all add: get_source_port_def get_destination_port_def source_port_def destination_port_def)

lemma log_connection_run:
  assumes "sk so = Some k" "map_option (bufs s) dip = destination_text k"
    and "get_destination_ip (Some so) b0 = (dip, bufs s)"
  shows "\<exists>b. log_connection d_path proto arrow t (Some so) dip (destination_port k) s =
    s\<lparr>bufs := b, klog := klog s @ [line_of d_path (absolute_path_mode s) proto arrow t k]\<rparr>"
proof -
  obtain sip b where b: "get_source_ip (Some so) (bufs s) = (sip, b)" by fastforce
  from get_destination_ip_text(2,3) [OF assms(1,3) b] b assms(1) show ?thesis
    by (intro exI [of _ b]) (simp add: log_connection_def printk_def line_of_def ports)
qed

lemma report_connection_run:
  assumes "store_inv s" "sk so = Some k" "get_destination_ip (Some so) b0 = (dip, bufs s)"
  shows "\<exists>b. report_connection d_path proto arrow t (Some so) dip (destination_port k) s =
    Inr (s\<lparr>bufs := b, klog := klog s @
      (if covered d_path (entries s) t (destination_text k) (destination_port k) then []
       else [line_of d_path (absolute_path_mode s) proto arrow t k])\<rparr>)"
proof -
  have dip: "map_option (bufs s) dip = destination_text k"
    by (rule get_destination_ip_text(1) [OF assms(2,3)])
  obtain b where "log_connection d_path proto arrow t (Some so) dip (destination_port k) s =
      s\<lparr>bufs := b, klog := klog s @ [line_of d_path (absolute_path_mode s) proto arrow t k]\<rparr>"
    using log_connection_run [OF assms(2) dip assms(3)] by blast
  then show ?thesis
    using is_whitelisted_covered [OF assms(1), of "destination_text k" d_path t] destination_text_no_nul [of k]
    by (cases "covered d_path (entries s) t (destination_text k) (destination_port k)")
      (auto simp: report_connection_def dip wl_codes intro: exI [of _ "bufs s"])
qed

lemma is_inet_sk: "is_inet (Some so) \<Longrightarrow> \<exists>k. sk so = Some k"
  by (auto simp: is_inet_def split: option.splits)

section \<open>The handlers on a state that satisfies the invariant\<close>

definition tcp_inet :: "socket option \<Rightarrow> bool" where
  "tcp_inet sock \<longleftrightarrow> is_tcp sock \<and> is_inet sock"

definition sock_of :: "socket \<Rightarrow> sock" where
  "sock_of so = the (sk so)"

lemma tcp_inet_sock_of: "is_inet (Some so) \<Longrightarrow> sk so = Some (sock_of so)"
  using is_inet_sk by (force simp: sock_of_def)

text \<open>The lines a handler adds to the log for a TCP connection.\<close>

definition tcp_lines ::
  "(nat \<Rightarrow> nat \<Rightarrow> string option) \<Rightarrow> bool \<Rightarrow> rule list \<Rightarrow> string \<Rightarrow> task_struct \<Rightarrow> socket option \<Rightarrow> string list" where
  "tcp_lines d_path abs_mode rs arrow t sock =
     (case sock of
        None \<Rightarrow> []
      | Some so \<Rightarrow>
          if tcp_inet sock \<and> \<not> covered d_path rs t (destination_text (sock_of so)) (destination_port (sock_of so))
          then [line_of d_path abs_mode ''TCP'' arrow t (sock_of so)] else [])"

lemma post_connect_run:
  assumes "store_inv s" "pid t < PID_MAX_LIMIT"
  shows "\<exists>b. post_connect d_path mem (Some t) s =
    Inr (s\<lparr>bufs := b, match_socket := (match_socket s)(pid t := None),
      klog := klog s @ tcp_lines d_path (absolute_path_mode s) (entries s) ''->'' t
        (map_option mem (match_socket s (pid t)))\<rparr>)"
proof (cases "tcp_inet (map_option mem (match_socket s (pid t)))")
  case False
  then have "post_connect d_path mem (Some t) s =
      Inr (s\<lparr>match_socket := (match_socket s)(pid t := None)\<rparr>)"
    using assms(2)
    by (auto simp: post_connect_def post_connect_lookup_def post_connect_report_def set_match_socket_def
        tcp_inet_def Let_def)
  moreover have "tcp_lines d_path (absolute_path_mode s) (entries s) ''->'' t
      (map_option mem (match_socket s (pid t))) = []"
    using False by (auto simp: tcp_lines_def split: option.splits)
  ultimately show ?thesis by (intro exI [of _ "bufs s"]) simp
next
  case True
  then obtain a where a: "match_socket s (pid t) = Some a"
    by (cases "match_socket s (pid t)") (auto simp: tcp_inet_def is_tcp_def)
  define so k where "so = mem a" and "k = sock_of so"
  from True a have inet: "is_inet (Some so)" "is_tcp (Some so)" by (auto simp: tcp_inet_def so_def)
  note k = tcp_inet_sock_of [OF inet(1), folded k_def]
  obtain dip b0 where b0: "get_destination_ip (Some so) (bufs s) = (dip, b0)" by fastforce
  have "store_inv (s\<lparr>bufs := b0\<rparr>)" using assms(1) by simp
  from report_connection_run [OF this k, of "bufs s" dip d_path "''TCP''" "''->''" t] b0
  obtain b where "report_connection d_path ''TCP'' ''->'' t (Some so) dip (destination_port k) (s\<lparr>bufs := b0\<rparr>) =
      Inr (s\<lparr>bufs := b, klog := klog s @
        (if covered d_path (entries s) t (destination_text k) (destination_port k) then []
         else [line_of d_path (absolute_path_mode s) ''TCP'' ''->'' t k])\<rparr>)"
    by (auto cong: if_cong)
  then have "post_connect d_path mem (Some t) s =
    Inr (s\<lparr>bufs := b, match_socket := (match_socket s)(pid t := None),
      klog := klog s @ tcp_lines d_path (absolute_path_mode s) (entries s) ''->'' t (Some so)\<rparr>)"
    using inet b0 a assms(2) k
    by (simp add: post_connect_def post_connect_lookup_def post_connect_report_def set_match_socket_def
        tcp_lines_def tcp_inet_def ports so_def [symmetric] k_def [symmetric])
  then show ?thesis using a by (auto simp: so_def)
qed

lemma refs_balanced [simp]: "sockfd_put a (sockfd_get a s) = s"
  by (cases a) (simp_all add: sockfd_put_def sockfd_get_def)

lemma refs_frame:
  "sockfd_put a ((sockfd_get a s)\<lparr>bufs := b, klog := l\<rparr>) = s\<lparr>bufs := b, klog := l\<rparr>"
  by (cases a) (simp_all add: sockfd_put_def sockfd_get_def)

lemma sockfd_get_fields [simp]:
  "store_inv (sockfd_get a s) = store_inv s" "entries (sockfd_get a s) = entries s"
  "bufs (sockfd_get a s) = bufs s" "klog (sockfd_get a s) = klog s"
  "absolute_path_mode (sockfd_get a s) = absolute_path_mode s"
  by (cases a; simp add: sockfd_get_def)+

lemma post_accept_run:
  assumes "store_inv s"
  shows "\<exists>b. post_accept d_path mem lookup (Some t) fd s =
    Inr (s\<lparr>bufs := b, klog := klog s @ tcp_lines d_path (absolute_path_mode s) (entries s) ''<-'' t
      (map_option mem (lookup fd))\<rparr>)"
proof (cases "tcp_inet (map_option mem (lookup fd))")
  case False
  then have "post_accept d_path mem lookup (Some t) fd s = Inr s"
    by (auto simp: post_accept_def tcp_inet_def Let_def)
  moreover have "tcp_lines d_path (absolute_path_mode s) (entries s) ''<-'' t (map_option mem (lookup fd)) = []"
    using False by (auto simp: tcp_lines_def split: option.splits)
  ultimately show ?thesis by (intro exI [of _ "bufs s"]) simp
next
  case True
  then obtain a where a: "lookup fd = Some a"
    by (cases "lookup fd") (auto simp: tcp_inet_def is_tcp_def)
  define so k s1 where "so = mem a" and "k = sock_of so" and "s1 = sockfd_get (Some a) s"
  from True a have inet: "is_inet (Some so)" "is_tcp (Some so)" by (auto simp: tcp_inet_def so_def)
  note k = tcp_inet_sock_of [OF inet(1), folded k_def]
  obtain dip b0 where b0: "get_destination_ip (Some so) (bufs s1) = (dip, b0)" by fastforce
  have "store_inv (s1\<lparr>bufs := b0\<rparr>)" using assms by (simp add: s1_def)
  from report_connection_run [OF this k, of "bufs s1" dip d_path "''TCP''" "''<-''" t] b0
  obtain b where "report_connection d_path ''TCP'' ''<-'' t (Some so) dip (destination_port k) (s1\<lparr>bufs := b0\<rparr>) =
      Inr (s1\<lparr>bufs := b, klog := klog s1 @
        (if covered d_path (entries s1) t (destination_text k) (destination_port k) then []
         else [line_of d_path (absolute_path_mode s1) ''TCP'' ''<-'' t k])\<rparr>)"
    by (auto cong: if_cong)
  moreover have "(if covered d_path (entries s1) t (destination_text k) (destination_port k) then []
      else [line_of d_path (absolute_path_mode s1) ''TCP'' ''<-'' t k]) =
      tcp_lines d_path (absolute_path_mode s) (entries s) ''<-'' t (Some so)"
    using inet by (simp add: tcp_lines_def tcp_inet_def k_def s1_def)
  ultimately have "post_accept d_path mem lookup (Some t) fd s =
      Inr (sockfd_put (Some a) (s1\<lparr>bufs := b, klog := klog s1 @
        tcp_lines d_path (absolute_path_mode s) (entries s) ''<-'' t (Some so)\<rparr>))"
    using inet b0 a k
    by (simp add: post_accept_def ports so_def [symmetric] s1_def [symmetric])
  then show ?thesis using a by (auto simp: so_def s1_def refs_frame)
qed

text \<open>The lines of a close: connected TCP sockets, and UDP sockets when they are probed.\<close>

definition close_lines ::
  "bool \<Rightarrow> (nat \<Rightarrow> nat \<Rightarrow> string option) \<Rightarrow> bool \<Rightarrow> rule list \<Rightarrow> task_struct \<Rightarrow> socket option \<Rightarrow> string list" where
  "close_lines probe_udp d_path abs_mode rs t sock =
     (case sock of
        None \<Rightarrow> []
      | Some so \<Rightarrow>
          if \<not> is_inet sock \<or>
             covered d_path rs t (destination_text (sock_of so)) (destination_port (sock_of so))
          then []
          else if is_tcp sock \<and> destination_port (sock_of so) \<noteq> 0
          then [line_of d_path abs_mode ''TCP'' ''<->'' t (sock_of so)]
          else if probe_udp \<and> is_udp sock then [line_of d_path abs_mode ''UDP'' ''<->'' t (sock_of so)]
          else [])"

lemma report_close_run:
  assumes "store_inv s" "is_inet (Some so)" "get_destination_ip (Some so) b0 = (dip, bufs s)"
  shows "\<exists>b. report_close probe_udp d_path t (Some so) dip (get_destination_port (Some so)) s =
    Inr (s\<lparr>bufs := b, klog := klog s @
      close_lines probe_udp d_path (absolute_path_mode s) (entries s) t (Some so)\<rparr>)"
proof -
  define k where "k = sock_of so"
  note k = tcp_inet_sock_of [OF assms(2), folded k_def]
  have dip: "map_option (bufs s) dip = destination_text k"
    by (rule get_destination_ip_text(1) [OF k assms(3)])
  define c where "c = covered d_path (entries s) t (destination_text k) (destination_port k)"
  have run: "is_whitelisted d_path (Some t) (destination_text k) (destination_port k) s =
      Inr (if c then WHITELISTED else NOT_WHITELISTED)"
    unfolding c_def using is_whitelisted_covered [OF assms(1)] destination_text_no_nul [of k] by simp
  have lg: "\<exists>b. log_connection d_path proto arrow t (Some so) dip (destination_port k) s =
      s\<lparr>bufs := b, klog := klog s @ [line_of d_path (absolute_path_mode s) proto arrow t k]\<rparr>" for proto arrow
    by (rule log_connection_run [OF k dip assms(3)])
  have quiet: "\<exists>b. s = s\<lparr>bufs := b, klog := klog s\<rparr>" by (intro exI [of _ "bufs s"]) simp
  note unfold = report_close_def ports [OF k] dip run close_lines_def k_def [symmetric] c_def [symmetric] wl_codes
  show ?thesis
  proof (cases c)
    case True
    with quiet show ?thesis by (simp add: unfold)
  next
    case no: False
    show ?thesis
    proof (cases "is_tcp (Some so) \<and> destination_port k \<noteq> 0")
      case True
      with no assms(2) lg [of "''TCP''" "''<->''"] show ?thesis by (simp add: unfold)
    next
      case False
      with no assms(2) lg [of "''UDP''" "''<->''"] quiet show ?thesis
        by (cases "probe_udp \<and> is_udp (Some so)") (auto simp: unfold)
    qed
  qed
qed

lemma netlog_sys_close_run:
  assumes "store_inv s"
  shows "\<exists>b. netlog_sys_close probe_udp d_path mem lookup (Some t) fd s =
    Inr (s\<lparr>bufs := b, klog := klog s @ close_lines probe_udp d_path (absolute_path_mode s) (entries s) t
      (map_option mem (lookup fd))\<rparr>)"
proof (cases "is_inet (map_option mem (lookup fd))")
  case False
  then have "netlog_sys_close probe_udp d_path mem lookup (Some t) fd s = Inr s"
    by (auto simp: netlog_sys_close_def Let_def)
  moreover have "close_lines probe_udp d_path (absolute_path_mode s) (entries s) t (map_option mem (lookup fd)) = []"
    using False by (auto simp: close_lines_def split: option.splits)
  ultimately show ?thesis by (intro exI [of _ "bufs s"]) simp
next
  case True
  then obtain a where a: "lookup fd = Some a"
    by (cases "lookup fd") (auto simp: is_inet_def)
  define so s1 where "so = mem a" and "s1 = sockfd_get (Some a) s"
  from True a have inet: "is_inet (Some so)" by (auto simp: so_def)
  obtain dip b0 where b0: "get_destination_ip (Some so) (bufs s1) = (dip, b0)" by fastforce
  have "store_inv s1" using assms by (simp add: s1_def)
  then have "store_inv (s1\<lparr>bufs := b0\<rparr>)" by simp
  from report_close_run [OF this inet, of "bufs s1" dip probe_udp d_path t] b0
  obtain b where b: "report_close probe_udp d_path t (Some so) dip (get_destination_port (Some so)) (s1\<lparr>bufs := b0\<rparr>) =
      Inr (s1\<lparr>bufs := b, klog := klog s1 @
        close_lines probe_udp d_path (absolute_path_mode s1) (entries s1) t (Some so)\<rparr>)"
    by auto
  have "netlog_sys_close probe_udp d_path mem lookup (Some t) fd s =
      Inr (sockfd_put (Some a) (s1\<lparr>bufs := b, klog := klog s1 @
        close_lines probe_udp d_path (absolute_path_mode s1) (entries s1) t (Some so)\<rparr>))"
    using inet b0 a b by (simp add: netlog_sys_close_def so_def [symmetric] s1_def [symmetric])
  then show ?thesis using a by (auto simp: so_def s1_def refs_frame)
qed

text \<open>The line of a bind of a UDP socket to an address that no rule without a port restriction covers.\<close>

definition address_text :: "sockaddr \<Rightarrow> string option" where
  "address_text ad =
     (if sa_family ad = AF_INET then Some (format_ipv4 (sin_addr ad))
      else if sa_family ad = AF_INET6 then Some (format_ipv6 (sin6_addr ad)) else None)"

definition bind_lines ::
  "(nat \<Rightarrow> nat \<Rightarrow> string option) \<Rightarrow> bool \<Rightarrow> rule list \<Rightarrow> task_struct \<Rightarrow> socket option \<Rightarrow> sockaddr \<Rightarrow> string list" where
  "bind_lines d_path abs_mode rs t sock ad =
     (if is_inet sock \<and> is_udp sock \<and> \<not> covered d_path rs t (address_text ad) NO_PORT
      then [bind_line (task_name d_path abs_mode t) (pid t) (address_text ad) (sin_port ad) (uid t)] else [])"

lemma get_ip_text: "get_ip (Some ad) b = (p, b') \<Longrightarrow> map_option b' p = address_text ad"
  by (auto simp: get_ip_def address_text_def split: if_splits)

lemma address_text_no_nul: "address_text ad = Some i \<Longrightarrow> NUL \<notin> set i"
  by (auto simp: address_text_def format_ipv4_no_nul format_ipv6_no_nul split: if_splits)

lemma netlog_sys_bind_run:
  assumes "store_inv s"
  shows "\<exists>b. netlog_sys_bind d_path mem lookup (Some t) fd (Some ad) s =
    Inr (s\<lparr>bufs := b, klog := klog s @ bind_lines d_path (absolute_path_mode s) (entries s) t (map_option mem (lookup fd)) ad\<rparr>)"
proof -
  define a where "a = lookup fd"
  define s1 where "s1 = sockfd_get a s"
  obtain p b where p: "get_ip (Some ad) (bufs s1) = (p, b)" by fastforce
  note ip = get_ip_text [OF p]
  have inv: "store_inv (s1\<lparr>bufs := b\<rparr>)" using assms by (simp add: s1_def)
  have w: "is_whitelisted d_path (Some t) (address_text ad) NO_PORT (s1\<lparr>bufs := b\<rparr>) =
      Inr (if covered d_path (entries s) t (address_text ad) NO_PORT then WHITELISTED else NOT_WHITELISTED)"
    using is_whitelisted_covered [OF inv address_text_no_nul] by (simp add: s1_def)
  show ?thesis
  proof (cases "is_inet (map_option mem a) \<and> is_udp (map_option mem a)")
    case False
    then have "netlog_sys_bind d_path mem lookup (Some t) fd (Some ad) s = Inr s"
      by (auto simp: netlog_sys_bind_def a_def Let_def)
    moreover have "bind_lines d_path (absolute_path_mode s) (entries s) t (map_option mem (lookup fd)) ad = []"
      using False by (auto simp: bind_lines_def a_def)
    ultimately show ?thesis by (intro exI [of _ "bufs s"]) simp
  next
    case True
    define ls where "ls = bind_lines d_path (absolute_path_mode s) (entries s) t (map_option mem a) ad"
    have "netlog_sys_bind d_path mem lookup (Some t) fd (Some ad) s =
        Inr (sockfd_put a (s1\<lparr>bufs := b, klog := klog s1 @ ls\<rparr>))"
      using True p w unfolding netlog_sys_bind_def a_def [symmetric] Let_def s1_def [symmetric]
      by (simp add: ip wl_codes printk_def ls_def bind_lines_def) (simp add: s1_def)
    then show ?thesis by (auto simp: s1_def refs_frame ls_def a_def)
  qed
qed

section \<open>The monitor that the handlers implement\<close>

text \<open>
  What the kernel gives a handler: the sockets, the file descriptors and the paths. An event is
  one run of a handler for a task, or a write to the proc file; binds are seen only when the module is
  compiled with PROBE_UDP.
\<close>

record kernel =
  socket_at :: "nat \<Rightarrow> socket"
  socket_of_fd :: "int \<Rightarrow> nat option"
  path_of :: "nat \<Rightarrow> nat \<Rightarrow> string option"

datatype netlog_event =
    Connect_entered task_struct "nat option"
  | Connect_returned task_struct
  | Accept_returned task_struct int
  | Close_called task_struct int
  | Bind_called task_struct int sockaddr
  | Config_written "char list" "char list"

primrec handle :: "bool \<Rightarrow> kernel \<Rightarrow> netlog_event \<Rightarrow> netlog_state \<Rightarrow> netlog_state run" where
  "handle probe_udp K (Connect_entered t a) s = netlog_inet_stream_connect (Some t) a s"
| "handle probe_udp K (Connect_returned t) s = post_connect (path_of K) (socket_at K) (Some t) s"
| "handle probe_udp K (Accept_returned t fd) s =
     post_accept (path_of K) (socket_at K) (socket_of_fd K) (Some t) fd s"
| "handle probe_udp K (Close_called t fd) s =
     netlog_sys_close probe_udp (path_of K) (socket_at K) (socket_of_fd K) (Some t) fd s"
| "handle probe_udp K (Bind_called t fd ad) s =
     (if probe_udp
      then netlog_sys_bind (path_of K) (socket_at K) (socket_of_fd K) (Some t) fd (Some ad) s
      else Inr s)"
| "handle probe_udp K (Config_written user stack) s =
     run_bind (procfile_write (\<lambda>_. True) stack user (word_of_nat (length user)) s) (\<lambda>(n, s). Inr s)"

primrec handle_all :: "bool \<Rightarrow> (kernel \<times> netlog_event) list \<Rightarrow> netlog_state \<Rightarrow> netlog_state run" where
  "handle_all probe_udp [] s = Inr s"
| "handle_all probe_udp (e # es) s =
     run_bind (handle probe_udp (fst e) (snd e) s) (handle_all probe_udp es)"

text \<open>The abstract monitor: rules, connects in progress, and the log.\<close>

record monitor =
  rules :: "rule list"
  pending :: "nat \<Rightarrow> nat option"
  lines :: "string list"

primrec monitor_step :: "bool \<Rightarrow> bool \<Rightarrow> kernel \<Rightarrow> netlog_event \<Rightarrow> monitor \<Rightarrow> monitor" where
  "monitor_step probe_udp abs_mode K (Connect_entered t a) m = m\<lparr>pending := (pending m)(pid t := a)\<rparr>"
| "monitor_step probe_udp abs_mode K (Connect_returned t) m =
     m\<lparr>pending := (pending m)(pid t := None),
       lines := lines m @ tcp_lines (path_of K) abs_mode (rules m) ''->'' t
         (map_option (socket_at K) (pending m (pid t)))\<rparr>"
| "monitor_step probe_udp abs_mode K (Accept_returned t fd) m =
     m\<lparr>lines := lines m @ tcp_lines (path_of K) abs_mode (rules m) ''<-'' t
         (map_option (socket_at K) (socket_of_fd K fd))\<rparr>"
| "monitor_step probe_udp abs_mode K (Close_called t fd) m =
     m\<lparr>lines := lines m @ close_lines probe_udp (path_of K) abs_mode (rules m) t
         (map_option (socket_at K) (socket_of_fd K fd))\<rparr>"
| "monitor_step probe_udp abs_mode K (Bind_called t fd ad) m =
     m\<lparr>lines := lines m @ (if probe_udp
         then bind_lines (path_of K) abs_mode (rules m) t (map_option (socket_at K) (socket_of_fd K fd)) ad else [])\<rparr>"
| "monitor_step probe_udp abs_mode K (Config_written user stack) m =
     (let (vs, rs) = add_rules (split_commas (written_text user)) []
      in m\<lparr>rules := rs,
           lines := lines m @ [PROC_CONFIG_NAME @ '':'' @ [TAB] @ ''[+] Cleared whitelist'' @ [NL]] @
             map (\<lambda>(t, v). report PROC_CONFIG_NAME v t) (zip (split_commas (written_text user)) vs)\<rparr>)"

definition monitor_of :: "netlog_state \<Rightarrow> monitor" where
  "monitor_of s = \<lparr>rules = entries s, pending = match_socket s, lines = klog s\<rparr>"

text \<open>Events within the contract: process ids in range, writes of pieces the parser can hold.\<close>

primrec good_event :: "netlog_event \<Rightarrow> bool" where
  "good_event (Connect_entered t a) = (pid t < PID_MAX_LIMIT)"
| "good_event (Connect_returned t) = (pid t < PID_MAX_LIMIT)"
| "good_event (Accept_returned t fd) = True"
| "good_event (Close_called t fd) = True"
| "good_event (Bind_called t fd ad) = True"
| "good_event (Config_written user stack) =
     (0 < length user \<and> length user < PROCFS_MAX_SIZE \<and> length stack = MAX_NEW_CONNECTION_SIZE \<and>
      list_all good_piece (split_commas (written_text user)))"

lemma more_netlog:
  assumes "wl_state.more s' = wl_state.more s"
  shows "absolute_path_mode s' = absolute_path_mode s" "match_socket s' = match_socket s"
    "sock_refs s' = sock_refs s" "planted s' = planted s"
  using assms by (cases s; cases s'; simp)+

lemma procfile_write_monitor:
  assumes "store_inv s" "good_event (Config_written user stack)"
  shows "\<exists>n s'. procfile_write (\<lambda>_. True) stack user (word_of_nat (length user)) s = Inr (n, s') \<and>
    store_inv s' \<and> absolute_path_mode s' = absolute_path_mode s \<and> sock_refs s' = sock_refs s \<and>
    planted s' = planted s \<and>
    monitor_of s' = monitor_step probe_udp abs_mode K (Config_written user stack) (monitor_of s)"
proof -
  have len: "length (procfs_buffer s) = PROCFS_MAX_SIZE" using assms(1) by (simp add: store_inv_def proc_inv_def)
  have user: "0 < length user" "length user < PROCFS_MAX_SIZE" using assms(2) by simp_all
  from procfile_write_rules [OF assms(1) user, of stack] assms(2) obtain vs s' where
    s': "procfile_write (\<lambda>_. True) stack user (word_of_nat (length user)) s = Inr (int (length user), s')"
    "store_inv s'" "add_rules (split_commas (written_text user)) [] = (vs, entries s')"
    "klog s' = klog s @ [PROC_CONFIG_NAME @ '':'' @ [TAB] @ ''[+] Cleared whitelist'' @ [NL]] @
        map (\<lambda>(t, v). report PROC_CONFIG_NAME v t) (zip (split_commas (written_text user)) vs)"
    by auto
  note more = more_netlog [OF more_procfile_write [OF s'(1)]]
  have "monitor_of s' = monitor_step probe_udp abs_mode K (Config_written user stack) (monitor_of s)"
    using s'(3,4) more by (simp add: monitor_of_def)
  with s'(1,2) more show ?thesis by blast
qed

lemma handle_monitor:
  assumes "store_inv s" "good_event e"
  shows "\<exists>s'. handle probe_udp K e s = Inr s' \<and> store_inv s' \<and>
    absolute_path_mode s' = absolute_path_mode s \<and> sock_refs s' = sock_refs s \<and> planted s' = planted s \<and>
    monitor_of s' = monitor_step probe_udp (absolute_path_mode s) K e (monitor_of s)"
proof (cases e)
  case (Connect_entered t a)
  with assms show ?thesis
    by (simp add: netlog_inet_stream_connect_def set_match_socket_def monitor_of_def)
next
  case (Connect_returned t)
  with assms post_connect_run [of s t "path_of K" "socket_at K"] show ?thesis
    by (auto simp: monitor_of_def)
next
  case (Accept_returned t fd)
  with assms post_accept_run [of s "path_of K" "socket_at K" "socket_of_fd K" t fd] show ?thesis
    by (auto simp: monitor_of_def)
next
  case (Close_called t fd)
  with assms netlog_sys_close_run [of s probe_udp "path_of K" "socket_at K" "socket_of_fd K" t fd]
  show ?thesis by (auto simp: monitor_of_def)
next
  case (Bind_called t fd ad)
  with assms netlog_sys_bind_run [of s "path_of K" "socket_at K" "socket_of_fd K" t fd ad] show ?thesis
    by (cases probe_udp) (auto simp: monitor_of_def)
next
  case (Config_written user stack)
  with procfile_write_monitor [OF assms(1), of user stack probe_udp "absolute_path_mode s" K] assms(2)
  show ?thesis by (auto simp del: good_event.simps monitor_step.simps)
qed

lemma handle_all_monitor:
  assumes "store_inv s" "list_all (\<lambda>e. good_event (snd e)) es"
  shows "\<exists>s'. handle_all probe_udp es s = Inr s' \<and> store_inv s' \<and>
    sock_refs s' = sock_refs s \<and> planted s' = planted s \<and>
    monitor_of s' = fold (\<lambda>e. monitor_step probe_udp (absolute_path_mode s) (fst e) (snd e)) es (monitor_of s)"
  using assms
proof (induction es arbitrary: s)
  case Nil
  then show ?case by simp
next
  case (Cons e es)
  then obtain s1 where s1: "handle probe_udp (fst e) (snd e) s = Inr s1" "store_inv s1"
    "absolute_path_mode s1 = absolute_path_mode s" "sock_refs s1 = sock_refs s" "planted s1 = planted s"
    "monitor_of s1 = monitor_step probe_udp (absolute_path_mode s) (fst e) (snd e) (monitor_of s)"
    using handle_monitor [of s "snd e" probe_udp "fst e"] by auto
  from Cons.IH [OF s1(2)] Cons.prems(2) s1 show ?case by auto
qed


definition example_sock :: "be32 \<Rightarrow> sock" where
  "example_sock peer =
     \<lparr>sk_family = AF_INET, sk_protocol = IPPROTO_TCP, inet_saddr = 16777343, inet_daddr = peer,
      inet_sport = 0xD204, inet_dport = 0x1600,
      saddr6 = In6_addr 0 0 0 0 0 0 0 0, daddr6 = In6_addr 0 0 0 0 0 0 0 0\<rparr>"

definition example_kernel :: kernel where
  "example_kernel =
     \<lparr>socket_at = (\<lambda>a. \<lparr>sk = Some (example_sock (if a = 2 then 16777226 else 33554442))\<rparr>),
      socket_of_fd = (\<lambda>fd. if fd = 3 then Some 2 else None), path_of = (\<lambda>f n. Some ''/bin/a'')\<rparr>"

definition example_task :: "nat \<Rightarrow> task_struct" where
  "example_task p = \<lparr>pid = p, comm = ''a'', mm = Some [\<lparr>vm_executable = True, vm_file = Some 7\<rparr>], uid = 0\<rparr>"

definition example_state :: netlog_state where
  "example_state =
     \<lparr>klog = [], procfs_buffer = replicate PROCFS_MAX_SIZE NUL, procfs_buffer_size = 0,
      netlog_config_proc_file = False, conns = \<lparr>objs = Map.empty, next_addr = 1\<rparr>, wl_size = 0,
      white_list = replicate MAX_WHITELIST_SIZE None, absolute_path_mode = False,
      match_socket = (\<lambda>p. None), bufs = (\<lambda>b. []), sock_refs = (\<lambda>a. 1), planted = {}\<rparr>"

lemma example_state_inv: "store_inv example_state" "entries example_state = []" "klog example_state = []"
  "absolute_path_mode example_state = False" "match_socket example_state = (\<lambda>p. None)"
  by (simp_all add: example_state_def store_inv_def wl_inv_def proc_inv_def live_entries_def
      heap_wf_def entries_def)

lemma example_tcp [simp]: "tcp_inet (Some (socket_at example_kernel a))"
  by (simp add: tcp_inet_def is_tcp_def is_inet_def example_kernel_def example_sock_def)


section \<open>Two processors\<close>

text \<open>
  C36: The text of an IPv4 destination is a static buffer shared by all processors. Two tasks have each
  connected an IPv4 TCP socket: if the second task returns from connect between the moment the first
  one's address was printed into the buffer and the moment the buffer is read, the first connection is
  tested against the whitelist and logged with the second one's address (and its own port).
\<close>

theorem static_buffer_race:
  assumes "store_inv s" "pid t1 < PID_MAX_LIMIT" "pid t2 < PID_MAX_LIMIT"
    and "match_socket s (pid t1) = Some a1" "match_socket s (pid t2) = Some a2"
    and "tcp_inet (Some (mem a1))" "tcp_inet (Some (mem a2))"
    and "sk (mem a1) = Some k1" "sk (mem a2) = Some k2" "sk_family k1 = AF_INET" "sk_family k2 = AF_INET"
  shows "\<exists>s'. run_bind (post_connect_lookup mem t1 s) (\<lambda>(r1, s).
      run_bind (post_connect_lookup mem t2 s) (\<lambda>(r2, s). post_connect_report d_path t1 r1 s)) = Inr s' \<and>
    klog s' = klog s @
      (if covered d_path (entries s) t1 (Some (format_ipv4 (inet_daddr k2))) (destination_port k1) then []
       else [connection_line ''TCP'' ''->'' (task_name d_path (absolute_path_mode s) t1) (pid t1)
               (Some (format_ipv4 (inet_saddr k1))) (source_port k1)
               (Some (format_ipv4 (inet_daddr k2))) (destination_port k1) (uid t1)])"
proof -
  define b2 where "b2 = (bufs s)(destination_ipv4 := format_ipv4 (inet_daddr k2))"
  have b2: "b2 destination_ipv4 = format_ipv4 (inet_daddr k2)" by (simp add: b2_def)
  have lookup: "post_connect_lookup mem t s0 = Inr (Some (Some (mem a), Some destination_ipv4, destination_port k),
      s0\<lparr>bufs := (bufs s0)(destination_ipv4 := format_ipv4 (inet_daddr k))\<rparr>)"
    if "match_socket s0 (pid t) = Some a" "pid t < PID_MAX_LIMIT" "tcp_inet (Some (mem a))"
      "sk (mem a) = Some k" "sk_family k = AF_INET" for s0 t a k
    using that
    by (simp add: post_connect_lookup_def tcp_inet_def get_destination_ip_def get_destination_ip_sk_def ports)
  have wl: "is_whitelisted d_path (Some t1) (Some (format_ipv4 (inet_daddr k2))) (destination_port k1) (s\<lparr>bufs := b2\<rparr>) =
      Inr (if covered d_path (entries s) t1 (Some (format_ipv4 (inet_daddr k2))) (destination_port k1)
           then WHITELISTED else NOT_WHITELISTED)"
    using assms(1) by (subst is_whitelisted_covered) (auto simp: format_ipv4_no_nul)
  have src: "get_source_ip (Some (mem a1)) b2 = (Some source_ipv4, b2(source_ipv4 := format_ipv4 (inet_saddr k1)))"
    using assms(8,10) by (simp add: get_source_ip_def get_source_ip_sk_def)
  have "run_bind (post_connect_lookup mem t1 s) (\<lambda>(r1, s).
      run_bind (post_connect_lookup mem t2 s) (\<lambda>(r2, s). post_connect_report d_path t1 r1 s)) =
    post_connect_report d_path t1 (Some (Some (mem a1), Some destination_ipv4, destination_port k1)) (s\<lparr>bufs := b2\<rparr>)"
    using assms
    by (simp add: lookup [OF assms(4,2,6,8,10)] lookup [of "s\<lparr>bufs := b\<rparr>" t2 a2 k2 for b] b2_def)
  moreover have "log_connection d_path ''TCP'' ''->'' t1 (Some (mem a1)) (Some destination_ipv4)
      (destination_port k1) (s\<lparr>bufs := b2\<rparr>) =
    s\<lparr>bufs := b2(source_ipv4 := format_ipv4 (inet_saddr k1)), klog := klog s @
      [connection_line ''TCP'' ''->'' (task_name d_path (absolute_path_mode s) t1) (pid t1)
        (Some (format_ipv4 (inet_saddr k1))) (source_port k1)
        (Some (format_ipv4 (inet_daddr k2))) (destination_port k1) (uid t1)]\<rparr>"
    using src assms(8) by (simp add: log_connection_def printk_def ports) (simp add: b2_def)
  ultimately show ?thesis
    using wl assms(2)
    by (cases "covered d_path (entries s) t1 (Some (format_ipv4 (inet_daddr k2))) (destination_port k1)")
      (simp_all add: post_connect_report_def report_connection_def set_match_socket_def wl_codes b2)
qed

theorem static_buffer_race_witness:
  "\<exists>s'. run_bind (post_connect_lookup (socket_at example_kernel) (example_task 10)
        (example_state\<lparr>match_socket := [10 \<mapsto> 2, 11 \<mapsto> 3]\<rparr>)) (\<lambda>(r1, s).
      run_bind (post_connect_lookup (socket_at example_kernel) (example_task 11) s) (\<lambda>(r2, s).
        post_connect_report (path_of example_kernel) (example_task 10) r1 s)) = Inr s' \<and>
    klog s' = [''netlog: a[10] TCP 127.0.0.1:1234 -> 10.0.0.2:22 (uid=0)'' @ [NL]]"
proof -
  have k: "sk (socket_at example_kernel 2) = Some (example_sock 16777226)"
    "sk (socket_at example_kernel 3) = Some (example_sock 33554442)"
    by (simp_all add: example_kernel_def)
  have line: "connection_line ''TCP'' ''->'' (task_name (path_of example_kernel) False (example_task 10)) 10
      (Some (format_ipv4 (inet_saddr (example_sock 16777226)))) (source_port (example_sock 16777226))
      (Some (format_ipv4 (inet_daddr (example_sock 33554442)))) (destination_port (example_sock 16777226)) 0 =
      ''netlog: a[10] TCP 127.0.0.1:1234 -> 10.0.0.2:22 (uid=0)'' @ [NL]"
    by code_simp
  have f: "sk_family (example_sock x) = AF_INET" for x by (simp add: example_sock_def)
  have s: "store_inv (example_state\<lparr>match_socket := [10 \<mapsto> 2, 11 \<mapsto> 3]\<rparr>)"
    by (simp add: example_state_inv)
  have cov: "\<not> covered d [] t a n" for d t a n by (simp add: covered_def split: option.splits)
  have task: "pid (example_task p) = p" "uid (example_task p) = 0" for p by (simp_all add: example_task_def)
  from static_buffer_race [OF s _ _ _ _ example_tcp example_tcp k f f,
      where ?t1.0 = "example_task 10" and ?t2.0 = "example_task 11" and d_path = "path_of example_kernel"]
  show ?thesis
    by (simp add: example_state_inv cov line task PID_MAX_LIMIT_def)
qed

section \<open>Planting and unplanting\<close>

definition all_probes :: "bool \<Rightarrow> probe set" where
  "all_probes probe_udp =
     {connect_jprobe, connect_kretprobe, accept_kretprobe, tcp_close_jprobe} \<union>
     (if probe_udp then {bind_jprobe} else {})"

lemma all_probes_enum:
  "all_probes probe_udp = set (filter (\<lambda>p. probe_udp \<or> p \<noteq> bind_jprobe) enum_class.enum)"
  by (auto simp: all_probes_def enum_probe_def)

text \<open>Only the two probes of connect share a function.\<close>

lemma symbol_name_inj:
  "symbol_name old_kernel p = symbol_name old_kernel q \<Longrightarrow> p \<noteq> q \<Longrightarrow> {p, q} = {connect_jprobe, connect_kretprobe}"
  by (cases p; cases q) (auto split: if_splits)

lemma unregister_probe_fields [simp]:
  "planted (unregister_probe p what s) = planted s - {p}"
  "store_inv (unregister_probe p what s) = store_inv s" "entries (unregister_probe p what s) = entries s"
  by (simp_all add: unregister_probe_def) (simp add: printk_def)

lemma planted_printk [simp]: "planted (printk x s) = planted s"
  by (simp add: printk_def)

lemma unplant_all_fields:
  "planted (unplant_all probe_udp s) = planted s - all_probes probe_udp"
  "store_inv (unplant_all probe_udp s) = store_inv s" "entries (unplant_all probe_udp s) = entries s"
  by (auto simp: unplant_all_def all_probes_def Let_def)

lemma plant_all_result:
  "(case plant_all probe_udp register s of (err, s') \<Rightarrow>
      (if \<forall>p \<in> all_probes probe_udp. 0 \<le> register p
       then err = 0 \<and> planted s' = planted s \<union> all_probes probe_udp
       else err < 0 \<and> planted s' = planted s - all_probes probe_udp) \<and>
      store_inv s' = store_inv s \<and> entries s' = entries s)"
  by (auto simp: plant_all_def plant_def unplant_all_fields all_probes_def CONNECT_PROBE_FAILED_def
      ACCEPT_PROBE_FAILED_def CLOSE_PROBE_FAILED_def BIND_PROBE_FAILED_def)

text \<open>What plant_all should do: register in this order, stop at the first refusal and report its code.\<close>

definition planting_order :: "bool \<Rightarrow> probe list" where
  "planting_order probe_udp =
     [connect_jprobe, connect_kretprobe, accept_kretprobe, tcp_close_jprobe] @ (if probe_udp then [bind_jprobe] else [])"

primrec failure_code :: "probe \<Rightarrow> int" where
  "failure_code connect_jprobe = CONNECT_PROBE_FAILED"
| "failure_code connect_kretprobe = CONNECT_PROBE_FAILED"
| "failure_code accept_kretprobe = ACCEPT_PROBE_FAILED"
| "failure_code tcp_close_jprobe = CLOSE_PROBE_FAILED"
| "failure_code bind_jprobe = BIND_PROBE_FAILED"

lemma set_planting_order: "set (planting_order probe_udp) = all_probes probe_udp"
  by (auto simp: planting_order_def all_probes_def)

text \<open>
  C29: Planting is all or nothing: if the kernel accepts every probe, plant_all returns 0 with every probe
  registered; otherwise it returns the negative code of the first probe, in the order of planting, that
  the kernel refused, with none of them registered. The whitelist is left as it is.
\<close>

theorem plant_all_atomic:
  "(case plant_all probe_udp register s of (err, s') \<Rightarrow>
      (case find (\<lambda>p. register p < 0) (planting_order probe_udp) of
         None \<Rightarrow> err = 0 \<and> planted s' = planted s \<union> all_probes probe_udp
       | Some p \<Rightarrow> err = - failure_code p \<and> planted s' = planted s - all_probes probe_udp) \<and>
      store_inv s' = store_inv s \<and> entries s' = entries s)"
  by (auto simp: plant_all_def plant_def unplant_all_fields planting_order_def all_probes_def)

theorem plant_all_atomic_witness:
  "fst (plant_all True (\<lambda>p. if p = accept_kretprobe \<or> p = bind_jprobe then - 22 else 0) example_state) = - 2 \<and>
   planted (snd (plant_all True (\<lambda>p. if p = accept_kretprobe \<or> p = bind_jprobe then - 22 else 0) example_state)) = {}"
proof -
  let ?register = "\<lambda>p. if p = accept_kretprobe \<or> p = bind_jprobe then - 22 else 0 :: int"
  have "find (\<lambda>p. ?register p < 0) (planting_order True) = Some accept_kretprobe"
    by (simp add: planting_order_def)
  moreover have "planted example_state = {}" by (simp add: example_state_def)
  ultimately show ?thesis
    using plant_all_atomic [where probe_udp = True and register = ?register and s = example_state]
    by (simp add: split_def ACCEPT_PROBE_FAILED_def)
qed

section \<open>Loading and unloading the module\<close>

lemma whitelist_parameters_run:
  "whitelist_parameters (\<lambda>_. True) i bs s =
   run_bind (add_all (whitelist_and_report MODULE_NAME True) bs s) (\<lambda>(vs, s). Inr s)"
  by (induction bs arbitrary: i s) (simp_all add: run_bind_assoc split_def)

lemma more_add_all:
  "add_all (whitelist_and_report who k) bs s = Inr (vs, s') \<Longrightarrow> wl_state.more s' = wl_state.more s"
  by (induction bs arbitrary: s vs) (auto simp: run_bind_eq_Inr dest!: more_report)

lemma do_whitelist_run:
  assumes "store_inv s" "list_all2 rule_bytes bs ts"
  shows "\<exists>s'. do_whitelist (\<lambda>_. True) bs s = Inr s' \<and> store_inv s' \<and>
    entries s' = snd (add_rules (take MAX_WHITELIST_SIZE ts) (entries s)) \<and>
    wl_state.more s' = wl_state.more s"
proof -
  define s0 where "s0 = (if MAX_WHITELIST_SIZE < length bs
    then printk (MODULE_NAME @ '':'' @ [TAB] @ ''[-] Cannot whitelist more than '' @
      fmt_d (int MAX_WHITELIST_SIZE) @ '' connections. The '' @ fmt_d (int (length bs - MAX_WHITELIST_SIZE)) @
      '' last parameters paths will be ignored. '' @ replicate 5 TAB @
      ''Please change MAX_WHITELIST_SIZE definition in netlog.h and recompile, or contact '' @
      replicate 5 TAB @ ''CERN-CERT <cert@cern.ch>'' @ [NL]) s else s)"
  have s0: "store_inv s0" "entries s0 = entries s" "wl_state.more s0 = wl_state.more s"
    using assms(1) by (simp_all add: s0_def)
  have "list_all2 rule_bytes (take MAX_WHITELIST_SIZE bs) (take MAX_WHITELIST_SIZE ts)"
    using assms(2) by simp
  from reported.add_all_refines [OF this s0(1), of MODULE_NAME] obtain vs s' where s':
    "add_all (whitelist_and_report MODULE_NAME True) (take MAX_WHITELIST_SIZE bs) s0 = Inr (vs, s')"
    "store_inv s'" "(vs, entries s') = add_rules (take MAX_WHITELIST_SIZE ts) (entries s0)"
    by blast
  have "do_whitelist (\<lambda>_. True) bs s = Inr s'"
    unfolding do_whitelist_def Let_def s0_def [symmetric] whitelist_parameters_run s'(1) by simp
  moreover have "entries s' = snd (add_rules (take MAX_WHITELIST_SIZE ts) (entries s))"
    using s'(3) s0(2) by (metis snd_conv)
  ultimately show ?thesis
    using s'(2) more_add_all [OF s'(1)] s0(3) by auto
qed

lemma announce_fields [simp]:
  "store_inv (announce_proc_config e s) = store_inv s" "entries (announce_proc_config e s) = entries s"
  "planted (announce_proc_config e s) = planted s" "store_inv (announce_mode s) = store_inv s"
  "entries (announce_mode s) = entries s" "planted (announce_mode s) = planted s"
  by (simp_all add: announce_proc_config_def announce_mode_def)

lemma netlog_create_proc:
  assumes "store_inv s"
  shows "store_inv (snd (create_proc_config ok s))" "entries (snd (create_proc_config ok s)) = entries s"
    "planted (snd (create_proc_config ok s)) = planted s"
proof -
  have 1: "store_inv (s\<lparr>netlog_config_proc_file := b\<rparr>)" for b
    using assms by (simp add: store_inv_def wl_inv_def live_entries_def proc_inv_def)
  show "store_inv (snd (create_proc_config ok s))"
    using 1 config_text_of_init [of "s\<lparr>netlog_config_proc_file := True\<rparr>"]
    by (simp add: create_proc_config_def store_inv_def proc_inv_def)
  show "entries (snd (create_proc_config ok s)) = entries s"
    "planted (snd (create_proc_config ok s)) = planted s"
    by (simp_all add: create_proc_config_def entries_def live_entries_def initialize_procfs_buffer_def)
qed

text \<open>
  Loading the module: when the kernel accepts every probe, plant_probes returns 0 with all
  probes registered and the rules of the first 150 parameters added in order, whether or not the
  proc file could be created; when it refuses one, no probe stays registered, no rule is added and
  the error code is negative. Neither case runs into a fault.
\<close>

theorem plant_probes_loads:
  assumes "store_inv s" "list_all2 rule_bytes params ts"
  shows "\<exists>err s'. plant_probes probe_udp register create_ok (\<lambda>_. True) params s = Inr (err, s') \<and> store_inv s' \<and>
    (if \<forall>p \<in> all_probes probe_udp. 0 \<le> register p
     then err = 0 \<and> planted s' = planted s \<union> all_probes probe_udp \<and>
       entries s' = snd (add_rules (take MAX_WHITELIST_SIZE ts) (entries s))
     else err < 0 \<and> planted s' = planted s - all_probes probe_udp \<and> entries s' = entries s)"
proof -
  define s0 where "s0 = printk (MODULE_NAME @ '': Light monitoring tool for inet connections by CERN Security Team'' @ [NL]) s"
  obtain err s1 where s1: "plant_all probe_udp register s0 = (err, s1)" by fastforce
  have plant: "if \<forall>p \<in> all_probes probe_udp. 0 \<le> register p
      then err = 0 \<and> planted s1 = planted s \<union> all_probes probe_udp
      else err < 0 \<and> planted s1 = planted s - all_probes probe_udp" "store_inv s1" "entries s1 = entries s"
    using plant_all_result [of probe_udp register s0] s1 assms(1) by (simp_all add: s0_def)
  show ?thesis
  proof (cases "\<forall>p \<in> all_probes probe_udp. 0 \<le> register p")
    case False
    with plant have "err < 0" by simp
    then have "plant_probes probe_udp register create_ok (\<lambda>_. True) params s = Inr (err, s1)"
      unfolding plant_probes_def Let_def s0_def [symmetric] s1 by simp
    with False plant show ?thesis by auto
  next
    case True
    obtain e2 s2 where s2: "create_proc_config create_ok s1 = (e2, s2)" by fastforce
    note proc = netlog_create_proc [OF plant(2), of create_ok, unfolded s2 snd_conv]
    define s3 where "s3 = announce_proc_config e2 s2"
    have s3: "store_inv s3" "entries s3 = entries s" "planted s3 = planted s \<union> all_probes probe_udp"
      using proc plant True by (auto simp: s3_def)
    obtain s4 where s4: "do_whitelist (\<lambda>_. True) params s3 = Inr s4" "store_inv s4"
      "entries s4 = snd (add_rules (take MAX_WHITELIST_SIZE ts) (entries s3))" "wl_state.more s4 = wl_state.more s3"
      using do_whitelist_run [OF s3(1) assms(2)] by blast
    have "planted s4 = planted s3" by (rule more_netlog(4) [OF s4(4)])
    moreover have "plant_probes probe_udp register create_ok (\<lambda>_. True) params s = Inr (0, announce_mode s4)"
      using True plant(1) s4(1)
      unfolding plant_probes_def Let_def s0_def [symmetric] s1 split_conv s2 s3_def [symmetric] by simp
    ultimately show ?thesis using True s3 s4 by auto
  qed
qed

theorem plant_probes_loads_witness:
  "\<exists>s'. plant_probes False (\<lambda>p. 0) True (\<lambda>_. True) [''/bin/a'' @ [NUL]] example_state = Inr (0, s') \<and>
     entries s' = [(''/bin/a'', [], NO_PORT)]"
proof -
  have "\<not> ip_unterminated ''/bin/a''" by code_simp
  then have b: "list_all2 rule_bytes [''/bin/a'' @ [NUL]] [''/bin/a'']"
    using rule_bytesI [of "''/bin/a''"] by simp
  have "parse_text ''/bin/a'' = Some (''/bin/a'', [], NO_PORT)" by code_simp
  then have "snd (add_rules (take MAX_WHITELIST_SIZE [''/bin/a'']) []) = [(''/bin/a'', [], NO_PORT)]"
    by (simp add: add_rule_def MAX_WHITELIST_SIZE_def)
  with plant_probes_loads [OF example_state_inv(1) b, of False "\<lambda>p. 0" True] show ?thesis
    by (auto simp: example_state_inv)
qed

text \<open>
  Unloading the module leaves nothing behind: no probe is registered, the list is empty, the
  proc file is gone and every object of the list has been freed exactly once; what remains allocated
  are the objects that refused duplicates had leaked.
\<close>

theorem unplant_probes_cleans_up:
  assumes "store_inv s"
  shows "\<exists>s'. unplant_probes probe_udp s = Inr s' \<and> planted s' = planted s - all_probes probe_udp \<and>
    entries s' = [] \<and> \<not> netlog_config_proc_file s' \<and> dom (objs (conns s')) = leaked s"
proof -
  have inv: "store_inv (unplant_all probe_udp s)" using assms by (simp add: unplant_all_fields)
  then obtain s1 where s1: "destroy_whitelist (unplant_all probe_udp s) = Inr s1" "entries s1 = []"
    "dom (objs (conns s1)) = leaked (unplant_all probe_udp s)" "store_inv s1"
    using destroy_whitelist_refines [OF inv] by blast
  have "leaked (unplant_all probe_udp s) = leaked s"
    by (simp add: unplant_all_def unregister_probe_def printk_def leaked_def live_entries_def Let_def)
  moreover have "planted s1 = planted s - all_probes probe_udp"
    using more_netlog(4) [OF more_destroy_whitelist [OF s1(1)]] by (simp add: unplant_all_fields)
  moreover have "entries (destroy_proc_config s1) = entries s1" "conns (destroy_proc_config s1) = conns s1"
    "planted (destroy_proc_config s1) = planted s1" "\<not> netlog_config_proc_file (destroy_proc_config s1)"
    by (simp_all add: destroy_proc_config_def initialize_procfs_buffer_def entries_def live_entries_def)
  ultimately show ?thesis using s1 by (simp add: unplant_probes_def)
qed

theorem unplant_probes_cleans_up_witness:
  "\<exists>s'. unplant_probes False (example_state\<lparr>planted := {connect_jprobe, accept_kretprobe}\<rparr>) = Inr s' \<and> planted s' = {}"
  using unplant_probes_cleans_up [of "example_state\<lparr>planted := {connect_jprobe, accept_kretprobe}\<rparr>" False]
  by (auto simp: example_state_inv all_probes_def)

text \<open>
  C13: The life of the module, from its loading with rules as parameters over a sequence of events to its
  unloading. The parameters are shorter than a gigabyte and have closed ip fields, the kernel registers the
  probes, memory is available, and the events stay within the bounds of C1: process ids below the limit,
  configurations of 1 to 4095 bytes in pieces shorter than 512 bytes with closed ip fields. Then loading
  returns 0 with every probe planted and those of the first 150 parameters that the store of rules accepts
  as the rules; the events have exactly the monitor's effects; unloading frees the list, except the objects
  that refused duplicates had leaked, and leaves no probe and no proc file. Nothing faults.
\<close>

theorem netlog_life:
  assumes "store_inv s" "entries s = []" "planted s = {}" "list_all2 rule_bytes params ts"
    and "\<forall>p \<in> all_probes probe_udp. 0 \<le> register p" "list_all (\<lambda>e. good_event (snd e)) es"
  shows "\<exists>s1 s2 s3. plant_probes probe_udp register create_ok (\<lambda>_. True) params s = Inr (0, s1) \<and>
    planted s1 = all_probes probe_udp \<and> entries s1 = snd (add_rules (take MAX_WHITELIST_SIZE ts) []) \<and>
    handle_all probe_udp es s1 = Inr s2 \<and> sock_refs s2 = sock_refs s1 \<and>
    monitor_of s2 = fold (\<lambda>e. monitor_step probe_udp (absolute_path_mode s1) (fst e) (snd e)) es (monitor_of s1) \<and>
    unplant_probes probe_udp s2 = Inr s3 \<and> planted s3 = {} \<and> entries s3 = [] \<and> \<not> netlog_config_proc_file s3 \<and>
    dom (objs (conns s3)) = leaked s2"
proof -
  obtain s1 where s1: "plant_probes probe_udp register create_ok (\<lambda>_. True) params s = Inr (0, s1)" "store_inv s1"
    "planted s1 = all_probes probe_udp" "entries s1 = snd (add_rules (take MAX_WHITELIST_SIZE ts) [])"
    using plant_probes_loads [OF assms(1,4), of probe_udp register create_ok] assms(2,3,5) by auto
  obtain s2 where s2: "handle_all probe_udp es s1 = Inr s2" "store_inv s2" "sock_refs s2 = sock_refs s1" "planted s2 = planted s1"
    "monitor_of s2 = fold (\<lambda>e. monitor_step probe_udp (absolute_path_mode s1) (fst e) (snd e)) es (monitor_of s1)"
    using handle_all_monitor [OF s1(2) assms(6), of probe_udp] by blast
  obtain s3 where "unplant_probes probe_udp s2 = Inr s3" "planted s3 = {}" "entries s3 = []" "\<not> netlog_config_proc_file s3"
    "dom (objs (conns s3)) = leaked s2"
    using unplant_probes_cleans_up [OF s2(2), of probe_udp] s1(3) s2(4) by auto
  with s1 s2 show ?thesis by blast
qed

theorem netlog_life_witness:
  "\<exists>s1 s2 s3. plant_probes False (\<lambda>p. 0) True (\<lambda>_. True) [''/bin/a'' @ [NUL]] example_state = Inr (0, s1) \<and>
     handle_all False [(example_kernel, Connect_entered (example_task 10) (Some 2)),
       (example_kernel, Connect_returned (example_task 10))] s1 = Inr s2 \<and>
     unplant_probes False s2 = Inr s3 \<and> planted s3 = {} \<and> entries s3 = []"
proof -
  have "list_all2 rule_bytes [''/bin/a'' @ [NUL]] [''/bin/a'']"
  proof -
    have "\<not> ip_unterminated ''/bin/a''" by code_simp
    then have "rule_bytes (''/bin/a'' @ [NUL]) ''/bin/a''" by (intro rule_bytesI) simp_all
    then show ?thesis by (simp del: append.simps)
  qed
  moreover have "planted example_state = {}" by (simp add: example_state_def)
  moreover have "list_all (\<lambda>e. good_event (snd e)) [(example_kernel, Connect_entered (example_task 10) (Some 2)),
      (example_kernel, Connect_returned (example_task 10))]"
    by (simp add: example_task_def PID_MAX_LIMIT_def)
  ultimately show ?thesis
    using netlog_life [OF example_state_inv(1,2), of "[''/bin/a'' @ [NUL]]" "[''/bin/a'']" False "\<lambda>p. 0"
        "[(example_kernel, Connect_entered (example_task 10) (Some 2)), (example_kernel, Connect_returned (example_task 10))]" True]
    by (auto simp del: append.simps handle_all.simps)
qed

end
