(* ===== verification/Typed_Rules.thy ===== *)
theory Typed_Rules imports Probes begin

text \<open>
  The type of the rules that netlog stores, on any input: the parser is given arbitrary bytes, the
  proc file arbitrary writes, and any allocation may fail. What does not fault leaves a list of rules
  that have the type.
\<close>

section \<open>What the parser returns\<close>

lemma copy_until_chars:
  assumes "copy_until stop limit b ch buf i = Inr (Some (buf', ch', i'))" "i < limit"
  shows "take i buf' = take i buf \<and> (\<forall>j. i \<le> j \<and> j < i' \<longrightarrow> \<not> stop (buf' ! j))"
  using assms
proof (induction stop limit b ch buf i rule: copy_until.induct)
  case (1 stop limit b ch buf i)
  from "1.prems"(1) obtain c where c: "load b ch = Inr c"
    by (subst (asm) copy_until.simps) (auto simp: run_bind_eq_Inr)
  show ?case
  proof (cases "stop c")
    case True
    with "1.prems" c have "buf' = buf" "i' = i" by (simp_all add: copy_until.simps [of stop limit b ch buf i])
    then show ?thesis by auto
  next
    case False
    with "1.prems" c obtain buf1 where b1: "store buf i c = Inr buf1" "\<not> limit \<le> Suc i"
      and rec: "copy_until stop limit b (Suc ch) buf1 (Suc i) = Inr (Some (buf', ch', i'))"
      by (auto simp: copy_until.simps [of stop limit b ch buf i] run_bind_eq_Inr split: if_splits)
    have b: "i < length buf" "buf1 = buf[i := c]" using b1(1) by (auto simp: store_def split: if_splits)
    have len: "length buf' = length buf1" using copy_until_result [OF rec] b1(2) by simp
    from "1.IH" [OF c False b1 rec] b1(2) have IH: "take (Suc i) buf' = take (Suc i) buf1"
      "\<forall>j. Suc i \<le> j \<and> j < i' \<longrightarrow> \<not> stop (buf' ! j)" by auto
    have "buf' ! i = buf1 ! i" using IH(1) by (metis lessI nth_take)
    moreover have "take i buf' = take i buf"
      using IH(1) b(2) by (metis take_take min.absorb1 less_or_eq_imp_le lessI take_update_cancel order_refl)
    moreover have "\<not> stop (buf' ! j)" if "i \<le> j" "j < i'" for j
      using IH(2) False b that \<open>buf' ! i = buf1 ! i\<close> by (cases "j = i") auto
    ultimately show ?thesis by blast
  qed
qed

lemma cstr_closed:
  assumes "i < length buf" "\<forall>j < i. P (buf ! j)"
  shows "length (cstr (buf[i := NUL])) \<le> i" "list_all P (cstr (buf[i := NUL]))" "NUL \<in> set (buf[i := NUL])"
proof -
  have s: "buf[i := NUL] = take i buf @ NUL # drop (Suc i) buf" using assms(1) by (simp add: upd_conv_take_nth_drop)
  have "cstr (x @ NUL # y) = cstr x" for x y by (induction x) auto
  then have c: "cstr (buf[i := NUL]) = cstr (take i buf)" by (simp add: s)
  have sub: "length (cstr x) \<le> length x" "set (cstr x) \<subseteq> set x" for x by (induction x) auto
  show "length (cstr (buf[i := NUL])) \<le> i" using sub(1) [of "take i buf"] by (simp add: c)
  have "list_all P (take i buf)" using assms by (auto simp: list_all_length)
  then show "list_all P (cstr (buf[i := NUL]))" using sub(2) [of "take i buf"] by (auto simp: c list_all_iff)
  show "NUL \<in> set (buf[i := NUL])" by (simp add: s)
qed

definition ip_typed :: "connection \<Rightarrow> bool" where
  "ip_typed con \<longleftrightarrow> length (ip con) = INET6_ADDRSTRLEN + 2 \<and> length (cstr (ip con)) < INET6_ADDRSTRLEN + 2 \<and>
     valid_ip_text (cstr (ip con)) \<and> list_all (\<lambda>c. \<not> field_end c) (cstr (ip con))"

definition path_typed :: "connection \<Rightarrow> bool" where
  "path_typed con \<longleftrightarrow> length (executable con) = MAX_ABSOLUTE_EXEC_PATH + 1 \<and>
     length (cstr (executable con)) < MAX_ABSOLUTE_EXEC_PATH \<and> FIELD_SEPARATOR \<notin> set (cstr (executable con))"

lemma valid_ip_checked:
  assumes "looks_like_valid_ip (Some (buf, 0)) = Inr True" "NUL \<in> set buf"
  shows "valid_ip_text (cstr buf)"
proof -
  obtain x y where "buf = x @ NUL # y" "NUL \<notin> set x" using split_list_first [OF assms(2)] by blast
  then have "c_string buf 0 (cstr buf)" by (intro c_stringI [of _ _ "[]" y]) (simp_all add: cstr_append)
  from looks_like_valid_ip_spec [OF this] show ?thesis using assms(1) by simp
qed

lemma parse_ip_field_result:
  assumes "parse_ip_field b ch con = Inr (Some (con', ch'))"
  obtains "con' = con"
  | v6 n buf0 buf1 ch1 i buf2 buf3 where "con' = con\<lparr>ip := buf3\<rparr>"
    "(if v6 then store (ip con) 0 (CHR ''['') else Inr (ip con)) = Inr buf0"
    "read_ip b n buf0 (if v6 then 1 else 0) = Inr (Some (buf1, ch1, i))"
    "(if v6 then store buf1 i (CHR '']'') else Inr buf1) = Inr buf2"
    "store buf2 (if v6 then Suc i else i) NUL = Inr buf3" "looks_like_valid_ip (Some (buf3, 0)) = Inr True"
proof -
  obtain c where c: "load b ch = Inr c" using assms by (auto simp: parse_ip_field_def run_bind_eq_Inr)
  show thesis
  proof (cases "c = CHR ''i''")
    case False
    then have "con' = con" using assms c by (simp add: parse_ip_field_def)
    then show thesis by (rule that(1))
  next
    case True
    note run = assms [unfolded parse_ip_field_def c run_bind_Inr]
    obtain v6 where v6: "looks_like_ipv6 (Some (b, ch)) = Inr v6" using run True by (auto simp: run_bind_eq_Inr)
    obtain n where n: "skip_char (CHR ''<'') b (Suc ch) = Inr n" using run True v6 by (auto simp: run_bind_eq_Inr)
    obtain buf0 where 0: "(if v6 then store (ip con) 0 (CHR ''['') else Inr (ip con)) = Inr buf0"
      using run True v6 n by (auto simp: run_bind_eq_Inr simp del: if_split)
    obtain r where r: "read_ip b n buf0 (if v6 then 1 else 0) = Inr r"
      using run True v6 n 0 by (auto simp: run_bind_eq_Inr)
    obtain buf1 ch1 i where r1: "r = Some (buf1, ch1, i)"
      using run True v6 n 0 r by (cases r) auto
    obtain buf2 where 2: "(if v6 then store buf1 i (CHR '']'') else Inr buf1) = Inr buf2"
      using run True v6 n 0 r r1 by (auto simp: run_bind_eq_Inr)
    obtain buf3 where 3: "store buf2 (if v6 then Suc i else i) NUL = Inr buf3"
      using run True v6 n 0 r r1 2 by (auto simp: run_bind_eq_Inr)
    obtain ok where ok: "looks_like_valid_ip (Some (buf3, 0)) = Inr ok"
      using run True v6 n 0 r r1 2 3 by (auto simp: run_bind_eq_Inr)
    have "ok \<and> con' = con\<lparr>ip := buf3\<rparr>" using run True v6 n 0 r r1 2 3 ok by (cases ok) simp_all
    then show thesis using that(2) 0 r r1 2 3 ok by simp
  qed
qed

lemma store_Inr: "store b i c = Inr b' \<longleftrightarrow> i < length b \<and> b' = b[i := c]"
  by (auto simp: store_def)

lemma parse_ip_field_typed:
  assumes "parse_ip_field b ch con = Inr (Some (con', ch'))" "ip_typed con"
  shows "ip_typed con' \<and> executable con' = executable con \<and> port con' = port con"
  using assms(1)
proof (cases rule: parse_ip_field_result)
  case 1
  then show ?thesis using assms(2) by simp
next
  case (2 v6 n buf0 buf1 ch1 i buf2 buf3)
  have len: "length (ip con) = INET6_ADDRSTRLEN + 2" using assms(2) by (simp add: ip_typed_def)
  define k where "k = (if v6 then 1 else 0 :: nat)"
  have k: "k < INET6_ADDRSTRLEN + 1" by (simp add: k_def INET6_ADDRSTRLEN_def)
  have b0: "length buf0 = INET6_ADDRSTRLEN + 2" "\<forall>j < k. \<not> field_end (buf0 ! j)"
    using 2(2) len by (cases v6; simp add: k_def store_Inr field_end_def; fail)+
  note run = 2(3) [folded k_def, unfolded read_ip_def]
  have res: "length buf1 = INET6_ADDRSTRLEN + 2" "i < INET6_ADDRSTRLEN + 1" using copy_until_result [OF run k] b0(1) by auto
  have prefix: "take k buf1 = take k buf0" "\<forall>j. k \<le> j \<and> j < i \<longrightarrow> \<not> field_end (buf1 ! j)"
    using copy_until_chars [OF run k] by auto
  have b1: "\<not> field_end (buf1 ! j)" if "j < i" for j
  proof (cases "j < k")
    case True
    then have "buf1 ! j = buf0 ! j" using prefix(1) by (metis nth_take)
    then show ?thesis using True b0(2) by simp
  next
    case False
    then show ?thesis using prefix(2) that by simp
  qed
  define m where "m = (if v6 then Suc i else i)"
  have b2: "length buf2 = INET6_ADDRSTRLEN + 2" "\<forall>j < m. \<not> field_end (buf2 ! j)"
    using 2(4) res b1 by (cases v6; auto simp: m_def store_Inr nth_list_update less_Suc_eq field_end_def; fail)+
  have m: "m < length buf2" "buf3 = buf2[m := NUL]" using 2(5) by (simp_all add: m_def store_Inr)
  note closed = cstr_closed [OF m(1) b2(2), folded m(2)]
  have "ip_typed (con\<lparr>ip := buf3\<rparr>)"
    using closed m b2(1) valid_ip_checked [OF 2(6) closed(3)] by (simp add: ip_typed_def)
  then show ?thesis using 2(1) by simp
qed

lemma parse_port_field_typed:
  "parse_port_field b ch con = Inr (Some con') \<Longrightarrow> con' = con \<or> (\<exists>n. con' = con\<lparr>port := n\<rparr> \<and> valid_port_number n)"
  by (auto simp: parse_port_field_def run_bind_eq_Inr split: if_splits)

lemma blank_ip_typed: "ip_typed blank_connection"
proof -
  have "cstr (ip blank_connection) = []" by (simp add: blank_connection_def INET6_ADDRSTRLEN_def)
  then show ?thesis using blank_connection_lengths by (simp add: ip_typed_def valid_ip_text_def)
qed

lemma parse_fields_typed:
  assumes "parse_fields b blank_connection = Inr (Some con)"
  shows "wf_connection con" "rule_typed (conn_abs con)"
proof -
  note run = assms [unfolded parse_fields_def]
  obtain exe ch i where r: "read_path b 0 (executable blank_connection) 0 = Inr (Some (exe, ch, i))"
    using run by (auto simp: run_bind_eq_Inr split: option.splits)
  obtain exe' where e: "store exe i NUL = Inr exe'" using run r by (auto simp: run_bind_eq_Inr)
  obtain ch1 where c1: "skip_char FIELD_SEPARATOR b ch = Inr ch1" using run r e by (auto simp: run_bind_eq_Inr)
  define con0 where "con0 = blank_connection\<lparr>executable := exe'\<rparr>"
  obtain con1 ch2 where p: "parse_ip_field b ch1 con0 = Inr (Some (con1, ch2))"
    using run r e c1 by (auto simp: con0_def run_bind_eq_Inr split: option.splits)
  obtain ch3 where "parse_port_field b ch3 con1 = Inr (Some con)"
    using run r e c1 p by (auto simp: con0_def run_bind_eq_Inr)
  note port = parse_port_field_typed [OF this]
  have max: "0 < MAX_ABSOLUTE_EXEC_PATH" by (simp add: MAX_ABSOLUTE_EXEC_PATH_def)
  note path = r [unfolded read_path_def]
  have res: "length exe = MAX_ABSOLUTE_EXEC_PATH + 1" "i < MAX_ABSOLUTE_EXEC_PATH" "\<forall>j < i. \<not> path_end (exe ! j)"
    using copy_until_result [OF path max] copy_until_chars [OF path max] blank_connection_lengths by auto
  have e': "i < length exe" "exe' = exe[i := NUL]" using e by (simp_all add: store_Inr)
  note closed = cstr_closed [OF e'(1) res(3), folded e'(2)]
  have "path_typed con0"
    using closed res e' by (auto simp: path_typed_def con0_def list_all_iff path_end_def)
  moreover have "ip_typed con0" "port con0 = NO_PORT"
    using blank_ip_typed by (simp_all add: con0_def ip_typed_def blank_connection_def)
  ultimately have "path_typed con1 \<and> ip_typed con1 \<and> port con1 = NO_PORT"
    using parse_ip_field_typed [OF p] by (simp add: path_typed_def)
  then have "path_typed con \<and> ip_typed con \<and> (port con = NO_PORT \<or> valid_port_number (port con))"
    using port by (auto simp: path_typed_def ip_typed_def)
  then show "wf_connection con" "rule_typed (conn_abs con)"
    by (auto simp: path_typed_def ip_typed_def wf_connection_def conn_abs_def)
qed

section \<open>The whitelist\<close>

definition typed_store :: "'a wl_state_scheme \<Rightarrow> bool" where
  "typed_store s \<longleftrightarrow> wl_inv s \<and> rules_typed (entries s)"

lemma typed_store_proc [simp]:
  "typed_store (s\<lparr>klog := l\<rparr>) = typed_store s" "typed_store (s\<lparr>procfs_buffer := b\<rparr>) = typed_store s"
  "typed_store (s\<lparr>procfs_buffer_size := n\<rparr>) = typed_store s" "typed_store (s\<lparr>netlog_config_proc_file := f\<rparr>) = typed_store s"
  "typed_store (printk x s) = typed_store s" "typed_store (initialize_procfs_buffer s) = typed_store s"
  by (simp_all add: typed_store_def wl_inv_def entries_def live_entries_def printk_def initialize_procfs_buffer_def)

lemma typed_add_text:
  "add_connection_string_to_proc_config cs s = Inr s' \<Longrightarrow> typed_store s \<Longrightarrow> typed_store s'"
  by (auto simp: add_connection_string_to_proc_config_def run_bind_eq_Inr split: option.splits)

lemma whitelist_typed:
  assumes "whitelist k cs s = Inr (v, s')" "typed_store s"
  shows "typed_store s'"
proof (cases "wl_size s = MAX_WHITELIST_SIZE \<or> \<not> k \<or> cs = None")
  case True
  then have "s' = s"
    using assms(1) by (cases cs) (auto simp: whitelist_def initialize_connection_from_string_def initialize_connection_def
        destroy_connection_def split: if_splits)
  then show ?thesis using assms(2) by simp
next
  case False
  then obtain b where b: "cs = Some b" "k" "wl_size s \<noteq> MAX_WHITELIST_SIZE" by auto
  have inv: "wl_inv s" and ty: "rules_typed (entries s)" using assms(2) by (simp_all add: typed_store_def)
  then have room: "wl_size s < MAX_WHITELIST_SIZE" and heap: "heap_wf (conns s)" and len: "length (white_list s) = MAX_WHITELIST_SIZE"
    using b(3) by (simp_all add: wl_inv_def)
  note parse = initialize_connection_from_string_run [OF heap, of b]
  obtain r where r: "parse_fields b blank_connection = Inr r"
    using assms(1) b by (auto simp: whitelist_def parse run_bind_eq_Inr)
  show ?thesis
  proof (cases r)
    case None
    then have "s' = s\<lparr>conns := bump (conns s)\<rparr>" using assms(1) b r by (simp add: whitelist_def parse)
    then show ?thesis using wl_inv_bump [OF inv] ty by (simp add: typed_store_def)
  next
    case (Some con)
    note con = parse_fields_typed [OF r [unfolded Some]]
    note run = assms(1) [unfolded whitelist_def b(1)]
    show ?thesis
    proof (cases "list_ex (attrs_match (conn_abs con)) (entries s)")
      case True
      then have "s' = s\<lparr>conns := add_obj con (conns s)\<rparr>"
        using run b r Some duplicate_test [OF inv con(1)] by (simp add: parse)
      then show ?thesis using wl_inv_leak [OF inv] ty by (simp add: typed_store_def)
    next
      case False
      then have "add_connection_string_to_proc_config (Some b) (push_entry con s) = Inr s'"
        using run b r Some duplicate_test [OF inv con(1)] room len by (auto simp: parse push_entry_def run_bind_eq_Inr)
      moreover have "length (entries s) < MAX_WHITELIST_SIZE" using room length_entries [OF inv] by simp
      then have "typed_store (push_entry con s)"
        using wl_inv_push [OF inv room con(1)] ty con(2) False
        by (auto simp: typed_store_def rules_typed_def sorted_wrt_append list_ex_iff attrs_match_sym
            simp del: rule_typed.simps)
      ultimately show ?thesis by (rule typed_add_text)
    qed
  qed
qed

lemma destroy_whitelist_typed: "destroy_whitelist s = Inr s' \<Longrightarrow> typed_store s \<Longrightarrow> typed_store s'"
  by (auto simp: typed_store_def destroy_whitelist_run wl_inv_def live_entries_def entries_def heap_wf_def restrict_map_def)

lemma report_typed: "whitelist_and_report who k b s = Inr (v, s') \<Longrightarrow> typed_store s \<Longrightarrow> typed_store s'"
  by (auto simp: whitelist_and_report_def run_bind_eq_Inr dest: whitelist_typed)

section \<open>The proc file\<close>

lemma update_loop_typed: "update_loop k temp i start len n s = Inr s' \<Longrightarrow> typed_store s \<Longrightarrow> typed_store s'"
proof (induction k temp i start len n s rule: update_loop.induct)
  case (1 k temp i start len n s)
  note run = "1.prems"(1) [unfolded update_loop.simps [of k temp i start len n s]]
  then obtain c where c: "load temp i = Inr c"
    by (auto simp: run_bind_eq_Inr)
  show ?case
  proof (cases "c = CHR '','' \<or> c = NUL")
    case True
    from c run True obtain b where b: "blit n 0 (take (Suc len) (drop start temp)) = Inr b"
      and run1: "run_bind (store b len NUL) (\<lambda>b.
        run_bind (whitelist_and_report PROC_CONFIG_NAME (k i) b s) (\<lambda>(err, s).
        if c = NUL then Inr s else update_loop k temp (Suc i) (start + Suc len) 0 b s)) = Inr s'"
      by (auto simp: run_bind_eq_Inr simp del: add_Suc_right)
    from run1 obtain b' where b': "store b len NUL = Inr b'"
      and run2: "run_bind (whitelist_and_report PROC_CONFIG_NAME (k i) b' s) (\<lambda>(err, s).
        if c = NUL then Inr s else update_loop k temp (Suc i) (start + Suc len) 0 b' s) = Inr s'"
      by (auto simp: run_bind_eq_Inr [of "store b len NUL"] simp del: add_Suc_right)
    from run2 obtain v s1 where s1: "whitelist_and_report PROC_CONFIG_NAME (k i) b' s = Inr (v, s1)"
      "(if c = NUL then Inr s1 else update_loop k temp (Suc i) (start + Suc len) 0 b' s1) = Inr s'"
      by (auto simp: run_bind_eq_Inr simp del: add_Suc_right)
    note ty = report_typed [OF s1(1) "1.prems"(2)]
    show ?thesis
    proof (cases "c = NUL")
      case True
      with s1 ty show ?thesis by simp
    next
      case False
      show ?thesis
        by (rule "1.IH"(1) [OF c True b b' s1(1) refl False]) (use s1(2) False ty in simp_all)
    qed
  next
    case False
    with c run "1.IH"(2) [OF c False] "1.prems"(2) show ?thesis by simp
  qed
qed

lemma update_whitelist_typed: "update_whitelist k stack s = Inr s' \<Longrightarrow> typed_store s \<Longrightarrow> typed_store s'"
  by (auto simp: update_whitelist_def run_bind_eq_Inr Let_def dest!: destroy_whitelist_typed update_loop_typed)

lemma procfile_write_typed: "procfile_write k stack user n s = Inr (v, s') \<Longrightarrow> typed_store s \<Longrightarrow> typed_store s'"
  by (auto simp: procfile_write_def run_bind_eq_Inr Let_def dest!: update_whitelist_typed split: if_splits)

lemma procfile_read_typed: "procfile_read offset n s = Inr (m, txt, s') \<Longrightarrow> typed_store s \<Longrightarrow> typed_store s'"
  by (auto simp: procfile_read_def run_bind_eq_Inr split: if_splits)

section \<open>The module\<close>

lemma typed_store_netlog [simp]:
  "typed_store (s\<lparr>bufs := b\<rparr>) = typed_store s" "typed_store (s\<lparr>match_socket := m\<rparr>) = typed_store s"
  "typed_store (s\<lparr>sock_refs := r\<rparr>) = typed_store s" "typed_store (s\<lparr>planted := p\<rparr>) = typed_store s"
  by (simp_all add: typed_store_def wl_inv_def entries_def live_entries_def)

lemma typed_store_refs [simp]:
  "typed_store (sockfd_get a s) = typed_store s" "typed_store (sockfd_put a s) = typed_store s"
  by (cases a; simp add: sockfd_get_def sockfd_put_def)+

lemma log_connection_typed [simp]:
  "typed_store (log_connection d_path proto arrow t sock dip dport s) = typed_store s"
  by (simp add: log_connection_def split_def Let_def)

lemma report_connection_typed:
  "report_connection d_path proto arrow t sock dip dport s = Inr s' \<Longrightarrow> typed_store s' = typed_store s"
  by (auto simp: report_connection_def run_bind_eq_Inr split: if_splits)

lemma report_close_typed:
  "report_close probe_udp d_path t sock dip dport s = Inr s' \<Longrightarrow> typed_store s' = typed_store s"
  by (auto simp: report_close_def run_bind_eq_Inr split: if_splits)

lemma post_connect_typed: "post_connect d_path mem (Some t) s = Inr s' \<Longrightarrow> typed_store s' = typed_store s"
  by (auto simp: post_connect_def post_connect_lookup_def post_connect_report_def set_match_socket_def run_bind_eq_Inr
      Let_def split_def dest: report_connection_typed split: if_splits)

lemma post_accept_typed: "post_accept d_path mem lookup (Some t) fd s = Inr s' \<Longrightarrow> typed_store s' = typed_store s"
  by (auto simp: post_accept_def run_bind_eq_Inr Let_def split_def dest: report_connection_typed split: if_splits)

lemma netlog_sys_close_typed:
  "netlog_sys_close probe_udp d_path mem lookup (Some t) fd s = Inr s' \<Longrightarrow> typed_store s' = typed_store s"
  by (auto simp: netlog_sys_close_def run_bind_eq_Inr Let_def split_def dest: report_close_typed split: if_splits)

lemma netlog_sys_bind_typed:
  "netlog_sys_bind d_path mem lookup (Some t) fd (Some ad) s = Inr s' \<Longrightarrow> typed_store s' = typed_store s"
  by (auto simp: netlog_sys_bind_def run_bind_eq_Inr Let_def split_def split: if_splits)

lemma handle_typed:
  assumes "handle probe_udp K e s = Inr s'" "typed_store s"
  shows "typed_store s'"
proof (cases e)
  case (Connect_entered t a)
  with assms show ?thesis by (auto simp: netlog_inet_stream_connect_def set_match_socket_def split: if_splits)
next
  case (Connect_returned t)
  with assms show ?thesis by (auto dest: post_connect_typed)
next
  case (Accept_returned t fd)
  with assms show ?thesis by (auto dest: post_accept_typed)
next
  case (Close_called t fd)
  with assms show ?thesis by (auto dest: netlog_sys_close_typed)
next
  case (Bind_called t fd ad)
  with assms show ?thesis by (auto dest: netlog_sys_bind_typed split: if_splits)
next
  case (Config_written user stack)
  with assms show ?thesis by (auto simp: run_bind_eq_Inr dest: procfile_write_typed)
qed

lemma unregister_typed [simp]: "typed_store (unregister_probe p what s) = typed_store s"
  by (simp add: unregister_probe_def)

lemma unplant_all_typed [simp]: "typed_store (unplant_all probe_udp s) = typed_store s"
  by (simp add: unplant_all_def Let_def)

lemma plant_all_typed: "plant_all probe_udp register s = (err, s') \<Longrightarrow> typed_store s' = typed_store s"
  by (auto simp: plant_all_def plant_def split: if_splits)

lemma whitelist_parameters_typed:
  "whitelist_parameters k i bs s = Inr s' \<Longrightarrow> typed_store s \<Longrightarrow> typed_store s'"
  by (induction bs arbitrary: i s) (auto simp: run_bind_eq_Inr dest: report_typed)

lemma do_whitelist_typed: "do_whitelist k bs s = Inr s' \<Longrightarrow> typed_store s \<Longrightarrow> typed_store s'"
  by (auto simp: do_whitelist_def Let_def dest!: whitelist_parameters_typed split: if_splits)

lemma plant_probes_typed:
  assumes "plant_probes probe_udp register create_ok k bs s = Inr (err, s')" "typed_store s"
  shows "typed_store s'"
proof -
  define s0 where "s0 = printk (MODULE_NAME @ '': Light monitoring tool for inet connections by CERN Security Team'' @ [NL]) s"
  obtain e s1 where s1: "plant_all probe_udp register s0 = (e, s1)" by fastforce
  then have "typed_store s1" using plant_all_typed [OF s1] assms(2) by (simp add: s0_def)
  moreover obtain e2 s2 where s2: "create_proc_config create_ok s1 = (e2, s2)" by fastforce
  ultimately have "typed_store (announce_proc_config e2 s2)"
    by (auto simp: create_proc_config_def announce_proc_config_def split: if_splits)
  then show ?thesis
    using assms(1) \<open>typed_store s1\<close> unfolding plant_probes_def Let_def s0_def [symmetric] s1 split_conv s2
    by (auto simp: announce_mode_def run_bind_eq_Inr dest: do_whitelist_typed split: if_splits)
qed

lemma unplant_probes_typed: "unplant_probes probe_udp s = Inr s' \<Longrightarrow> typed_store s \<Longrightarrow> typed_store s'"
  by (auto simp: unplant_probes_def destroy_proc_config_def run_bind_eq_Inr dest: destroy_whitelist_typed)

text \<open>
  The calls into netlog: its loading and unloading, the events of the kernel, and the reads and
  writes of the proc file, with any parameters and any answers of the allocator.
\<close>

datatype netlog_call =
    Load "probe \<Rightarrow> int" bool "nat \<Rightarrow> bool" "char list list"
  | Event kernel netlog_event
  | Config_write "nat \<Rightarrow> bool" "char list" "char list" "64 word"
  | Config_read int nat
  | Unload

primrec perform :: "bool \<Rightarrow> netlog_call \<Rightarrow> netlog_state \<Rightarrow> netlog_state run" where
  "perform probe_udp (Load register create_ok k bs) s =
     run_bind (plant_probes probe_udp register create_ok k bs s) (\<lambda>(err, s). Inr s)"
| "perform probe_udp (Event K e) s = handle probe_udp K e s"
| "perform probe_udp (Config_write k stack user count) s =
     run_bind (procfile_write k stack user count s) (\<lambda>(n, s). Inr s)"
| "perform probe_udp (Config_read offset n) s =
     run_bind (procfile_read offset n s) (\<lambda>(m, txt, s). Inr s)"
| "perform probe_udp Unload s = unplant_probes probe_udp s"

primrec perform_all :: "bool \<Rightarrow> netlog_call list \<Rightarrow> netlog_state \<Rightarrow> netlog_state run" where
  "perform_all probe_udp [] s = Inr s"
| "perform_all probe_udp (c # cs) s = run_bind (perform probe_udp c s) (perform_all probe_udp cs)"

lemma perform_typed: "perform probe_udp c s = Inr s' \<Longrightarrow> typed_store s \<Longrightarrow> typed_store s'"
  by (cases c) (auto simp: run_bind_eq_Inr
      dest: plant_probes_typed handle_typed procfile_write_typed procfile_read_typed unplant_probes_typed)

lemma perform_all_typed: "perform_all probe_udp cs s = Inr s' \<Longrightarrow> typed_store s \<Longrightarrow> typed_store s'"
  by (induction cs arbitrary: s) (auto simp: run_bind_eq_Inr dest: perform_typed)

text \<open>
  C15: The whitelist only ever holds well-typed rules. Take any sequence of calls that runs into no
  fault: loadings with any parameters, events of any tasks, writes of any bytes with any size to the proc
  file, reads, unloadings, each allocation failing or not. Afterwards every stored rule has a path below
  the limit, an ip text that passes the plausibility test and fits its array, and a port number or none;
  there are at most 150 of them, and none matches an earlier one.
\<close>

theorem rules_stay_typed:
  assumes "wl_inv s" "rules_typed (entries s)" "perform_all probe_udp cs s = Inr s'"
  shows "wl_inv s' \<and> rules_typed (entries s')"
  using perform_all_typed [OF assms(3)] assms(1,2) by (simp add: typed_store_def)

theorem rules_stay_typed_witness:
  "\<exists>s' s''. perform_all False [Event example_kernel (Config_written (''/bin/a|p<22>,/bin/b|p<99999>'' @ [NL])
       (replicate MAX_NEW_CONNECTION_SIZE NUL))] example_state = Inr s' \<and> rules_typed (entries s') \<and>
     perform_all False [Config_write (\<lambda>_. False) [] [] 5000, Config_read 1 10, Unload] example_state = Inr s'' \<and>
     rules_typed (entries s'')"
proof -
  define user where "user = ''/bin/a|p<22>,/bin/b|p<99999>'' @ [NL]"
  have w: "written_text user = ''/bin/a|p<22>,/bin/b|p<99999>''"
    by (simp add: written_text_def user_def)
  have pieces: "split_commas ''/bin/a|p<22>,/bin/b|p<99999>'' = [''/bin/a|p<22>'', ''/bin/b|p<99999>'']"
    using split_commas_at [of "''/bin/a|p<22>''" "''/bin/b|p<99999>''"] split_commas_single [of "''/bin/b|p<99999>''"]
    by (simp del: split_commas.simps)
  have "\<not> ip_unterminated ''/bin/a|p<22>''" "\<not> ip_unterminated ''/bin/b|p<99999>''" by code_simp+
  then have "list_all good_piece [''/bin/a|p<22>'', ''/bin/b|p<99999>'']"
    by (simp add: good_piece_def MAX_NEW_CONNECTION_SIZE_def)
  then have "good_event (Config_written user (replicate MAX_NEW_CONNECTION_SIZE NUL))"
    unfolding good_event.simps w pieces by (simp add: user_def PROCFS_MAX_SIZE_def)
  from handle_monitor [OF example_state_inv(1) this, of False example_kernel] obtain s' where
    s': "perform_all False [Event example_kernel (Config_written user (replicate MAX_NEW_CONNECTION_SIZE NUL))]
      example_state = Inr s'" by auto
  have inv: "wl_inv example_state" "rules_typed (entries example_state)"
    using example_state_inv(1) by (simp_all add: store_inv_def example_state_inv(2))
  define s0 where "s0 = printk (PROC_CONFIG_NAME @ '': There is no enought space in the procfs buffer, changes will be ignored'' @ [NL])
    (example_state\<lparr>procfs_buffer_size := 5000\<rparr>)"
  have "store_inv (example_state\<lparr>procfs_buffer_size := 5000\<rparr>)"
    using example_state_inv(1) by (simp add: store_inv_def proc_inv_def wl_inv_def live_entries_def)
  then have "store_inv s0" by (simp add: s0_def)
  then have "\<exists>s''. unplant_probes False s0 = Inr s''" using unplant_probes_cleans_up by blast
  moreover have "procfile_write (\<lambda>_. False) [] [] 5000 example_state = Inr (- ENOSPC, s0)"
    by (simp add: procfile_write_def PROCFS_MAX_SIZE_def s0_def)
  ultimately obtain s'' where
    s'': "perform_all False [Config_write (\<lambda>_. False) [] [] 5000, Config_read 1 10, Unload] example_state = Inr s''"
    by (auto simp: procfile_read_def)
  show ?thesis
    using s' s'' rules_stay_typed [OF inv s'] rules_stay_typed [OF inv s''] unfolding user_def by blast
qed

end
