(* ===== verification/Dresden.thy ===== *)
theory Dresden imports Kernel_Base begin

text \<open>
  dresden, the module that blocks the loading of further modules (dresden/src): the notifier that
  replaces the init function of every module on its way in (module_notifier_event.c), the optional
  proc entry (proc_entry.c) and the module's own start (dresden_core.c). A module's init function is
  a function on the kernel's state 'w, so that replacing it is visible in what running it does.
\<close>

record 'w module =
  mod_name :: string
  mod_state :: module_state
  mod_init :: "'w \<Rightarrow> int \<times> 'w"
  init_address :: nat
  init_size :: nat
  module_core :: nat
  core_size :: nat

record dresden_state = kernel_log +
  handler_registered :: bool
  in_module_list :: bool
  dresden_proc_entry :: bool

definition DRESDEN_OK :: int where "DRESDEN_OK = 0"
definition PROC_CREATED :: int where "PROC_CREATED = 1"
definition PROC_ENTRY_EXISTS :: int where "PROC_ENTRY_EXISTS = 2"
definition ECREATE_PROC_ENTRY :: int where "ECREATE_PROC_ENTRY = 3"

text \<open>The conversions %x and %p of printk.\<close>

definition fmt_x :: "nat \<Rightarrow> string" where
  "fmt_x n = radix_string 16 n"

definition fmt_p :: "nat \<Rightarrow> string" where
  "fmt_p n = (let s = radix_string 16 n in replicate (16 - length s) (CHR ''0'') @ s)"

section \<open>The notifier\<close>

definition fail :: "'a kernel_log_scheme \<Rightarrow> int \<times> 'a kernel_log_scheme" where
  "fail s = (- 1, printk (''Module insertion blocked by CERN's dresden'' @ [CHR 0x0A]) s)"

definition sizes_of :: "'w module \<Rightarrow> string" where
  "sizes_of m =
     '' core: 0x'' @ fmt_p (module_core m) @ '' size of core (text + data) 0x'' @ fmt_x (core_size m) @ [CHR 0x0A]"

text \<open>
  this_module tells whether the module is dresden itself; fail_address is where fail is in memory.
\<close>

definition dresden_module_handler ::
  "nat \<Rightarrow> bool \<Rightarrow> 'a kernel_log_scheme module \<Rightarrow> 'a kernel_log_scheme \<Rightarrow>
   'a kernel_log_scheme module \<times> 'a kernel_log_scheme" where
  "dresden_module_handler fail_address this_module new_module s =
     (case mod_state new_module of
        MODULE_STATE_COMING \<Rightarrow>
          (let s = printk (''dresden: event: MODULE_STATE_COMING name: '' @ mod_name new_module @
                 '' init: 0x'' @ fmt_p (init_address new_module) @ '' size of init (text + data)'' @
                 replicate 13 (CHR 0x09) @ ''0x'' @ fmt_x (init_size new_module) @ sizes_of new_module) s;
               new_module = new_module\<lparr>mod_init := fail, init_address := fail_address\<rparr>
           in (new_module,
               printk (''dresden: New module is th name '' @ mod_name new_module @
                 ''. Its functionality will be disabled'' @ [CHR 0x0A]) s))
      | MODULE_STATE_LIVE \<Rightarrow>
          (new_module,
           if this_module then s
           else printk (''dresden: event: MODULE_STATE_LIVE name: '' @ mod_name new_module @ sizes_of new_module) s)
      | MODULE_STATE_GOING \<Rightarrow>
          (new_module,
           printk (''dresden: event: MODULE_STATE_GOING name: '' @ mod_name new_module @ sizes_of new_module) s)
      | MODULE_STATE_OTHER \<Rightarrow>
          (new_module,
           printk (''dresden: ERROR unknown module state in notifier chain for '' @ mod_name new_module @
             '' module'' @ [CHR 0x0A]) s))"

definition register_module_notifier_event_handler :: "'a dresden_state_scheme \<Rightarrow> 'a dresden_state_scheme" where
  "register_module_notifier_event_handler s = s\<lparr>handler_registered := True\<rparr>"

section \<open>The proc entry and the start of the module\<close>

definition dresden_procfile_read :: "int \<Rightarrow> string" where
  "dresden_procfile_read offset = (if 0 < offset then [] else ''1'' @ [CHR 0x0A])"

definition init_proc_entry :: "bool \<Rightarrow> 'a dresden_state_scheme \<Rightarrow> int \<times> 'a dresden_state_scheme" where
  "init_proc_entry create_ok s =
     (if dresden_proc_entry s then (PROC_ENTRY_EXISTS, s)
      else if \<not> create_ok then (- ECREATE_PROC_ENTRY, s)
      else (PROC_CREATED, s\<lparr>dresden_proc_entry := True\<rparr>))"

definition dresden_line :: "string \<Rightarrow> string" where
  "dresden_line txt = ''dresden:'' @ CHR 0x09 # txt @ [CHR 0x0A]"

definition dresden_engage :: "int \<Rightarrow> bool \<Rightarrow> 'a dresden_state_scheme \<Rightarrow> int \<times> 'a dresden_state_scheme" where
  "dresden_engage show_proc_entry create_ok s =
     (let s = register_module_notifier_event_handler s;
          s = s\<lparr>in_module_list := False\<rparr>;
          s = printk (''dresden: Kernel module insertion blocker and action notifier by CERN Security Team'' @ [CHR 0x0A]) s;
          s = printk (dresden_line ''[+] Future loading of kernel modules will be prevented'') s;
          s = printk (dresden_line ''[+] Emergency messages will be logged in case of trying to load or unload a module'') s;
          s = printk (dresden_line ''[+] You are not able to remove this module'') s;
          s = (if show_proc_entry \<noteq> 0
               then let (err, s) = init_proc_entry create_ok s
                    in if err = PROC_CREATED
                       then printk (dresden_line ''[+] Created /proc/dresden entry'') s
                       else printk (dresden_line ''[-] Failed to create /proc/dresden entry'') s
               else s)
      in (DRESDEN_OK, s))"

interpretation dresden_proc: proc_reader dresden_procfile_read "''1'' @ [CHR 0x0A]"
  by unfold_locales (simp_all add: dresden_procfile_read_def)

lemma cat_dresden: "cat_file dresden_procfile_read (Suc (Suc n)) 0 = ''1'' @ [CHR 0x0A]"
  by (rule dresden_proc.cat_whole)

section \<open>The properties\<close>

text \<open>
  dresden blocks every module: once its notifier has seen a module that is coming, running the
  module's init function returns -1 and does nothing but print one line, whatever the function was
  before; a module in any other state keeps its init function. Every event is reported, except that
  dresden itself went live.
\<close>

theorem dresden_blocks_modules:
  "(case dresden_module_handler fail_address this_module m s of (m', s') \<Rightarrow>
     (if mod_state m = MODULE_STATE_COMING
      then \<forall>w. mod_init m' w = (- 1, w\<lparr>klog := klog w @ [''Module insertion blocked by CERN's dresden'' @ [CHR 0x0A]]\<rparr>)
      else m' = m) \<and>
     (if mod_state m = MODULE_STATE_LIVE \<and> this_module then s' = s
      else length (klog s) < length (klog s')))"
  by (cases "mod_state m") (simp_all add: dresden_module_handler_def fail_def printk_def Let_def)

text \<open>
  Starting dresden always succeeds: the notifier is registered, the module is out of the list
  that rmmod searches, and the proc entry is there exactly when it was asked for and could be
  created.
\<close>

theorem dresden_engaged:
  "(case dresden_engage show_proc create_ok s of (err, s') \<Rightarrow>
     err = DRESDEN_OK \<and> handler_registered s' \<and> \<not> in_module_list s' \<and>
     dresden_proc_entry s' = (dresden_proc_entry s \<or> show_proc \<noteq> 0 \<and> create_ok))"
  by (simp add: dresden_engage_def init_proc_entry_def register_module_notifier_event_handler_def
      printk_def PROC_CREATED_def PROC_ENTRY_EXISTS_def ECREATE_PROC_ENTRY_def Let_def)

section \<open>Any number of modules\<close>

text \<open>
  What the kernel does with modules while dresden is loaded, as far as dresden can tell: it sets one up
  in its table, tells the notifiers about a change of its state, and runs the init function that the
  table holds at that moment. The results of the init functions are collected.
\<close>

datatype 'w module_event =
    Set_up nat "'w module"
  | Notify nat module_state
  | Run_init nat

record 'w module_table =
  mods :: "nat \<Rightarrow> 'w module option"
  system :: 'w
  returned :: "int list"

primrec module_step ::
  "nat \<Rightarrow> 'a dresden_state_scheme module_event \<Rightarrow> 'a dresden_state_scheme module_table \<Rightarrow>
   'a dresden_state_scheme module_table" where
  "module_step fail_address (Set_up i m) l = l\<lparr>mods := (mods l)(i \<mapsto> m)\<rparr>"
| "module_step fail_address (Notify i st) l =
     (case mods l i of
        None \<Rightarrow> l
      | Some m \<Rightarrow>
          (let m = m\<lparr>mod_state := st\<rparr> in
           if handler_registered (system l)
           then let (m', s) = dresden_module_handler fail_address False m (system l)
                in l\<lparr>mods := (mods l)(i \<mapsto> m'), system := s\<rparr>
           else l\<lparr>mods := (mods l)(i \<mapsto> m)\<rparr>))"
| "module_step fail_address (Run_init i) l =
     (case mods l i of
        None \<Rightarrow> l
      | Some m \<Rightarrow> (let (r, s) = mod_init m (system l) in l\<lparr>system := s, returned := returned l @ [r]\<rparr>))"

text \<open>
  The kernel's order: an init function is run only after the notifiers were told that its module is
  coming, with no other module set up in its place since. A holds the modules that were announced.
\<close>

primrec announced_first :: "'w module_event list \<Rightarrow> nat set \<Rightarrow> bool" where
  "announced_first [] A = True"
| "announced_first (e # es) A =
     (case e of
        Set_up i m \<Rightarrow> announced_first es (A - {i})
      | Notify i st \<Rightarrow> announced_first es (if st = MODULE_STATE_COMING then insert i A else A)
      | Run_init i \<Rightarrow> i \<in> A \<and> announced_first es A)"

definition only_logged :: "'a dresden_state_scheme \<Rightarrow> 'a dresden_state_scheme module_table \<Rightarrow> bool" where
  "only_logged s l \<longleftrightarrow> (\<exists>lines. system l = s\<lparr>klog := klog s @ lines\<rparr>) \<and> set (returned l) \<subseteq> {- 1}"

definition disarmed :: "nat set \<Rightarrow> 'a dresden_state_scheme module_table \<Rightarrow> bool" where
  "disarmed A l \<longleftrightarrow> (\<forall>i \<in> A. \<forall>m. mods l i = Some m \<longrightarrow> mod_init m = fail)"

lemma handler_logs_only:
  "\<exists>lines. snd (dresden_module_handler fa this m (s :: 'a dresden_state_scheme)) = s\<lparr>klog := klog s @ lines\<rparr>"
  by (cases "mod_state m") (auto simp: dresden_module_handler_def printk_def Let_def intro: exI [of _ "[]"])

lemma handler_replaces_init:
  "mod_init (fst (dresden_module_handler fa this m s)) = (if mod_state m = MODULE_STATE_COMING then fail else mod_init m)"
  by (cases "mod_state m") (simp_all add: dresden_module_handler_def Let_def)

lemmas handler_logs = handler_logs_only handler_replaces_init

lemma notified:
  assumes "only_logged s l" "disarmed A l" "handler_registered s"
  shows "only_logged s (module_step fa (Notify i st) l)"
    "disarmed (if st = MODULE_STATE_COMING then insert i A else A) (module_step fa (Notify i st) l)"
proof -
  have h: "handler_registered (system l)" using assms(1,3) by (auto simp: only_logged_def)
  have "only_logged s (module_step fa (Notify i st) l) \<and>
    disarmed (if st = MODULE_STATE_COMING then insert i A else A) (module_step fa (Notify i st) l)"
  proof (cases "mods l i")
    case None
    then show ?thesis using assms(1,2) by (auto simp: disarmed_def)
  next
    case (Some m)
    obtain m' s' where m': "dresden_module_handler fa False (m\<lparr>mod_state := st\<rparr>) (system l) = (m', s')" by fastforce
    have "\<exists>lines. s' = (system l)\<lparr>klog := klog (system l) @ lines\<rparr>"
      using handler_logs(1) [of fa False "m\<lparr>mod_state := st\<rparr>" "system l"] m' by simp
    then have "only_logged s (l\<lparr>mods := (mods l)(i \<mapsto> m'), system := s'\<rparr>)"
      using assms(1) by (auto simp: only_logged_def)
    moreover have "mod_init m' = (if st = MODULE_STATE_COMING then fail else mod_init m)"
      using handler_logs(2) [of fa False "m\<lparr>mod_state := st\<rparr>" "system l"] m' by simp
    then have "disarmed (if st = MODULE_STATE_COMING then insert i A else A) (l\<lparr>mods := (mods l)(i \<mapsto> m'), system := s'\<rparr>)"
      using assms(2) Some by (auto simp: disarmed_def)
    ultimately show ?thesis using Some h m' by (simp add: Let_def)
  qed
  then show "only_logged s (module_step fa (Notify i st) l)"
    "disarmed (if st = MODULE_STATE_COMING then insert i A else A) (module_step fa (Notify i st) l)"
    by simp_all
qed

lemma init_run:
  assumes "only_logged s l" "disarmed A l" "i \<in> A"
  shows "only_logged s (module_step fa (Run_init i) l) \<and> disarmed A (module_step fa (Run_init i) l)"
  using assms by (cases "mods l i") (auto simp: disarmed_def only_logged_def fail_def printk_def)

lemma blocked:
  assumes "only_logged s l" "disarmed A l" "handler_registered s" "announced_first es A"
  shows "only_logged s (fold (module_step fa) es l)"
  using assms(1,2,4)
proof (induction es arbitrary: l A)
  case Nil
  then show ?case by simp
next
  case (Cons e es)
  show ?case
  proof (cases e)
    case (Set_up i m)
    then have "only_logged s (module_step fa e l)" "disarmed (A - {i}) (module_step fa e l)"
      using Cons.prems by (auto simp: only_logged_def disarmed_def)
    from Cons.IH [OF this] Cons.prems(3) Set_up show ?thesis by simp
  next
    case (Notify i st)
    from Cons.IH [OF notified [OF Cons.prems(1,2) assms(3), where fa = fa and i = i and st = st]] Cons.prems(3) Notify show ?thesis by simp
  next
    case (Run_init i)
    then have "i \<in> A" "announced_first es A" using Cons.prems(3) by simp_all
    from Cons.IH [OF init_run [OF Cons.prems(1,2) this(1), THEN conjunct1] init_run [OF Cons.prems(1,2) this(1), THEN conjunct2] this(2)]
      Run_init show ?thesis by simp
  qed
qed

text \<open>
  C14: Once dresden is engaged, no module does anything: whatever modules the kernel sets up and in
  whatever order their states change and their init functions are run, as long as each is announced
  as coming before its init function runs, every init function returns -1, and nothing of the system
  changes but the log.
\<close>

theorem dresden_blocks_all:
  assumes "announced_first es {}" "returned l = []" "system l = snd (dresden_engage show_proc create_ok s)"
  shows "\<exists>lines. system (fold (module_step fail_address) es l) =
      (snd (dresden_engage show_proc create_ok s))\<lparr>klog := klog (snd (dresden_engage show_proc create_ok s)) @ lines\<rparr> \<and>
    set (returned (fold (module_step fail_address) es l)) \<subseteq> {- 1}"
proof -
  have "handler_registered (snd (dresden_engage show_proc create_ok s))"
    using dresden_engaged [where show_proc = show_proc and create_ok = create_ok and s = s] by (simp add: split_beta)
  moreover have "only_logged (snd (dresden_engage show_proc create_ok s)) l"
    using assms(2,3) unfolding only_logged_def by (intro conjI exI [of _ "[]"]) simp_all
  moreover have "disarmed {} l" by (simp add: disarmed_def)
  ultimately show ?thesis
    using blocked [of "snd (dresden_engage show_proc create_ok s)" l "{}" es fail_address] assms(1)
    by (simp add: only_logged_def)
qed

text \<open>A module whose init function would take dresden's notifier away.\<close>

theorem dresden_blocks_all_witness:
  "handler_registered (system (fold (module_step 7)
     [Set_up 1 \<lparr>mod_name = ''m'', mod_state = MODULE_STATE_COMING, mod_init = (\<lambda>s. (0, s\<lparr>handler_registered := False\<rparr>)),
        init_address = 5, init_size = 1, module_core = 6, core_size = 1\<rparr>,
      Notify 1 MODULE_STATE_COMING, Run_init 1]
     \<lparr>mods = Map.empty, system = snd (dresden_engage 0 True
        \<lparr>klog = [], handler_registered = False, in_module_list = True, dresden_proc_entry = False\<rparr>), returned = []\<rparr>))"
proof -
  define s0 where "s0 = \<lparr>klog = [], handler_registered = False, in_module_list = True, dresden_proc_entry = False\<rparr>"
  define es :: "dresden_state module_event list" where "es = [Set_up 1 \<lparr>mod_name = ''m'', mod_state = MODULE_STATE_COMING, mod_init = (\<lambda>s. (0, s\<lparr>handler_registered := False\<rparr>)),
      init_address = 5, init_size = 1, module_core = 6, core_size = 1\<rparr>, Notify 1 MODULE_STATE_COMING, Run_init 1]"
  have "announced_first es {}" by (simp add: es_def)
  from dresden_blocks_all [OF this, where l = "\<lparr>mods = Map.empty, system = snd (dresden_engage 0 True s0), returned = []\<rparr>"
      and fail_address = 7 and show_proc = 0 and create_ok = True and s = s0]
  obtain lines where "system (fold (module_step 7) es \<lparr>mods = Map.empty, system = snd (dresden_engage 0 True s0), returned = []\<rparr>) =
      (snd (dresden_engage 0 True s0))\<lparr>klog := klog (snd (dresden_engage 0 True s0)) @ lines\<rparr>" by auto
  moreover have "handler_registered (snd (dresden_engage 0 True s0))"
    by (simp add: dresden_engage_def register_module_notifier_event_handler_def printk_def Let_def)
  ultimately show ?thesis unfolding es_def s0_def by simp
qed

end
