(* ===== verification/Task_Dump_List.thy ===== *)
theory Task_Dump_List imports Kernel_Base "HOL-Library.Finite_Map" begin

text \<open>
  The list of process snapshots of carbonite (task-dump-list.c, task-utils.c): a singly linked list
  in the kernel's heap with a header that holds its size, head and tail. The heap is three finite
  maps, one for each kind of object kmalloc is called for; the abstraction of a list is the sequence
  of the snapshot pointers in its nodes.
\<close>

definition MAX_STATE_LEN :: nat where "MAX_STATE_LEN = 2"
definition TASK_COMM_LEN :: nat where "TASK_COMM_LEN = 16"

text \<open>A task as the kernel gives it; start_ns is the value of timespec_to_ns on its start time.\<close>

record task =
  task_pid :: int
  task_uid :: int
  task_gid :: int
  task_state :: "32 word"
  task_comm :: "char list"
  start_ns :: int

section \<open>The state letter\<close>

definition task_state_array :: "string list" where
  "task_state_array = [''R'', ''S'', ''D'', ''Z'', ''T'', ''W'']"

function state_index :: "32 word \<Rightarrow> nat \<Rightarrow> nat" where
  "state_index state p = (if state \<noteq> 0 then state_index (drop_bit 1 state) (Suc p) else p)"
  by pat_completeness auto
termination
proof (relation "measure (\<lambda>(state, p). unat state)")
  show "((drop_bit 1 state, Suc p), state, p) \<in> measure (\<lambda>(state, p). unat state)"
    if "state \<noteq> 0" for state :: "32 word" and p
  proof -
    have "unat (drop_bit 1 state) = unat state div 2"
      by (simp add: drop_bit_eq_div unat_div)
    moreover have "0 < unat state" using that by (simp add: unat_gt_0)
    ultimately show ?thesis by simp
  qed
qed simp

declare state_index.simps [simp del]

text \<open>TASK_REPORT is the kernel's mask of the states that are shown.\<close>

definition get_task_state_letter :: "32 word \<Rightarrow> task \<Rightarrow> string run" where
  "get_task_state_letter TASK_REPORT t =
     (let p = state_index (task_state t AND TASK_REPORT) 0
      in if p < length task_state_array then Inr (task_state_array ! p) else Inl Read_out_of_bounds)"

definition get_task_state :: "32 word \<Rightarrow> task option \<Rightarrow> char list option \<Rightarrow> char list option run" where
  "get_task_state TASK_REPORT t buffer =
     (case (t, buffer) of
        (Some t, Some b) \<Rightarrow>
          run_bind (get_task_state_letter TASK_REPORT t) (\<lambda>s.
          run_bind (blit b 0 (strncpy s MAX_STATE_LEN)) (\<lambda>b. Inr (Some b)))
      | _ \<Rightarrow> Inr buffer)"

section \<open>The heap\<close>

record task_dump =
  dump_pid :: int
  dump_uid :: int
  dump_gid :: int
  dump_state :: "char list"
  dump_comm :: "char list"
  dump_start_time :: int

record task_dump_node =
  node_dump :: "nat option"
  node_next :: "nat option"

record task_dump_list =
  list_size :: int
  list_head :: "nat option"
  list_tail :: "nat option"

record dump_heap =
  dumps :: "(nat, task_dump) fmap"
  nodes :: "(nat, task_dump_node) fmap"
  lists :: "(nat, task_dump_list) fmap"
  next_free :: nat

text \<open>garbage is what the memory kmalloc returned holds.\<close>

definition init_task_dump_from_task ::
  "32 word \<Rightarrow> bool \<Rightarrow> task_dump \<Rightarrow> task option \<Rightarrow> dump_heap \<Rightarrow> (nat option \<times> dump_heap) run" where
  "init_task_dump_from_task TASK_REPORT kmalloc_ok garbage t h =
     (case t of
        None \<Rightarrow> Inr (None, h)
      | Some tsk \<Rightarrow>
          if \<not> kmalloc_ok then Inr (None, h)
          else
            (let a = next_free h;
                 dump = garbage\<lparr>dump_pid := task_pid tsk, dump_uid := task_uid tsk, dump_gid := task_gid tsk\<rparr>
             in run_bind (get_task_state TASK_REPORT t (Some (dump_state dump))) (\<lambda>st.
                let dump = dump\<lparr>dump_state := (case st of Some b \<Rightarrow> b | None \<Rightarrow> dump_state dump),
                             dump_comm := strncpy (task_comm tsk) TASK_COMM_LEN,
                             dump_start_time := start_ns tsk\<rparr>
                in Inr (Some a, h\<lparr>dumps := fmupd a dump (dumps h), next_free := Suc a\<rparr>))))"

definition init_task_dump_list :: "bool \<Rightarrow> dump_heap \<Rightarrow> nat option \<times> dump_heap" where
  "init_task_dump_list kmalloc_ok h =
     (if \<not> kmalloc_ok then (None, h)
      else (Some (next_free h),
            h\<lparr>lists := fmupd (next_free h) \<lparr>list_size = 0, list_head = None, list_tail = None\<rparr> (lists h),
              next_free := Suc (next_free h)\<rparr>))"

definition init_task_dump_node :: "bool \<Rightarrow> nat option \<Rightarrow> dump_heap \<Rightarrow> nat option \<times> dump_heap" where
  "init_task_dump_node kmalloc_ok task_dump h =
     (if \<not> kmalloc_ok then (None, h)
      else (Some (next_free h),
            h\<lparr>nodes := fmupd (next_free h) \<lparr>node_dump = task_dump, node_next = None\<rparr> (nodes h),
              next_free := Suc (next_free h)\<rparr>))"

definition deref :: "(nat, 'o) fmap \<Rightarrow> nat option \<Rightarrow> 'o run" where
  "deref m p =
     (case p of None \<Rightarrow> Inl Null_dereference
      | Some a \<Rightarrow> (case fmlookup m a of None \<Rightarrow> Inl Use_after_free | Some x \<Rightarrow> Inr x))"

definition add_task_dump_to_list ::
  "bool \<Rightarrow> nat option \<Rightarrow> nat option \<Rightarrow> dump_heap \<Rightarrow> (int \<times> dump_heap) run" where
  "add_task_dump_to_list kmalloc_ok l dump h =
     (case l of
        None \<Rightarrow> Inr (0, h)
      | Some la \<Rightarrow>
          (case init_task_dump_node kmalloc_ok dump h of
             (None, h) \<Rightarrow> Inr (0, h)
           | (Some a, h) \<Rightarrow>
               run_bind (deref (lists h) l) (\<lambda>hdr.
               run_bind
                 (if list_head hdr = None
                  then Inr (hdr\<lparr>list_head := Some a, list_tail := Some a\<rparr>, h)
                  else
                    run_bind (deref (nodes h) (list_tail hdr)) (\<lambda>t.
                    Inr (hdr\<lparr>list_tail := Some a\<rparr>,
                         h\<lparr>nodes := fmupd (the (list_tail hdr)) (t\<lparr>node_next := Some a\<rparr>) (nodes h)\<rparr>)))
                 (\<lambda>(hdr, h).
                 Inr (1, h\<lparr>lists := fmupd la (hdr\<lparr>list_size := list_size hdr + 1\<rparr>) (lists h)\<rparr>)))))"

definition get_size :: "nat option \<Rightarrow> dump_heap \<Rightarrow> int run" where
  "get_size l h = (case l of None \<Rightarrow> Inr 0 | Some a \<Rightarrow> run_bind (deref (lists h) l) (\<lambda>hdr. Inr (list_size hdr)))"

text \<open>The loop \<^verbatim>\<open>while(n-- && node) node = node->next\<close>.\<close>

primrec node_after :: "nat \<Rightarrow> (nat, task_dump_node) fmap \<Rightarrow> nat option \<Rightarrow> nat option run" where
  "node_after 0 m node = Inr node"
| "node_after (Suc n) m node =
     (if node = None then Inr None
      else run_bind (deref m node) (\<lambda>x. node_after n m (node_next x)))"

definition get_task_dump :: "nat option \<Rightarrow> nat \<Rightarrow> dump_heap \<Rightarrow> nat option run" where
  "get_task_dump l n h =
     run_bind (deref (lists h) l) (\<lambda>hdr.
     if list_size hdr < int n then Inr None
     else
       run_bind (node_after n (nodes h) (list_head hdr)) (\<lambda>node.
       if node = None then Inr None
       else run_bind (deref (nodes h) node) (\<lambda>x. Inr (node_dump x))))"

definition free_dump :: "nat option \<Rightarrow> dump_heap \<Rightarrow> dump_heap run" where
  "free_dump d h =
     (case d of None \<Rightarrow> Inr h
      | Some a \<Rightarrow> if fmlookup (dumps h) a = None then Inl Invalid_free
                  else Inr (h\<lparr>dumps := fmdrop a (dumps h)\<rparr>))"

lemma free_dump_nodes: "free_dump d h = Inr h' \<Longrightarrow> nodes h' = nodes h"
  by (auto simp: free_dump_def split: option.splits if_splits)

function destroy_nodes :: "nat option \<Rightarrow> dump_heap \<Rightarrow> dump_heap run" where
  "destroy_nodes to_delete h =
     (if to_delete = None then Inr h
      else
        run_bind (deref (nodes h) to_delete) (\<lambda>temp.
        run_bind (free_dump (node_dump temp) h) (\<lambda>h'.
        destroy_nodes (node_next temp) (h'\<lparr>nodes := fmdrop (the to_delete) (nodes h')\<rparr>))))"
  by pat_completeness auto
termination
proof (relation "measure (\<lambda>(p, h). card (fmdom' (nodes h)))")
  show "((node_next temp, h'\<lparr>nodes := fmdrop (the p) (nodes h')\<rparr>), p, h)
      \<in> measure (\<lambda>(p, h). card (fmdom' (nodes h)))"
    if "p \<noteq> None" "deref (nodes h) p = Inr temp" "free_dump (node_dump temp) h = Inr h'" for p h temp h'
  proof -
    from that(1,2) have "the p \<in> fmdom' (nodes h)"
      by (auto simp: deref_def fmlookup_dom'_iff split: option.splits)
    then have "card (fmdom' (nodes h) - {the p}) < card (fmdom' (nodes h))"
      by (rule card_Diff1_less [OF finite_fmdom'])
    then show ?thesis
      using free_dump_nodes [OF that(3)] by simp
  qed
qed simp

declare destroy_nodes.simps [simp del]

definition destroy_task_dump_list :: "nat option \<Rightarrow> dump_heap \<Rightarrow> dump_heap run" where
  "destroy_task_dump_list l h =
     (if l = None then Inr h
      else run_bind (deref (lists h) l) (\<lambda>hdr. destroy_nodes (list_head hdr) h))"

section \<open>The list as a sequence\<close>

fun chain :: "(nat, task_dump_node) fmap \<Rightarrow> nat option \<Rightarrow> nat list \<Rightarrow> bool" where
  "chain m p [] \<longleftrightarrow> p = None"
| "chain m p (a # as) \<longleftrightarrow>
     p = Some a \<and> (case fmlookup m a of None \<Rightarrow> False | Some x \<Rightarrow> chain m (node_next x) as)"

text \<open>The nodes of the list l are at the addresses as.\<close>

definition list_at :: "dump_heap \<Rightarrow> nat option \<Rightarrow> nat list \<Rightarrow> bool" where
  "list_at h l as \<longleftrightarrow>
     (\<exists>la hdr. l = Some la \<and> fmlookup (lists h) la = Some hdr \<and> chain (nodes h) (list_head hdr) as \<and>
        distinct as \<and> (as \<noteq> [] \<longrightarrow> list_tail hdr = Some (last as)) \<and> list_size hdr = int (length as))"

definition dumps_of :: "dump_heap \<Rightarrow> nat list \<Rightarrow> nat option list" where
  "dumps_of h as = map (\<lambda>a. node_dump (the (fmlookup (nodes h) a))) as"

definition dump_heap_ok :: "dump_heap \<Rightarrow> bool" where
  "dump_heap_ok h \<longleftrightarrow>
     (\<forall>a \<ge> next_free h. fmlookup (nodes h) a = None \<and> fmlookup (dumps h) a = None \<and> fmlookup (lists h) a = None)"

lemma deref_Some: "fmlookup m a = Some x \<Longrightarrow> deref m (Some a) = Inr x"
  by (simp add: deref_def)

lemma chain_lookup: "chain m p as \<Longrightarrow> a \<in> set as \<Longrightarrow> \<exists>x. fmlookup m a = Some x"
  by (induction m p as rule: chain.induct) (auto split: option.splits)

lemma chain_outside: "a \<notin> set as \<Longrightarrow> chain (fmupd a x m) p as = chain m p as"
  by (induction m p as rule: chain.induct) (auto split: option.splits)

lemma chain_snoc:
  assumes "chain m p as" "distinct as" "as \<noteq> []" "a \<notin> set as" "fmlookup m (last as) = Some t"
  shows "chain (fmupd (last as) (t\<lparr>node_next := Some a\<rparr>) (fmupd a \<lparr>node_dump = d, node_next = None\<rparr> m)) p (as @ [a])"
  using assms
proof (induction m p as rule: chain.induct)
  case (1 m p)
  then show ?case by simp
next
  case (2 m p b bs)
  then obtain x where x: "p = Some b" "fmlookup m b = Some x" "chain m (node_next x) bs"
    by (auto split: option.splits)
  show ?case
  proof (cases "bs = []")
    case True
    with 2 x show ?thesis by auto
  next
    case False
    then have "b \<noteq> last bs" using "2.prems"(2) by (metis distinct.simps(2) last_in_set)
    with 2 x False show ?thesis by auto
  qed
qed

lemma dumps_of_snoc:
  assumes "distinct as" "a \<notin> set as" "as \<noteq> [] \<Longrightarrow> fmlookup m (last as) = Some t"
  shows "map (\<lambda>b. node_dump (the (fmlookup (if as = [] then fmupd a \<lparr>node_dump = d, node_next = None\<rparr> m
        else fmupd (last as) (t\<lparr>node_next := Some a\<rparr>) (fmupd a \<lparr>node_dump = d, node_next = None\<rparr> m)) b))) (as @ [a]) =
    map (\<lambda>b. node_dump (the (fmlookup m b))) as @ [d]"
proof (cases "as = []")
  case False
  then have "last as \<noteq> a" using assms(2) by (metis last_in_set)
  with False assms show ?thesis by auto
qed simp

text \<open>Adding a snapshot appends it.\<close>

lemma add_task_dump_refines:
  assumes l: "list_at h l as" and ok: "dump_heap_ok h"
  shows "\<exists>h' a. add_task_dump_to_list True l d h = Inr (1, h') \<and> list_at h' l (as @ [a]) \<and>
    dumps_of h' (as @ [a]) = dumps_of h as @ [d] \<and> dump_heap_ok h' \<and> dumps h' = dumps h \<and>
    fmdrop_set (set (as @ [a])) (nodes h') = fmdrop_set (set as) (nodes h)"
proof -
  obtain la hdr where la: "l = Some la" "fmlookup (lists h) la = Some hdr" "chain (nodes h) (list_head hdr) as"
    "distinct as" "as \<noteq> [] \<Longrightarrow> list_tail hdr = Some (last as)" "list_size hdr = int (length as)"
    using l by (auto simp: list_at_def)
  define a where "a = next_free h"
  define n where "n = fmupd a \<lparr>node_dump = d, node_next = None\<rparr> (nodes h)"
  have fresh: "a \<notin> set as"
    using chain_lookup [OF la(3)] ok by (force simp: dump_heap_ok_def a_def)
  have free: "fmlookup (nodes h) a = None" using ok by (simp add: dump_heap_ok_def a_def)
  have lab: "la < Suc a" using la(2) ok unfolding dump_heap_ok_def a_def
    by (metis not_less option.distinct(1) less_Suc_eq)
  show ?thesis
  proof (cases "as = []")
    case True
    define h' where "h' = h\<lparr>nodes := n, next_free := Suc a,
      lists := fmupd la (hdr\<lparr>list_head := Some a, list_tail := Some a, list_size := 1\<rparr>) (lists h)\<rparr>"
    have "add_task_dump_to_list True l d h = Inr (1, h')"
      using la True by (simp add: add_task_dump_to_list_def init_task_dump_node_def deref_Some
          h'_def n_def a_def)
    moreover have "list_at h' l (as @ [a])"
      using True la(1) by (simp add: list_at_def h'_def n_def)
    moreover have "dumps_of h' (as @ [a]) = dumps_of h as @ [d]"
      using True by (simp add: dumps_of_def h'_def n_def)
    moreover have "dump_heap_ok h'"
      using ok lab by (auto simp: dump_heap_ok_def h'_def n_def a_def)
    moreover have "fmdrop_set (set (as @ [a])) (nodes h') = fmdrop_set (set as) (nodes h)"
      using True free by (intro fmap_ext) (simp add: h'_def n_def)
    moreover have "dumps h' = dumps h" by (simp add: h'_def)
    ultimately show ?thesis by blast
  next
    case False
    then obtain t where t: "fmlookup (nodes h) (last as) = Some t"
      using chain_lookup [OF la(3)] last_in_set by metis
    have "last as \<noteq> a" using fresh False by (metis last_in_set)
    then have tn: "fmlookup n (last as) = Some t" using t by (simp add: n_def)
    define h' where "h' = h\<lparr>nodes := fmupd (last as) (t\<lparr>node_next := Some a\<rparr>) n, next_free := Suc a,
      lists := fmupd la (hdr\<lparr>list_tail := Some a, list_size := int (length as) + 1\<rparr>) (lists h)\<rparr>"
    have "list_head hdr \<noteq> None" using la(3) False by (cases as) auto
    then have "add_task_dump_to_list True l d h = Inr (1, h')"
      using la False tn by (auto simp: add_task_dump_to_list_def init_task_dump_node_def deref_Some
          h'_def n_def a_def)
    moreover have "list_at h' l (as @ [a])"
      using chain_snoc [OF la(3,4) False fresh t, of d] la fresh
      by (simp add: list_at_def h'_def n_def)
    moreover have "dumps_of h' (as @ [a]) = dumps_of h as @ [d]"
      using dumps_of_snoc [OF la(4) fresh, of "nodes h" t d] False t
      by (simp add: dumps_of_def h'_def n_def)
    moreover have "dump_heap_ok h'"
    proof -
      have "last as < a" using t ok unfolding dump_heap_ok_def a_def
        by (metis not_less option.distinct(1))
      with ok lab show ?thesis by (auto simp: dump_heap_ok_def h'_def n_def a_def)
    qed
    moreover have "fmdrop_set (set (as @ [a])) (nodes h') = fmdrop_set (set as) (nodes h)"
      using free last_in_set [OF False] by (intro fmap_ext) (auto simp: h'_def n_def)
    moreover have "dumps h' = dumps h" by (simp add: h'_def)
    ultimately show ?thesis by blast
  qed
qed

text \<open>Looking up by position.\<close>

lemma node_after_chain:
  "chain m p as \<Longrightarrow> node_after n m p = Inr (if n < length as then Some (as ! n) else None)"
proof (induction n arbitrary: p as)
  case 0
  then show ?case by (cases as) auto
next
  case (Suc n)
  show ?case
  proof (cases as)
    case Nil
    with Suc.prems show ?thesis by simp
  next
    case (Cons a bs)
    with Suc.prems obtain x where "p = Some a" "fmlookup m a = Some x" "chain m (node_next x) bs"
      by (auto split: option.splits)
    with Suc.IH [of "node_next x" bs] Cons show ?thesis by (simp add: deref_Some)
  qed
qed

lemma get_task_dump_refines:
  assumes "list_at h l as"
  shows "get_task_dump l n h = Inr (if n < length as then dumps_of h as ! n else None)"
proof -
  obtain la hdr where la: "l = Some la" "fmlookup (lists h) la = Some hdr" "chain (nodes h) (list_head hdr) as"
    "list_size hdr = int (length as)"
    using assms by (auto simp: list_at_def)
  show ?thesis
  proof (cases "n < length as")
    case True
    then obtain x where "fmlookup (nodes h) (as ! n) = Some x"
      using chain_lookup [OF la(3)] nth_mem by metis
    with True la node_after_chain [OF la(3), of n] show ?thesis
      by (simp add: get_task_dump_def deref_Some dumps_of_def)
  next
    case False
    with la node_after_chain [OF la(3), of n] show ?thesis
      by (simp add: get_task_dump_def deref_Some)
  qed
qed

lemma get_size_refines: "list_at h l as \<Longrightarrow> get_size l h = Inr (int (length as))"
  by (auto simp: list_at_def get_size_def deref_Some)

section \<open>Destroying a list\<close>

definition snapshots :: "dump_heap \<Rightarrow> nat list \<Rightarrow> nat set" where
  "snapshots h as = {d. Some d \<in> set (dumps_of h as)}"

text \<open>What the heap holds beside the list as and its snapshots, which destroying the list leaves.\<close>

definition beyond :: "dump_heap \<Rightarrow> nat list \<Rightarrow> (nat, task_dump_node) fmap \<times> (nat, task_dump) fmap" where
  "beyond h as = (fmdrop_set (set as) (nodes h), fmdrop_set (snapshots h as) (dumps h))"

text \<open>Every snapshot in the list is allocated, and in one node only.\<close>

definition owns_snapshots :: "dump_heap \<Rightarrow> nat list \<Rightarrow> bool" where
  "owns_snapshots h as \<longleftrightarrow>
     distinct (filter (\<lambda>d. d \<noteq> None) (dumps_of h as)) \<and>
     (\<forall>d \<in> snapshots h as. fmlookup (dumps h) d \<noteq> None)"

lemma destroy_nodes_run:
  assumes "chain (nodes h) p as" "distinct as" "owns_snapshots h as"
  shows "destroy_nodes p h =
    Inr (h\<lparr>nodes := fmdrop_set (set as) (nodes h), dumps := fmdrop_set (snapshots h as) (dumps h)\<rparr>)"
  using assms
proof (induction as arbitrary: p h)
  case Nil
  then show ?case by (subst destroy_nodes.simps) (simp add: snapshots_def dumps_of_def)
next
  case (Cons a as)
  then obtain x where x: "p = Some a" "fmlookup (nodes h) a = Some x" "chain (nodes h) (node_next x) as"
    by (auto split: option.splits)
  define D where "D = (case node_dump x of None \<Rightarrow> {} | Some d \<Rightarrow> {d})"
  define h1 where "h1 = h\<lparr>dumps := fmdrop_set D (dumps h)\<rparr>"
  have free: "free_dump (node_dump x) h = Inr h1"
  proof (cases "node_dump x")
    case None
    then show ?thesis by (simp add: free_dump_def h1_def D_def)
  next
    case (Some d)
    with Cons.prems(3) x(2) have "fmlookup (dumps h) d \<noteq> None"
      by (simp add: owns_snapshots_def snapshots_def dumps_of_def)
    with Some show ?thesis by (simp add: free_dump_def h1_def D_def)
  qed
  define h2 where "h2 = h1\<lparr>nodes := fmdrop a (nodes h1)\<rparr>"
  have "a \<notin> set as" using Cons.prems(2) by simp
  then have chain2: "chain (nodes h2) q as = chain (nodes h) q as" for q
    by (induction "nodes h" q as rule: chain.induct) (auto simp: h2_def h1_def split: option.splits)
  have lookups: "fmlookup (nodes h2) b = fmlookup (nodes h) b" if "b \<in> set as" for b
    using that \<open>a \<notin> set as\<close> by (auto simp: h2_def h1_def)
  then have same: "dumps_of h2 as = dumps_of h as" by (simp add: dumps_of_def)
  then have snap: "snapshots h2 as = snapshots h as" by (simp add: snapshots_def)
  have all: "snapshots h (a # as) = D \<union> snapshots h as"
    using x(2) by (auto simp: snapshots_def dumps_of_def D_def split: option.splits)
  have disj: "D \<inter> snapshots h as = {}"
  proof (cases "node_dump x")
    case (Some d)
    with Cons.prems(3) x(2) have "Some d \<notin> set (dumps_of h as)"
      by (auto simp: owns_snapshots_def dumps_of_def)
    with Some show ?thesis by (simp add: D_def snapshots_def)
  qed (simp add: D_def)
  have "owns_snapshots h2 as"
  proof -
    have "distinct (filter (\<lambda>d. d \<noteq> None) (dumps_of h as))"
      using Cons.prems(3) x(2) by (auto simp: owns_snapshots_def dumps_of_def split: if_splits)
    moreover have "fmlookup (dumps h2) d \<noteq> None" if "d \<in> snapshots h as" for d
      using that disj all Cons.prems(3) by (auto simp: h2_def h1_def owns_snapshots_def)
    ultimately show ?thesis by (simp add: owns_snapshots_def same snap)
  qed
  with Cons.IH [of h2 "node_next x"] chain2 x(3) Cons.prems(2) snap
  have "destroy_nodes (node_next x) h2 =
      Inr (h2\<lparr>nodes := fmdrop_set (set as) (nodes h2), dumps := fmdrop_set (snapshots h as) (dumps h2)\<rparr>)"
    by simp
  moreover have "fmdrop_set (set as) (fmdrop a (nodes h)) = fmdrop_set (set (a # as)) (nodes h)"
    by (rule fmap_ext) auto
  moreover have "fmdrop_set (snapshots h as) (fmdrop_set D (dumps h)) = fmdrop_set (snapshots h (a # as)) (dumps h)"
    unfolding all by (rule fmap_ext) auto
  ultimately show ?case
    using x free by (subst destroy_nodes.simps) (simp add: deref_Some h2_def h1_def)
qed

lemma destroy_list_run:
  assumes "list_at h l as" "owns_snapshots h as"
  shows "destroy_task_dump_list l h =
    Inr (h\<lparr>nodes := fmdrop_set (set as) (nodes h), dumps := fmdrop_set (snapshots h as) (dumps h)\<rparr>)"
  using assms destroy_nodes_run [of h _ as]
  by (auto simp: list_at_def destroy_task_dump_list_def deref_Some)

section \<open>The interface for the readers of the list\<close>

text \<open>
  What the seq file needs from a list of snapshots: its size and a lookup by position agree with
  the sequence it stands for.
\<close>

locale dump_sequence =
  fixes size_of :: "'h \<Rightarrow> int run"
    and nth_dump :: "nat \<Rightarrow> 'h \<Rightarrow> nat option run"
    and contents :: "'h \<Rightarrow> nat option list"
    and valid :: "'h \<Rightarrow> bool"
  assumes size_law: "valid h \<Longrightarrow> size_of h = Inr (int (length (contents h)))"
    and nth_law: "valid h \<Longrightarrow> nth_dump n h = Inr (if n < length (contents h) then contents h ! n else None)"
begin

lemma all_positions:
  assumes "valid h"
  shows "map (\<lambda>n. nth_dump n h) [0..<length (contents h)] = map Inr (contents h)"
  by (rule nth_equalityI) (simp_all add: nth_law [OF assms])

lemma past_end: "valid h \<Longrightarrow> length (contents h) \<le> n \<Longrightarrow> nth_dump n h = Inr None"
  by (simp add: nth_law)

end

interpretation task_dumps: dump_sequence "get_size l" "get_task_dump l" "\<lambda>h. dumps_of h as" "\<lambda>h. list_at h l as"
proof
  fix h assume l: "list_at h l as"
  have len: "length (dumps_of h as) = length as" by (simp add: dumps_of_def)
  show "get_size l h = Inr (int (length (dumps_of h as)))"
    unfolding len by (rule get_size_refines [OF l])
  show "get_task_dump l n h = Inr (if n < length (dumps_of h as) then dumps_of h as ! n else None)" for n
    unfolding len by (rule get_task_dump_refines [OF l])
qed

section \<open>The properties of the list\<close>

text \<open>
  C22: The linked list implements a sequence: adding a snapshot appends it, without touching any
  other snapshot, the size is the length, and the lookup by position gives the snapshot at that
  position and NULL past the end; no access is out of its object. (The allocation of the node succeeds.)
\<close>

theorem dump_list_implements_sequence:
  assumes "list_at h l as" "dump_heap_ok h"
  shows "(\<exists>h' a. add_task_dump_to_list True l d h = Inr (1, h') \<and> list_at h' l (as @ [a]) \<and>
      dumps_of h' (as @ [a]) = dumps_of h as @ [d] \<and> dump_heap_ok h' \<and> dumps h' = dumps h) \<and>
    get_size l h = Inr (int (length (dumps_of h as))) \<and>
    get_task_dump l n h = Inr (if n < length (dumps_of h as) then dumps_of h as ! n else None)"
  using add_task_dump_refines [OF assms] task_dumps.size_law [OF assms(1)] task_dumps.nth_law [OF assms(1)]
  by blast

definition empty_dump_heap :: dump_heap where
  "empty_dump_heap = \<lparr>dumps = fmempty, nodes = fmempty, lists = fmempty, next_free = 1\<rparr>"

lemma init_list_empty:
  "dump_heap_ok h \<Longrightarrow> init_task_dump_list True h = (l, h') \<Longrightarrow>
   l = Some (next_free h) \<and> list_at h' l [] \<and> dump_heap_ok h' \<and> dumps h' = dumps h"
  by (auto simp: init_task_dump_list_def list_at_def dump_heap_ok_def)

theorem dump_list_implements_sequence_witness:
  "\<exists>h'. add_task_dump_to_list True (Some 1) (Some 7) (snd (init_task_dump_list True empty_dump_heap)) = Inr (1, h') \<and>
     (\<exists>as. list_at h' (Some 1) as \<and> dumps_of h' as = [Some 7])"
proof -
  have ok: "dump_heap_ok empty_dump_heap" by (simp add: dump_heap_ok_def empty_dump_heap_def)
  obtain l h where h: "init_task_dump_list True empty_dump_heap = (l, h)" by fastforce
  from init_list_empty [OF ok h] have l: "l = Some 1" "list_at h (Some 1) []" "dump_heap_ok h"
    by (auto simp: empty_dump_heap_def)
  from dump_list_implements_sequence [OF l(2,3), of "Some 7" 0]
  obtain h' a where a: "add_task_dump_to_list True (Some 1) (Some 7) h = Inr (1, h')"
    "list_at h' (Some 1) ([] @ [a])" "dumps_of h' ([] @ [a]) = dumps_of h [] @ [Some 7]"
    by blast
  have "list_at h' (Some 1) [a] \<and> dumps_of h' [a] = [Some 7]"
    using a(2,3) by (simp add: dumps_of_def)
  with a(1) h show ?thesis by auto
qed

text \<open>
  Destroying a list frees every node and every snapshot in it exactly once and touches no other
  one, but it leaves the header allocated, with its head pointing to a freed node: a further lookup
  through the same pointer uses freed memory.
\<close>

theorem destroy_list_leaves_header:
  assumes "list_at h l as" "owns_snapshots h as" "as \<noteq> []"
  shows "\<exists>h'. destroy_task_dump_list l h = Inr h' \<and>
    nodes h' = fmdrop_set (set as) (nodes h) \<and> dumps h' = fmdrop_set (snapshots h as) (dumps h) \<and>
    lists h' = lists h \<and> get_task_dump l 0 h' = Inl Use_after_free"
proof -
  obtain la hdr where la: "l = Some la" "fmlookup (lists h) la = Some hdr" "chain (nodes h) (list_head hdr) as"
    "list_size hdr = int (length as)"
    using assms(1) by (auto simp: list_at_def)
  then obtain a where a: "list_head hdr = Some a" "a \<in> set as"
    using assms(3) by (cases as) auto
  define h' where "h' = h\<lparr>nodes := fmdrop_set (set as) (nodes h), dumps := fmdrop_set (snapshots h as) (dumps h)\<rparr>"
  have "get_task_dump l 0 h' = Inl Use_after_free"
    using la a by (simp add: get_task_dump_def deref_def h'_def)
  with destroy_list_run [OF assms(1,2)] show ?thesis by (auto simp: h'_def)
qed

theorem destroy_list_leaves_header_witness:
  "\<exists>h h'. destroy_task_dump_list (Some 1) h = Inr h' \<and> nodes h' = fmempty \<and>
     get_task_dump (Some 1) 0 h' = Inl Use_after_free"
proof -
  define h where "h = \<lparr>dumps = fmempty, nodes = fmupd 2 \<lparr>node_dump = None, node_next = None\<rparr> fmempty,
      lists = fmupd 1 \<lparr>list_size = 1, list_head = Some 2, list_tail = Some 2\<rparr> fmempty, next_free = 3\<rparr>"
  have "list_at h (Some 1) [2]" by (simp add: list_at_def h_def)
  moreover have "owns_snapshots h [2]" by (simp add: owns_snapshots_def dumps_of_def snapshots_def h_def)
  ultimately obtain h' where "destroy_task_dump_list (Some 1) h = Inr h'"
    "nodes h' = fmdrop_set (set [2]) (nodes h)" "get_task_dump (Some 1) 0 h' = Inl Use_after_free"
    using destroy_list_leaves_header [of h "Some 1" "[2]"] by blast
  moreover have "fmdrop_set (set [2]) (nodes h) = fmempty"
    by (rule fmap_ext) (simp add: h_def)
  ultimately show ?thesis by auto
qed

lemma state_index_le: "state_index w p \<le> p + k \<longleftrightarrow> unat w < 2 ^ k"
proof (induction k arbitrary: w p)
  case 0
  have "p < state_index w p" if "w \<noteq> 0" for w p
    using that
  proof (induction w p rule: state_index.induct)
    case (1 w p)
    then show ?case
      by (cases "drop_bit 1 w = 0") (auto simp: state_index.simps [of w] state_index.simps [of 0])
  qed
  from this [of w p] show ?case
    by (cases "w = 0") (auto simp: state_index.simps [of 0] unat_eq_zero)
next
  case (Suc k)
  show ?case
  proof (cases "w = 0")
    case False
    have "unat (drop_bit 1 w) = unat w div 2" by (simp add: drop_bit_eq_div unat_div)
    moreover have "state_index w p = state_index (drop_bit 1 w) (Suc p)"
      using False by (subst state_index.simps) simp
    moreover have "unat w div 2 < 2 ^ k \<longleftrightarrow> unat w < 2 ^ Suc k"
      by (simp add: less_mult_imp_div_less div_less_iff_less_mult mult.commute)
    ultimately show ?thesis using Suc [of "drop_bit 1 w" "Suc p"] by simp
  qed (simp add: state_index.simps [of 0])
qed

text \<open>
  The state letter is looked up by the position of the highest bit of the reported state. The
  lookup leaves the array of six letters exactly when that state is 32 or more; among the states
  the kernel reports, a stopped task (state 4) is shown as a zombie and a traced one (state 8) as
  stopped.
\<close>

theorem state_letters:
  "get_task_state_letter R t =
     (let w = unat (task_state t AND R) in
      if w = 0 then Inr ''R'' else if w < 2 then Inr ''S'' else if w < 4 then Inr ''D''
      else if w < 8 then Inr ''Z'' else if w < 16 then Inr ''T'' else if w < 32 then Inr ''W''
      else Inl Read_out_of_bounds)"
proof -
  define w where "w = task_state t AND R"
  define n where "n = state_index w 0"
  have le: "n \<le> k \<longleftrightarrow> unat w < 2 ^ k" for k
    using state_index_le [of w 0 k] by (simp add: n_def)
  have n: "n = 0 \<longleftrightarrow> unat w = 0" "n \<le> 1 \<longleftrightarrow> unat w < 2" "n \<le> 2 \<longleftrightarrow> unat w < 4" "n \<le> 3 \<longleftrightarrow> unat w < 8"
    "n \<le> 4 \<longleftrightarrow> unat w < 16" "n \<le> 5 \<longleftrightarrow> unat w < 32"
    using le [of 0] le [of 1] le [of 2] le [of 3] le [of 4] le [of 5] by simp_all
  have letter: "get_task_state_letter R t =
      (if n \<le> 5 then Inr (task_state_array ! n) else Inl Read_out_of_bounds)"
    by (simp add: get_task_state_letter_def w_def [symmetric] n_def [symmetric] task_state_array_def
        less_Suc_eq_le Let_def)
  show ?thesis
    unfolding letter w_def [symmetric] Let_def n(1) [symmetric] n(2-6) [symmetric]
    by (auto simp: task_state_array_def numeral_eq_Suc le_Suc_eq)
qed

end
