(* ===== verification/Logger.thy ===== *)
theory Logger imports Kernel_Base begin

text \<open>
  The logger of carbonite (logger.c): print_log prints to the kernel's log and, if remote logging is
  on, builds a syslog message in a buffer on the stack, copies it into a work item and queues it for
  ksocket_send. The time, the node name, the stack's contents, the results of kmalloc and what a
  second use of the argument list prints are given by an environment, one for each message.
\<close>

definition BUFFER_SIZE :: nat where "BUFFER_SIZE = 1920"
definition NEW_UTS_LEN :: nat where "NEW_UTS_LEN = 64"
definition CARBONITE_NAME :: string where "CARBONITE_NAME = ''the-drip-dry-carbonite''"

definition KERN_CRIT :: string where "KERN_CRIT = ''<2>''"
definition KERN_ERR :: string where "KERN_ERR = ''<3>''"
definition KERN_INFO :: string where "KERN_INFO = ''<6>''"

record log_env =
  now :: string
  nodename :: string
  stack_buffer :: "char list"
  work_ok :: bool
  buffer_ok :: bool
  reprinted :: "string \<Rightarrow> string"

record logger_state = kernel_log +
  log_remote :: bool
  log_sock :: bool
  remote_log_work_queue :: bool
  queued :: "char list list"
  sent :: "string list"
  leaked_works :: nat

definition too_long :: string where
  "too_long = CARBONITE_NAME @ '':'' @ CHR 0x09 # ''[-] Failed to log message (too long message)'' @ [CHR 0x0A]"

definition log_tag :: string where
  "log_tag = '' kernel: '' @ CARBONITE_NAME @ '': ''"

text \<open>
  The end of remote_udp_log: the work item and its copy of the buffer. queue_work follows the pointer
  to the queue, which is NULL when it could not be created.
\<close>

definition queue_message ::
  "log_env \<Rightarrow> char list \<Rightarrow> nat \<Rightarrow> 'a logger_state_scheme \<Rightarrow> (int \<times> 'a logger_state_scheme) run" where
  "queue_message E b len s =
     (if \<not> work_ok E
      then Inr (0, printk (CARBONITE_NAME @ '':'' @ CHR 0x09 # ''[-] Failed to log message (work allocation failed)'' @ [CHR 0x0A]) s)
      else if \<not> buffer_ok E
      then Inr (0, printk (CARBONITE_NAME @ '':'' @ CHR 0x09 # ''[-] Failed to log message (work buffer allocation failed)'' @ [CHR 0x0A]) s)
      else if \<not> remote_log_work_queue s then Inl Null_dereference
      else Inr (int len, s\<lparr>queued := queued s @ [strncpy b len]\<rparr>))"

definition remote_udp_log ::
  "log_env \<Rightarrow> string \<Rightarrow> 'a logger_state_scheme \<Rightarrow> (int \<times> 'a logger_state_scheme) run" where
  "remote_udp_log E msg s =
     (if \<not> log_sock s then Inr (- 1, s)
      else
        (let remaining = int BUFFER_SIZE in
        run_bind (snprintf_at (stack_buffer E) 0 (word_of_int remaining) (now E)) (\<lambda>(b, bytes_written).
        if remaining \<le> int bytes_written then Inr (0, printk too_long s)
        else
          let len = bytes_written; remaining = remaining - int len in
          run_bind (snprintf_at b len (word_of_nat NEW_UTS_LEN) (nodename E)) (\<lambda>(b, bytes_written).
          if NEW_UTS_LEN \<le> bytes_written then Inr (0, printk too_long s)
          else
            let len = len + bytes_written; remaining = remaining - int len in
            run_bind (snprintf_at b len (word_of_int remaining) log_tag) (\<lambda>(b, bytes_written).
            if remaining \<le> int bytes_written then Inr (0, printk too_long s)
            else
              let len = len + bytes_written; remaining = remaining - int len in
              run_bind (snprintf_at b len (word_of_int remaining) msg) (\<lambda>(b, bytes_written).
              if remaining \<le> int bytes_written then Inr (0, printk too_long s)
              else
                let len = len + bytes_written in
                run_bind (store b len NUL) (\<lambda>b.
                queue_message E b (Suc len) s)))))))"

text \<open>
  lvl is the level that the format starts with; txt is what the format and its arguments print.
\<close>

definition print_log ::
  "(nat \<Rightarrow> log_env) \<Rightarrow> string \<Rightarrow> string \<Rightarrow> 'a logger_state_scheme \<Rightarrow> 'a logger_state_scheme run" where
  "print_log E lvl txt s =
     (let e = E (length (klog s)); s = printk txt s
      in if log_remote s
         then run_bind (remote_udp_log e (reprinted e (lvl @ txt)) s) (\<lambda>(n, s). Inr s)
         else Inr s)"

definition ksocket_send :: "char list \<Rightarrow> 'a logger_state_scheme \<Rightarrow> 'a logger_state_scheme" where
  "ksocket_send buffer s =
     (if \<not> log_sock s then s\<lparr>leaked_works := Suc (leaked_works s)\<rparr>
      else s\<lparr>sent := sent s @ [take BUFFER_SIZE (cstr buffer)]\<rparr>)"

text \<open>What the kernel's work queue does with the queued items: it runs them in order.\<close>

definition run_works :: "'a logger_state_scheme \<Rightarrow> 'a logger_state_scheme" where
  "run_works s = fold ksocket_send (queued s) (s\<lparr>queued := []\<rparr>)"

definition logger_line :: "string \<Rightarrow> string" where
  "logger_line txt = CARBONITE_NAME @ '':'' @ CHR 0x09 # txt @ [CHR 0x0A]"

definition init_logger ::
  "bool \<Rightarrow> bool \<Rightarrow> string option \<Rightarrow> 'a logger_state_scheme \<Rightarrow> int \<times> 'a logger_state_scheme" where
  "init_logger sock_ok queue_ok ip s =
     (if log_sock s then (0, printk (logger_line ''[-] Logger was already initialized'') s)
      else case ip of
        None \<Rightarrow> (1, printk (logger_line ''[-] Remote logging is not enabled'') s)
      | Some a \<Rightarrow>
          let s = printk (logger_line ''[+] Remote logging is enabled'') s; s = s\<lparr>log_remote := True\<rparr> in
          if \<not> sock_ok
          then (0, printk (logger_line ''[-] Failed to create the socket'') (s\<lparr>log_sock := False\<rparr>))
          else
            let s = s\<lparr>log_sock := True, remote_log_work_queue := queue_ok\<rparr> in
            if \<not> queue_ok then (0, printk (logger_line ''[-] Failed to create the work queue'') s)
            else (1, s))"

text \<open>destroy_workqueue runs what is still queued before it returns.\<close>

definition destroy_logger :: "'a logger_state_scheme \<Rightarrow> 'a logger_state_scheme" where
  "destroy_logger s =
     (let s = (if log_sock s then s\<lparr>log_sock := False\<rparr> else s)
      in if remote_log_work_queue s then run_works s else s)"

section \<open>snprintf into a large enough buffer\<close>

lemma sint_word_of_small:
  assumes "0 \<le> i" "i < 2 ^ 31"
  shows "sint (ucast (word_of_int i :: 64 word) :: 32 word) = i" "unat (word_of_int i :: 64 word) = nat i"
proof -
  have "ucast (word_of_int i :: 64 word) = (word_of_int i :: 32 word)"
    by (rule bit_word_eqI) (simp add: bit_simps)
  moreover have "signed_take_bit 31 i = i"
    using assms by (intro signed_take_bit_int_eq_self) auto
  ultimately show "sint (ucast (word_of_int i :: 64 word) :: 32 word) = i"
    by (simp add: signed_of_int)
  have "take_bit 64 i = i" using assms by (intro take_bit_int_eq_self) auto
  then show "unat (word_of_int i :: 64 word) = nat i"
    by (simp add: unsigned_of_int)
qed

lemma word_of_int_0_iff:
  assumes "0 \<le> i" "i < 2 ^ 31"
  shows "(word_of_int i :: 64 word) = 0 \<longleftrightarrow> i = 0"
proof
  assume "(word_of_int i :: 64 word) = 0"
  then have "unat (word_of_int i :: 64 word) = 0" by (simp only: unsigned_0)
  with sint_word_of_small(2) [OF assms] have "nat i = 0" by (simp only:)
  with assms(1) show "i = 0" by simp
qed simp

lemma snprintf_fits:
  assumes "int (length txt) < i" "i < 2 ^ 31" "off + nat i \<le> length b"
  shows "snprintf_at b off (word_of_int i) txt =
    Inr (take off b @ txt @ NUL # drop (Suc (off + length txt)) b, length txt)"
proof -
  have "(word_of_int i :: 64 word) \<noteq> 0"
    using word_of_int_0_iff [of i] assms(1,2) by linarith
  moreover have "length txt < nat i" using assms(1) by simp
  ultimately show ?thesis
    using assms sint_word_of_small [of i] by (simp add: snprintf_at_def blit_def)
qed

lemma snprintf_cut:
  assumes "i \<le> int (length txt)" "- (2 ^ 31) \<le> i" "i < 2 ^ 31" "off + nat i \<le> length b"
  shows "\<exists>b' n. snprintf_at b off (word_of_int i) txt = Inr (b', n) \<and> i \<le> int n"
proof (cases "0 \<le> i")
  case True
  have "(word_of_int i :: 64 word) = 0 \<longleftrightarrow> i = 0"
    by (rule word_of_int_0_iff [OF True assms(3)])
  then show ?thesis
    using True assms sint_word_of_small [OF True assms(3)]
    by (cases "i = 0") (auto simp: snprintf_at_def blit_def)
next
  case False
  have "ucast (word_of_int i :: 64 word) = (word_of_int i :: 32 word)"
    by (rule bit_word_eqI) (simp add: bit_simps)
  moreover have "signed_take_bit 31 i = i"
    using assms(2) False by (intro signed_take_bit_int_eq_self) auto
  ultimately have "sint (ucast (word_of_int i :: 64 word) :: 32 word) = i"
    by (simp add: signed_of_int)
  with False show ?thesis by (simp add: snprintf_at_def)
qed

section \<open>The message that is sent\<close>

definition header :: "log_env \<Rightarrow> string" where
  "header E = now E @ nodename E @ log_tag"

text \<open>
  The room the code leaves for the text of a message. Each part of the header is taken off once
  more with every part after it.
\<close>

definition message_room :: "log_env \<Rightarrow> int" where
  "message_room E =
     int BUFFER_SIZE - int (length (now E)) - int (length (now E @ nodename E)) - int (length (header E))"

lemma log_tag_length: "length log_tag = 33"
  by (simp add: log_tag_def CARBONITE_NAME_def)

definition good_env :: "log_env \<Rightarrow> bool" where
  "good_env E \<longleftrightarrow> length (stack_buffer E) = BUFFER_SIZE + 1 \<and> length (now E) < 256 \<and> length (nodename E) < NEW_UTS_LEN"

lemma header_room: "good_env E \<Longrightarrow> 900 < message_room E"
  by (simp add: good_env_def message_room_def header_def log_tag_length BUFFER_SIZE_def NEW_UTS_LEN_def)

text \<open>The buffer after its header was printed.\<close>

lemma remote_udp_log_header:
  assumes E: "good_env E" and sock: "log_sock s"
  shows "\<exists>rest. length (header E @ NUL # rest) = BUFFER_SIZE + 1 \<and>
    remote_udp_log E msg s =
      run_bind (snprintf_at (header E @ NUL # rest) (length (header E)) (word_of_int (message_room E)) msg)
        (\<lambda>(b, n). if message_room E \<le> int n then Inr (0, printk too_long s)
                 else run_bind (store b (length (header E) + n) NUL)
                        (\<lambda>b. queue_message E b (Suc (length (header E) + n)) s))"
proof -
  define a c where "a = length (now E)" and "c = length (nodename E)"
  have bounds: "a < 256" "c < 64" and len: "length (stack_buffer E) = 1921"
    using E by (simp_all add: good_env_def a_def c_def NEW_UTS_LEN_def BUFFER_SIZE_def)
  define b1 where "b1 = now E @ NUL # drop (Suc a) (stack_buffer E)"
  have 1: "snprintf_at (stack_buffer E) 0 (word_of_int (int BUFFER_SIZE)) (now E) = Inr (b1, a)"
    using snprintf_fits [of "now E" "int BUFFER_SIZE" 0 "stack_buffer E"] bounds len
    by (simp add: b1_def a_def BUFFER_SIZE_def)
  have len1: "length b1 = 1921" using bounds len by (simp add: b1_def a_def)
  define b2 where "b2 = now E @ nodename E @ NUL # drop (Suc (a + c)) b1"
  have "snprintf_at b1 a (word_of_int (int NEW_UTS_LEN)) (nodename E) = Inr (b2, c)"
    using snprintf_fits [of "nodename E" "int NEW_UTS_LEN" a b1] bounds len1
    by (simp add: b2_def c_def NEW_UTS_LEN_def) (simp add: b1_def a_def)
  then have 2: "snprintf_at b1 a (word_of_nat NEW_UTS_LEN) (nodename E) = Inr (b2, c)" by simp
  have len2: "length b2 = 1921" using bounds len1 by (simp add: b2_def a_def c_def)
  define b3 where "b3 = header E @ NUL # drop (Suc (a + c + 33)) b2"
  have 3: "snprintf_at b2 (a + c) (word_of_int (int BUFFER_SIZE - int a - int (a + c))) log_tag = Inr (b3, 33)"
    using snprintf_fits [of log_tag "int BUFFER_SIZE - int a - int (a + c)" "a + c" b2] bounds len2
    by (simp add: b3_def header_def log_tag_length BUFFER_SIZE_def) (simp add: b2_def a_def c_def)
  have room: "message_room E = int BUFFER_SIZE - int a - int (a + c) - int (a + c + 33)"
    by (simp add: message_room_def header_def log_tag_length a_def c_def)
  have hdr: "length (header E) = a + c + 33" by (simp add: header_def log_tag_length a_def c_def)
  have len3: "length b3 = 1921" using bounds len2 by (simp add: b3_def hdr)
  have fits: "(int BUFFER_SIZE \<le> int a) = False" "(NEW_UTS_LEN \<le> c) = False"
    "(int BUFFER_SIZE - int a - int (a + c) \<le> int 33) = False" "(\<not> log_sock s) = False"
    using bounds sock by (simp_all add: BUFFER_SIZE_def NEW_UTS_LEN_def)
  have "remote_udp_log E msg s =
      run_bind (snprintf_at b3 (length (header E)) (word_of_int (message_room E)) msg)
        (\<lambda>(b, n). if message_room E \<le> int n then Inr (0, printk too_long s)
                 else run_bind (store b (length (header E) + n) NUL)
                        (\<lambda>b. queue_message E b (Suc (length (header E) + n)) s))"
    by (simp only: remote_udp_log_def Let_def 1 2 3 fits room hdr run_bind_Inr split_conv if_False)
  then show ?thesis
    using len3 by (intro exI [of _ "drop (Suc (a + c + 33)) b2"]) (simp add: b3_def BUFFER_SIZE_def)
qed

lemma remote_udp_log_run:
  assumes E: "good_env E" and sock: "log_sock s"
  shows "remote_udp_log E msg s =
    (if int (length msg) < message_room E
     then queue_message E (header E @ msg @ [NUL]) (length (header E @ msg @ [NUL])) s
     else Inr (0, printk too_long s))"
proof -
  obtain rest where rest: "length (header E @ NUL # rest) = BUFFER_SIZE + 1"
    and run: "remote_udp_log E msg s =
      run_bind (snprintf_at (header E @ NUL # rest) (length (header E)) (word_of_int (message_room E)) msg)
        (\<lambda>(b, n). if message_room E \<le> int n then Inr (0, printk too_long s)
                 else run_bind (store b (length (header E) + n) NUL)
                        (\<lambda>b. queue_message E b (Suc (length (header E) + n)) s))"
    using remote_udp_log_header [OF assms, of msg] by blast
  have room: "message_room E < 2 ^ 31" "- (2 ^ 31) \<le> message_room E" "0 < message_room E"
    "length (header E) + nat (message_room E) \<le> length (header E @ NUL # rest)"
    using rest header_room [OF E] by (auto simp: message_room_def BUFFER_SIZE_def)
  show ?thesis
  proof (cases "int (length msg) < message_room E")
    case True
    define b where "b = header E @ msg @ NUL # drop (Suc (length (header E) + length msg)) (header E @ NUL # rest)"
    have 1: "snprintf_at (header E @ NUL # rest) (length (header E)) (word_of_int (message_room E)) msg =
        Inr (b, length msg)"
      using snprintf_fits [OF True room(1,4)] by (simp add: b_def)
    have "store b (length (header E) + length msg) NUL = Inr b"
      by (simp add: b_def store_def list_update_append)
    then have "remote_udp_log E msg s = queue_message E b (Suc (length (header E) + length msg)) s"
      using True by (simp add: run 1)
    moreover have "strncpy b (Suc (length (header E) + length msg)) =
        strncpy (header E @ msg @ [NUL]) (length (header E @ msg @ [NUL]))"
    proof -
      have "cstr (x @ NUL # y) = cstr (x @ [NUL])" for x y by (induction x) auto
      then have "cstr b = cstr (header E @ msg @ [NUL])"
        unfolding b_def by (metis append.assoc)
      then show ?thesis by (simp add: strncpy_def)
    qed
    ultimately show ?thesis using True by (simp add: queue_message_def)
  next
    case False
    then obtain b n where "snprintf_at (header E @ NUL # rest) (length (header E)) (word_of_int (message_room E)) msg =
        Inr (b, n)" "message_room E \<le> int n"
      using snprintf_cut [of "message_room E" msg "length (header E)" "header E @ NUL # rest"] room by auto
    with False show ?thesis by (simp add: run)
  qed
qed

text \<open>What a message adds to the state: its line, at most one line about a failure, at most one work.\<close>

definition log_frame :: "'a logger_state_scheme \<Rightarrow> 'a logger_state_scheme \<Rightarrow> bool" where
  "log_frame s s' \<longleftrightarrow> (\<exists>extra q. s' = s\<lparr>klog := klog s @ extra, queued := queued s @ q\<rparr>)"

lemma log_frameI: "s' = s\<lparr>klog := klog s @ extra, queued := queued s @ q\<rparr> \<Longrightarrow> log_frame s s'"
  by (auto simp: log_frame_def)

lemma log_frame_refl: "log_frame s s"
  by (rule log_frameI [where extra = "[]" and q = "[]"]) simp

lemma log_frame_printk: "log_frame s (printk x s)"
  by (rule log_frameI [where extra = "[x]" and q = "[]"]) (simp add: printk_def)

lemma log_frame_queued: "log_frame s (s\<lparr>queued := queued s @ q\<rparr>)"
  by (rule log_frameI [where extra = "[]" and q = q]) simp

text \<open>A message that is to be sent finds its queue; only a start that failed breaks this.\<close>

definition queue_ready :: "'a logger_state_scheme \<Rightarrow> bool" where
  "queue_ready s \<longleftrightarrow> (log_remote s \<and> log_sock s \<longrightarrow> remote_log_work_queue s)"

lemma queue_ready_printk [simp]: "queue_ready (printk x s) = queue_ready s"
  by (simp add: queue_ready_def printk_def)

lemma queue_ready_log [simp]: "queue_ready (s\<lparr>klog := l\<rparr>) = queue_ready s" "queue_ready (s\<lparr>queued := q\<rparr>) = queue_ready s"
  by (simp_all add: queue_ready_def)

lemma log_frame_queue_message: "queue_message E b len s = Inr (n, s') \<Longrightarrow> log_frame s s'"
  by (auto simp: queue_message_def log_frame_printk log_frame_queued split: if_splits)

lemma remote_udp_log_frame:
  assumes "good_env E" "log_sock s \<longrightarrow> remote_log_work_queue s"
  shows "\<exists>n s'. remote_udp_log E msg s = Inr (n, s') \<and> log_frame s s'"
proof (cases "log_sock s")
  case False
  then show ?thesis by (simp add: remote_udp_log_def log_frame_refl)
next
  case True
  then have "\<exists>n s'. queue_message E b len s = Inr (n, s')" for b len
    using assms(2) by (simp add: queue_message_def)
  then show ?thesis
    unfolding remote_udp_log_run [OF assms(1) True]
    using log_frame_queue_message by (fastforce simp: log_frame_printk)
qed

lemma print_log_frame:
  assumes "\<And>n. good_env (E n)" "queue_ready s"
  shows "\<exists>extra q. print_log E lvl txt s = Inr (s\<lparr>klog := klog s @ txt # extra, queued := queued s @ q\<rparr>)"
proof (cases "log_remote s")
  case False
  then show ?thesis
    by (intro exI [of _ "[]"]) (simp add: print_log_def printk_def)
next
  case True
  define e where "e = E (length (klog s))"
  obtain n s' where "remote_udp_log e (reprinted e (lvl @ txt)) (printk txt s) = Inr (n, s')"
    and frame: "log_frame (printk txt s) s'"
    using remote_udp_log_frame [of e "printk txt s" "reprinted e (lvl @ txt)"] assms(1) [of "length (klog s)"] assms(2) True
    unfolding e_def [symmetric] by (auto simp: queue_ready_def printk_def)
  then have "print_log E lvl txt s = Inr s'"
    using True by (simp add: print_log_def e_def [symmetric] Let_def) (simp add: printk_def)
  moreover obtain extra q where "s' = s\<lparr>klog := klog s @ txt # extra, queued := queued s @ q\<rparr>"
    using frame by (auto simp: log_frame_def printk_def)
  ultimately show ?thesis by blast
qed

text \<open>Without any assumption on the environment, a message that does not fault changes no other field.\<close>

lemma remote_udp_log_only: "remote_udp_log E msg s = Inr (n, s') \<Longrightarrow> log_frame s s'"
  by (auto simp: remote_udp_log_def run_bind_eq_Inr Let_def log_frame_refl log_frame_printk
      intro: log_frame_queue_message split: if_splits)

lemma print_log_only:
  assumes "print_log E lvl msg s = Inr s'"
  shows "\<exists>kl q. s' = s\<lparr>klog := kl, queued := q\<rparr>"
proof (cases "log_remote s")
  case False
  with assms have "s' = s\<lparr>klog := klog s @ [msg]\<rparr>"
    by (simp add: print_log_def printk_def)
  then have "s' = s\<lparr>klog := klog s @ [msg], queued := queued s\<rparr>" by simp
  then show ?thesis by blast
next
  case True
  then obtain e x n where "remote_udp_log e x (printk msg s) = Inr (n, s')"
    using assms by (auto simp: print_log_def run_bind_eq_Inr Let_def printk_def)
  from remote_udp_log_only [OF this] obtain extra q where
    "s' = s\<lparr>klog := klog s @ [msg] @ extra, queued := queued s @ q\<rparr>"
    by (auto simp: log_frame_def printk_def)
  then show ?thesis by blast
qed

text \<open>Without its queue, a message that is about to be queued faults.\<close>

lemma print_log_no_queue:
  assumes "log_remote s" "log_sock s" "\<not> remote_log_work_queue s"
    and "\<forall>n. good_env (E n) \<and> work_ok (E n) \<and> buffer_ok (E n) \<and> length (reprinted (E n) (lvl @ txt)) \<le> 900"
  shows "print_log E lvl txt s = Inl Null_dereference"
proof -
  define e where "e = E (length (klog s))"
  have e: "good_env e" "work_ok e" "buffer_ok e" "length (reprinted e (lvl @ txt)) \<le> 900"
    using assms(4) by (simp_all add: e_def)
  then have "int (length (reprinted e (lvl @ txt))) < message_room e" using header_room [of e] by linarith
  then have "remote_udp_log e (reprinted e (lvl @ txt)) (printk txt s) = Inl Null_dereference"
    using remote_udp_log_run [OF e(1), of "printk txt s"] assms(2,3) e(2,3) by (simp add: queue_message_def printk_def)
  then show ?thesis using assms(1) by (simp add: print_log_def e_def [symmetric] Let_def) (simp add: printk_def)
qed

lemma print_log_local: "\<not> log_remote s \<Longrightarrow> print_log E lvl txt s = Inr (printk txt s)"
  by (simp add: print_log_def printk_def)

section \<open>The properties of the logger\<close>


definition example_env :: log_env where
  "example_env =
     \<lparr>now = ''2013-01-15T10:00:00.0+00:00 '', nodename = ''host'',
      stack_buffer = replicate (BUFFER_SIZE + 1) NUL, work_ok = True, buffer_ok = True, reprinted = (\<lambda>t. t)\<rparr>"

lemma example_env_good: "good_env example_env"
  by (simp add: good_env_def example_env_def BUFFER_SIZE_def NEW_UTS_LEN_def)

definition example_log :: logger_state where
  "example_log =
     \<lparr>klog = [], log_remote = True, log_sock = True, remote_log_work_queue = True, queued = [], sent = [],
      leaked_works = 0\<rparr>"


lemma fold_ksocket_send:
  "fold ksocket_send bs s =
     (if log_sock s then s\<lparr>sent := sent s @ map (\<lambda>b. take BUFFER_SIZE (cstr b)) bs\<rparr>
      else s\<lparr>leaked_works := leaked_works s + length bs\<rparr>)"
  by (induction bs arbitrary: s) (auto simp: ksocket_send_def)

text \<open>
  While the socket is open the work queue sends the queued messages in order and frees them;
  destroy_logger closes the socket first, so that the messages still queued are neither sent nor
  freed.
\<close>

theorem destroy_logger_loses_queue:
  assumes "log_sock s" "remote_log_work_queue s"
  shows "sent (run_works s) = sent s @ map (\<lambda>b. take BUFFER_SIZE (cstr b)) (queued s) \<and>
    leaked_works (run_works s) = leaked_works s \<and>
    sent (destroy_logger s) = sent s \<and> queued (destroy_logger s) = [] \<and>
    leaked_works (destroy_logger s) = leaked_works s + length (queued s)"
  using assms by (simp add: destroy_logger_def run_works_def fold_ksocket_send)

theorem destroy_logger_loses_queue_witness:
  "leaked_works (destroy_logger (example_log\<lparr>queued := [''a'', ''b'']\<rparr>)) = 2"
  using destroy_logger_loses_queue [of "example_log\<lparr>queued := [''a'', ''b'']\<rparr>"]
  by (simp add: example_log_def)

end
