(* ===== verification/Seq_File.thy ===== *)
theory Seq_File imports Task_Dump_List Logger begin

text \<open>
  The proc file with the snapshots (task-dump-seq-file.c) and the component that fills it
  (task-dump.c). The kernel's seq_file reads such a file in sessions: start at a position, then show
  and next for as many records as the reader's buffer takes, then stop on the pointer that the last
  start or next returned. The four operations are translated one by one; a session is the schedule
  that runs them.
\<close>

definition MAX_LOG_LEN :: nat where "MAX_LOG_LEN = 1024"

text \<open>
  A pointer to a position: to one that start allocated, or to the position of the caller that start
  was given. reader_pos is the caller's position; loffs are the allocated ones.
\<close>

datatype loff_ptr = Kmalloced nat | Reader_pos

record dump_state = logger_state +
  heap :: dump_heap
  dump_list :: "nat option"
  seq_list :: "nat option"
  dump_proc_entry :: bool
  loffs :: "(nat, nat) fmap"
  next_loff :: nat
  reader_pos :: nat
  seq_buffer :: string

section \<open>The lines\<close>

text \<open>The conversions %4d and %15s pad on the left.\<close>

definition pad_left :: "nat \<Rightarrow> string \<Rightarrow> string" where
  "pad_left n s = replicate (n - length s) (CHR '' '') @ s"

definition read_string :: "char list \<Rightarrow> string run" where
  "read_string b = (if NUL \<in> set b then Inr (cstr b) else Inl Read_out_of_bounds)"

definition header_line :: string where
  "header_line = ''  PID     UID     GID  STATE         NAME       Start Time'' @ [CHR 0x0A]"

definition dump_text :: "task_dump \<Rightarrow> string" where
  "dump_text d =
     pad_left 4 (fmt_d (dump_pid d)) @ CHR 0x09 # pad_left 4 (fmt_d (dump_uid d)) @ CHR 0x09 #
     pad_left 4 (fmt_d (dump_gid d)) @ CHR 0x09 # cstr (dump_state d) @ ''    '' @
     pad_left 15 (cstr (dump_comm d)) @ CHR 0x09 # fmt_d (dump_start_time d) @ [CHR 0x0A]"

text \<open>The sprintf into the log buffer on the stack.\<close>

definition dump_line :: "task_dump \<Rightarrow> string run" where
  "dump_line d =
     run_bind (read_string (dump_state d)) (\<lambda>_.
     run_bind (read_string (dump_comm d)) (\<lambda>_.
     if MAX_LOG_LEN \<le> length (dump_text d) then Inl Write_out_of_bounds else Inr (dump_text d)))"

text \<open>
  What a format prints that is passed without arguments: print_log and seq_printf are given the line
  itself as their format. convert is what the other conversions and a malformed one print.
\<close>

fun bare_format :: "(string \<Rightarrow> string) \<Rightarrow> string \<Rightarrow> string run" where
  "bare_format convert [] = Inr []"
| "bare_format convert (c # f) =
     (if c \<noteq> CHR ''%'' then run_bind (bare_format convert f) (\<lambda>t. Inr (c # t))
      else case f of
        [] \<Rightarrow> Inr (convert f)
      | d # g \<Rightarrow>
          if d = CHR ''%'' then run_bind (bare_format convert g) (\<lambda>t. Inr (CHR ''%'' # t))
          else if d = CHR ''s'' then Inl Missing_argument
          else Inr (convert f))"

section \<open>The operations of the seq file\<close>

definition read_loff :: "loff_ptr \<Rightarrow> 'a dump_state_scheme \<Rightarrow> nat run" where
  "read_loff v s = (case v of Reader_pos \<Rightarrow> Inr (reader_pos s)
     | Kmalloced a \<Rightarrow> (case fmlookup (loffs s) a of None \<Rightarrow> Inl Use_after_free | Some n \<Rightarrow> Inr n))"

definition write_loff :: "loff_ptr \<Rightarrow> nat \<Rightarrow> 'a dump_state_scheme \<Rightarrow> 'a dump_state_scheme" where
  "write_loff v n s = (case v of Reader_pos \<Rightarrow> s\<lparr>reader_pos := n\<rparr>
     | Kmalloced a \<Rightarrow> s\<lparr>loffs := fmupd a n (loffs s)\<rparr>)"

definition task_dump_seq_start ::
  "bool \<Rightarrow> 'a dump_state_scheme \<Rightarrow> (loff_ptr option \<times> 'a dump_state_scheme) run" where
  "task_dump_seq_start kmalloc_ok s =
     (if reader_pos s = 0
      then Inr (if \<not> kmalloc_ok then (None, s)
                else (Some (Kmalloced (next_loff s)),
                      s\<lparr>loffs := fmupd (next_loff s) (reader_pos s) (loffs s), next_loff := Suc (next_loff s)\<rparr>))
      else
        run_bind (get_size (seq_list s) (heap s)) (\<lambda>size.
        Inr (if size < int (reader_pos s) then (None, s\<lparr>reader_pos := 0\<rparr>) else (Some Reader_pos, s))))"

text \<open>pos is the value of the position that next is given the address of; it is returned updated.\<close>

definition task_dump_seq_next ::
  "loff_ptr \<Rightarrow> nat \<Rightarrow> 'a dump_state_scheme \<Rightarrow> (loff_ptr option \<times> nat \<times> 'a dump_state_scheme) run" where
  "task_dump_seq_next v pos s =
     run_bind (get_size (seq_list s) (heap s)) (\<lambda>size.
     if size + 1 < int pos then Inr (None, pos, s)
     else
       run_bind (read_loff v s) (\<lambda>n.
       let s = write_loff v (Suc n) s in Inr (Some v, Suc n, s)))"

definition task_dump_seq_stop :: "loff_ptr option \<Rightarrow> 'a dump_state_scheme \<Rightarrow> 'a dump_state_scheme run" where
  "task_dump_seq_stop v s =
     (case v of None \<Rightarrow> Inr s
      | Some Reader_pos \<Rightarrow> Inl Invalid_free
      | Some (Kmalloced a) \<Rightarrow>
          if fmlookup (loffs s) a = None then Inl Invalid_free else Inr (s\<lparr>loffs := fmdrop a (loffs s)\<rparr>))"

text \<open>Logs the line, remotely too, and shows it to the reader.\<close>

definition show_line ::
  "(nat \<Rightarrow> log_env) \<Rightarrow> (string \<Rightarrow> string) \<Rightarrow> string \<Rightarrow> 'a dump_state_scheme \<Rightarrow> 'a dump_state_scheme run" where
  "show_line E convert txt s =
     run_bind (bare_format convert txt) (\<lambda>t.
     run_bind (print_log E [] t s) (\<lambda>s.
     Inr (s\<lparr>seq_buffer := seq_buffer s @ t\<rparr>)))"

definition task_dump_seq_show ::
  "(nat \<Rightarrow> log_env) \<Rightarrow> (string \<Rightarrow> string) \<Rightarrow> loff_ptr \<Rightarrow> 'a dump_state_scheme \<Rightarrow> 'a dump_state_scheme run" where
  "task_dump_seq_show E convert v s =
     run_bind (get_size (seq_list s) (heap s)) (\<lambda>size.
     if seq_list s = None \<or> size = 0 then Inr s
     else
       run_bind (read_loff v s) (\<lambda>n.
       if n = 0 then show_line E convert header_line s
       else
         run_bind (get_task_dump (seq_list s) (n - 1) (heap s)) (\<lambda>d.
         if d = None then Inr s
         else
           run_bind (deref (dumps (heap s)) d) (\<lambda>d.
           run_bind (dump_line d) (\<lambda>line. show_line E convert line s)))))"

section \<open>A session of the kernel's seq_file\<close>

text \<open>The loop shows at most n records; pos is the kernel's position while it runs.\<close>

fun seq_records ::
  "(nat \<Rightarrow> log_env) \<Rightarrow> (string \<Rightarrow> string) \<Rightarrow> nat \<Rightarrow> loff_ptr option \<Rightarrow> nat \<Rightarrow> 'a dump_state_scheme \<Rightarrow>
   (loff_ptr option \<times> 'a dump_state_scheme) run" where
  "seq_records E convert n None pos s = Inr (None, s)"
| "seq_records E convert 0 (Some v) pos s = Inr (Some v, s)"
| "seq_records E convert (Suc n) (Some v) pos s =
     run_bind (task_dump_seq_show E convert v s) (\<lambda>s.
     run_bind (task_dump_seq_next v pos s) (\<lambda>(v', pos', s). seq_records E convert n v' pos' s))"

definition seq_session ::
  "(nat \<Rightarrow> log_env) \<Rightarrow> (string \<Rightarrow> string) \<Rightarrow> bool \<Rightarrow> nat \<Rightarrow> 'a dump_state_scheme \<Rightarrow> 'a dump_state_scheme run" where
  "seq_session E convert kmalloc_ok n s =
     run_bind (task_dump_seq_start kmalloc_ok s) (\<lambda>(v, s).
     run_bind (seq_records E convert n v (reader_pos s) s) (\<lambda>(v, s).
     task_dump_seq_stop v s))"

definition init_dump_seq_file :: "bool \<Rightarrow> nat option \<Rightarrow> 'a dump_state_scheme \<Rightarrow> int \<times> 'a dump_state_scheme" where
  "init_dump_seq_file create_ok l s =
     (if l = None then (0, s)
      else
        let s = s\<lparr>seq_list := l\<rparr> in
        if dump_proc_entry s then (1, s)
        else
          let s = s\<lparr>dump_proc_entry := create_ok\<rparr> in
          if \<not> create_ok then (0, s) else (1, s))"

definition destroy_dump_seq_file :: "'a dump_state_scheme \<Rightarrow> 'a dump_state_scheme" where
  "destroy_dump_seq_file s = (if dump_proc_entry s then s\<lparr>dump_proc_entry := False\<rparr> else s)"

section \<open>Taking snapshots\<close>

definition init_task_dump :: "bool \<Rightarrow> bool \<Rightarrow> 'a dump_state_scheme \<Rightarrow> (int \<times> 'a dump_state_scheme) run" where
  "init_task_dump kmalloc_ok create_ok s =
     run_bind (if dump_list s = None then Inr (heap s) else destroy_task_dump_list (dump_list s) (heap s)) (\<lambda>h.
     let (l, h) = init_task_dump_list kmalloc_ok h; s = s\<lparr>heap := h, dump_list := l\<rparr>
     in if l = None then Inr (0, s) else Inr (init_dump_seq_file create_ok l s))"

definition dump_task ::
  "32 word \<Rightarrow> bool \<Rightarrow> bool \<Rightarrow> task_dump \<Rightarrow> task option \<Rightarrow> 'a dump_state_scheme \<Rightarrow> (int \<times> 'a dump_state_scheme) run" where
  "dump_task TASK_REPORT dump_ok node_ok garbage t s =
     run_bind (init_task_dump_from_task TASK_REPORT dump_ok garbage t (heap s)) (\<lambda>(d, h).
     run_bind (add_task_dump_to_list node_ok (dump_list s) d h) (\<lambda>(ret, h).
     Inr (ret, s\<lparr>heap := h\<rparr>)))"

definition destroy_task_dump :: "'a dump_state_scheme \<Rightarrow> 'a dump_state_scheme run" where
  "destroy_task_dump s =
     (let s = destroy_dump_seq_file s in
      run_bind (destroy_task_dump_list (dump_list s) (heap s)) (\<lambda>h. Inr (s\<lparr>heap := h\<rparr>)))"

section \<open>What a line looks like\<close>

lemma bare_format_plain: "CHR ''%'' \<notin> set f \<Longrightarrow> bare_format convert f = Inr f"
  by (induction f) auto

lemma bare_format_missing: "CHR ''%'' \<notin> set p \<Longrightarrow> bare_format convert (p @ ''%s'' @ r) = Inl Missing_argument"
  by (induction p) auto

text \<open>A snapshot as init_task_dump_from_task fills it in: int fields, and terminated strings.\<close>

definition dump_wf :: "task_dump \<Rightarrow> bool" where
  "dump_wf d \<longleftrightarrow>
     \<bar>dump_pid d\<bar> < 10 ^ 10 \<and> \<bar>dump_uid d\<bar> < 10 ^ 10 \<and> \<bar>dump_gid d\<bar> < 10 ^ 10 \<and> \<bar>dump_start_time d\<bar> < 10 ^ 19 \<and>
     length (dump_state d) = MAX_STATE_LEN \<and> NUL \<in> set (dump_state d) \<and> CHR ''%'' \<notin> set (dump_state d) \<and>
     length (dump_comm d) = TASK_COMM_LEN \<and> NUL \<in> set (dump_comm d)"

definition no_conversion :: "task_dump \<Rightarrow> bool" where
  "no_conversion d \<longleftrightarrow> CHR ''%'' \<notin> set (cstr (dump_comm d))"

lemma fmt_d_length: "\<bar>i\<bar> < 10 ^ k \<Longrightarrow> 0 < k \<Longrightarrow> length (fmt_d i) \<le> Suc k"
proof -
  assume i: "\<bar>i\<bar> < 10 ^ k" "0 < k"
  then have "nat \<bar>i\<bar> < 10 ^ k" by (simp add: nat_less_iff)
  from dec_string_length [OF this i(2)] show "length (fmt_d i) \<le> Suc k"
    by (auto simp: fmt_d_def)
qed

lemma fmt_d_plain: "CHR ''%'' \<notin> set (fmt_d i)"
  by (auto simp: fmt_d_def dest!: dec_string_chars)

lemma pad_left_length: "length (pad_left n s) = max n (length s)"
  by (simp add: pad_left_def)

lemma set_pad_left: "set (pad_left n s) \<subseteq> insert (CHR '' '') (set s)"
  by (auto simp: pad_left_def)

lemma set_cstr: "set (cstr b) \<subseteq> set b"
  by (auto simp: cstr_def dest: set_takeWhileD)

lemma dump_text_short:
  assumes "dump_wf d"
  shows "length (dump_text d) < MAX_LOG_LEN"
proof -
  have "length (fmt_d (dump_pid d)) \<le> Suc 10" "length (fmt_d (dump_uid d)) \<le> Suc 10"
    "length (fmt_d (dump_gid d)) \<le> Suc 10" "length (fmt_d (dump_start_time d)) \<le> Suc 19"
    using assms
    by (simp_all add: dump_wf_def fmt_d_length [where k = 10, simplified] fmt_d_length [where k = 19, simplified])
  moreover have "length (cstr (dump_state d)) \<le> 2" "length (cstr (dump_comm d)) \<le> 16"
    using assms cstr_length [of "dump_state d"] cstr_length [of "dump_comm d"]
    by (auto simp: dump_wf_def MAX_STATE_LEN_def TASK_COMM_LEN_def)
  ultimately show ?thesis by (simp add: dump_text_def pad_left_length MAX_LOG_LEN_def)
qed

lemma dump_line_wf: "dump_wf d \<Longrightarrow> dump_line d = Inr (dump_text d)"
  using dump_text_short [of d] by (simp add: dump_line_def read_string_def) (simp add: dump_wf_def)

lemma dump_text_plain:
  assumes "dump_wf d" "no_conversion d"
  shows "CHR ''%'' \<notin> set (dump_text d)"
proof -
  have "CHR ''%'' \<notin> set (cstr (dump_state d))"
    using assms(1) set_cstr [of "dump_state d"] by (auto simp: dump_wf_def)
  moreover have "CHR ''%'' \<notin> set (pad_left n (fmt_d i))" for n i
    using set_pad_left [of n "fmt_d i"] fmt_d_plain by auto
  moreover have "CHR ''%'' \<notin> set (pad_left 15 (cstr (dump_comm d)))"
    using assms(2) set_pad_left [of 15 "cstr (dump_comm d)"] by (auto simp: no_conversion_def)
  ultimately show ?thesis by (simp add: dump_text_def fmt_d_plain)
qed

section \<open>One record\<close>

text \<open>The snapshots in the list are allocated and well-formed.\<close>

definition printable :: "dump_heap \<Rightarrow> nat list \<Rightarrow> bool" where
  "printable h as \<longleftrightarrow>
     (\<forall>d. Some d \<in> set (dumps_of h as) \<longrightarrow>
        (\<exists>x. fmlookup (dumps h) d = Some x \<and> dump_wf x \<and> no_conversion x))"

definition text_of :: "dump_heap \<Rightarrow> nat option \<Rightarrow> string" where
  "text_of h d = (case d of None \<Rightarrow> [] | Some a \<Rightarrow> dump_text (the (fmlookup (dumps h) a)))"

definition lines_of :: "dump_heap \<Rightarrow> nat list \<Rightarrow> string list" where
  "lines_of h as = (if as = [] then [] else header_line # map (text_of h) (dumps_of h as))"

definition record_text :: "dump_heap \<Rightarrow> nat list \<Rightarrow> nat \<Rightarrow> string" where
  "record_text h as k = (if k < length (lines_of h as) then lines_of h as ! k else [])"

text \<open>What showing some text changes.\<close>

definition shows_text :: "string \<Rightarrow> 'a dump_state_scheme \<Rightarrow> 'a dump_state_scheme \<Rightarrow> bool" where
  "shows_text t s s' \<longleftrightarrow>
     (\<exists>kl q. s' = s\<lparr>klog := klog s @ kl, queued := queued s @ q, seq_buffer := seq_buffer s @ t\<rparr>)"

lemma shows_nothing: "shows_text [] s s"
  unfolding shows_text_def by (rule exI [of _ "[]"], rule exI [of _ "[]"]) simp

lemma shows_text_fields:
  "shows_text t s s' \<Longrightarrow> heap s' = heap s \<and> seq_list s' = seq_list s \<and> loffs s' = loffs s \<and>
     next_loff s' = next_loff s \<and> reader_pos s' = reader_pos s \<and> seq_buffer s' = seq_buffer s @ t"
  by (auto simp: shows_text_def)

lemma queue_ready_dump_fields [simp]:
  "queue_ready (s\<lparr>heap := h\<rparr>) = queue_ready s" "queue_ready (s\<lparr>loffs := l\<rparr>) = queue_ready s"
  "queue_ready (s\<lparr>next_loff := n\<rparr>) = queue_ready s" "queue_ready (s\<lparr>reader_pos := p\<rparr>) = queue_ready s"
  "queue_ready (s\<lparr>seq_buffer := b\<rparr>) = queue_ready s"
  by (simp_all add: queue_ready_def)

lemma queue_ready_shows: "shows_text t s s' \<Longrightarrow> queue_ready s' = queue_ready s"
  by (auto simp: shows_text_def)

lemma show_line_plain:
  assumes "\<And>n. good_env (E n)" "CHR ''%'' \<notin> set t" "queue_ready s"
  shows "\<exists>s'. show_line E convert t s = Inr s' \<and> shows_text t s s'"
proof -
  obtain extra q where "print_log E [] t s = Inr (s\<lparr>klog := klog s @ t # extra, queued := queued s @ q\<rparr>)"
    using print_log_frame [where E = E, OF assms(1,3), of "[]" t] by blast
  then show ?thesis
    using assms(2) by (auto simp: show_line_def bare_format_plain shows_text_def)
qed

lemma header_plain: "CHR ''%'' \<notin> set header_line"
  by (simp add: header_line_def)

lemma show_record:
  assumes "\<And>n. good_env (E n)" "list_at (heap s) (seq_list s) as" "printable (heap s) as" "read_loff v s = Inr k"
    and "queue_ready s"
  shows "\<exists>s'. task_dump_seq_show E convert v s = Inr s' \<and> shows_text (record_text (heap s) as k) s s'"
proof (cases "as = []")
  case True
  then show ?thesis
    using task_dumps.size_law [OF assms(2)] shows_nothing
    by (simp add: task_dump_seq_show_def record_text_def lines_of_def dumps_of_def)
next
  case False
  have l: "seq_list s \<noteq> None" using assms(2) by (auto simp: list_at_def)
  have len: "length (dumps_of (heap s) as) = length as" by (simp add: dumps_of_def)
  show ?thesis
  proof (cases k)
    case 0
    then show ?thesis
      using show_line_plain [where E = E, OF assms(1) header_plain assms(5), of convert] task_dumps.size_law [OF assms(2)] assms(4) False l
      by (auto simp: task_dump_seq_show_def record_text_def lines_of_def len)
  next
    case (Suc j)
    show ?thesis
    proof (cases "j < length as \<and> dumps_of (heap s) as ! j \<noteq> None")
      case True
      then obtain d where d: "dumps_of (heap s) as ! j = Some d" by auto
      with True have "Some d \<in> set (dumps_of (heap s) as)" by (metis len nth_mem)
      then obtain x where x: "fmlookup (dumps (heap s)) d = Some x" "dump_wf x" "no_conversion x"
        using assms(3) by (auto simp: printable_def)
      then have "record_text (heap s) as k = dump_text x"
        using True False d Suc by (simp add: record_text_def lines_of_def len text_of_def)
      then show ?thesis
        using show_line_plain [where E = E, OF assms(1) dump_text_plain [OF x(2,3)] assms(5), of convert]
          task_dumps.size_law [OF assms(2)] task_dumps.nth_law [OF assms(2), of j] assms(4) False l Suc True d x(1)
        by (auto simp: task_dump_seq_show_def len deref_Some dump_line_wf [OF x(2)])
    next
      case none: False
      then have "record_text (heap s) as k = []"
        using Suc False by (auto simp: record_text_def lines_of_def len text_of_def)
      then show ?thesis
        using none task_dumps.size_law [OF assms(2)] task_dumps.nth_law [OF assms(2), of j] assms(4) False l Suc
        by (auto simp: task_dump_seq_show_def len shows_nothing)
    qed
  qed
qed

section \<open>The loop\<close>

lemma read_loff_shows [simp]: "shows_text t s s' \<Longrightarrow> read_loff v s' = read_loff v s"
  by (auto simp: shows_text_def read_loff_def split: loff_ptr.splits)

lemma read_write_loff [simp]: "read_loff v (write_loff v n s) = Inr n"
  by (simp add: read_loff_def write_loff_def split: loff_ptr.splits)

lemma queue_ready_write_loff [simp]: "queue_ready (write_loff v n s) = queue_ready s"
  by (simp add: write_loff_def split: loff_ptr.splits)

lemma write_loff_fields [simp]:
  "heap (write_loff v n s) = heap s" "seq_list (write_loff v n s) = seq_list s"
  "write_loff v n (write_loff v m s) = write_loff v n s"
  by (simp_all add: write_loff_def split: loff_ptr.splits)

lemma fmupd_same: "fmlookup m a = Some x \<Longrightarrow> fmupd a x m = m"
  by (rule fmap_ext) auto

lemma write_loff_same: "read_loff v s = Inr n \<Longrightarrow> write_loff v n s = s"
  by (auto simp: read_loff_def write_loff_def fmupd_same split: loff_ptr.splits option.splits)

lemma shows_text_trans: "shows_text t s s1 \<Longrightarrow> shows_text u s1 s2 \<Longrightarrow> shows_text (t @ u) s s2"
  unfolding shows_text_def by (elim exE, intro exI) simp

lemma shows_text_write:
  assumes "shows_text t (write_loff v n s) s'"
  shows "\<exists>s1. shows_text t s s1 \<and> s' = write_loff v n s1"
proof -
  obtain kl q where "s' = (write_loff v n s)\<lparr>klog := klog (write_loff v n s) @ kl,
      queued := queued (write_loff v n s) @ q, seq_buffer := seq_buffer (write_loff v n s) @ t\<rparr>"
    using assms by (auto simp: shows_text_def)
  then have "s' = write_loff v n (s\<lparr>klog := klog s @ kl, queued := queued s @ q, seq_buffer := seq_buffer s @ t\<rparr>)"
    by (simp add: write_loff_def split: loff_ptr.splits)
  then show ?thesis unfolding shows_text_def by blast
qed

text \<open>The texts of n records from position k on; the sequence has two positions more than lines.\<close>

definition texts_from :: "dump_heap \<Rightarrow> nat list \<Rightarrow> nat \<Rightarrow> nat \<Rightarrow> string" where
  "texts_from h as k n = concat (map (record_text h as) [k..<min (k + n) (length as + 3)])"

lemma texts_from_0 [simp]: "texts_from h as k 0 = []"
  by (simp add: texts_from_def)

lemma texts_from_Suc:
  "k \<le> length as + 2 \<Longrightarrow> texts_from h as k (Suc n) = record_text h as k @ texts_from h as (Suc k) n"
  by (simp add: texts_from_def upt_conv_Cons)

lemma seq_records_run:
  assumes "\<And>n. good_env (E n)" "list_at (heap s) (seq_list s) as" "printable (heap s) as"
    and "read_loff v s = Inr k" "k \<le> length as + 2" "queue_ready s"
  shows "\<exists>s'. seq_records E convert n (Some v) k s =
      Inr (if k + n \<le> length as + 2 then Some v else None, write_loff v (min (k + n) (length as + 2)) s') \<and>
    shows_text (texts_from (heap s) as k n) s s'"
  using assms
proof (induction n arbitrary: k s)
  case 0
  from "0.prems"(4,5) show ?case
    by (intro exI [of _ s]) (simp add: write_loff_same min_absorb1 shows_nothing)
next
  case (Suc n)
  obtain s1 where s1: "task_dump_seq_show E convert v s = Inr s1" "shows_text (record_text (heap s) as k) s s1"
    using show_record [where E = E, OF Suc.prems(1-4,6)] by blast
  then have f: "heap s1 = heap s" "seq_list s1 = seq_list s" "read_loff v s1 = Inr k" "queue_ready s1"
    using shows_text_fields [OF s1(2)] queue_ready_shows [OF s1(2)] Suc.prems(4,6) by simp_all
  have size: "get_size (seq_list s1) (heap s1) = Inr (int (length as))"
    using task_dumps.size_law [OF Suc.prems(2)] f by (simp add: dumps_of_def)
  show ?case
  proof (cases "k = length as + 2")
    case True
    then show ?thesis
      using s1 size write_loff_same [OF f(3)]
      by (intro exI [of _ s1]) (simp add: task_dump_seq_next_def texts_from_def upt_conv_Cons)
  next
    case False
    then have k: "Suc k \<le> length as + 2" using Suc.prems(5) by simp
    obtain s2 where s2: "seq_records E convert n (Some v) (Suc k) (write_loff v (Suc k) s1) =
        Inr (if Suc k + n \<le> length as + 2 then Some v else None, write_loff v (min (Suc k + n) (length as + 2)) s2)"
      "shows_text (texts_from (heap s) as (Suc k) n) (write_loff v (Suc k) s1) s2"
      using Suc.IH [of "write_loff v (Suc k) s1" "Suc k"] Suc.prems(1-3) k f by auto
    obtain s3 where s3: "shows_text (texts_from (heap s) as (Suc k) n) s1 s3" "s2 = write_loff v (Suc k) s3"
      using shows_text_write [OF s2(2)] by blast
    have "task_dump_seq_next v k s1 = Inr (Some v, Suc k, write_loff v (Suc k) s1)"
      using size f(3) k by (simp add: task_dump_seq_next_def)
    then have "seq_records E convert (Suc n) (Some v) k s =
        Inr (if k + Suc n \<le> length as + 2 then Some v else None, write_loff v (min (k + Suc n) (length as + 2)) s3)"
      using s1(1) s2(1) s3(2) by simp
    moreover have "shows_text (texts_from (heap s) as k (Suc n)) s s3"
      using shows_text_trans [OF s1(2) s3(1)] Suc.prems(5) by (simp add: texts_from_Suc)
    ultimately show ?thesis by blast
  qed
qed

lemma concat_blank: "(\<And>x. x \<in> set xs \<Longrightarrow> f x = []) \<Longrightarrow> concat (map f xs) = []"
  by (induction xs) auto

text \<open>From any position on, the n records are those of the lines, then nothing.\<close>

lemma texts_from_lines: "texts_from h as k n = concat (take n (drop k (lines_of h as)))"
proof -
  define l where "l = lines_of h as"
  define m where "m = max k (min (k + n) (length l))"
  have len: "length l \<le> length as + 1"
    by (simp add: l_def lines_of_def dumps_of_def)
  have blank: "concat (map (record_text h as) [i..<j]) = []" if "length l \<le> i" for i j
    using that by (intro concat_blank) (auto simp: record_text_def l_def [symmetric])
  show ?thesis
  proof (cases "k < length l")
    case False
    then show ?thesis using blank [of k] by (simp add: texts_from_def l_def [symmetric])
  next
    case True
    then have m: "k \<le> m" "m \<le> length l" "m \<le> min (k + n) (length as + 3)" using len by (auto simp: m_def)
    have "[k..<min (k + n) (length as + 3)] = [k..<m] @ [m..<min (k + n) (length as + 3)]"
      using m by (metis le_add_diff_inverse upt_add_eq_append)
    moreover have "concat (map (record_text h as) [m..<min (k + n) (length as + 3)]) = []"
    proof (cases "m = length l")
      case True
      show ?thesis unfolding True by (rule blank) simp
    next
      case False
      then have "m = k + n" using True by (auto simp: m_def)
      then show ?thesis by simp
    qed
    moreover have "map (record_text h as) [k..<m] = take n (drop k l)"
    proof (rule nth_equalityI)
      fix i
      assume "i < length (map (record_text h as) [k..<m])"
      then have "i < m - k" "[k..<m] ! i = k + i" "k + i < length l" using m(2) by simp_all
      then show "map (record_text h as) [k..<m] ! i = take n (drop k l) ! i"
        using m(2) by (simp add: record_text_def l_def [symmetric]) (simp add: m_def)
    qed (use True in \<open>auto simp: m_def\<close>)
    ultimately show ?thesis by (simp add: texts_from_def l_def [symmetric])
  qed
qed

section \<open>The properties of the seq file\<close>

lemma fresh_read_run:
  assumes "\<And>n. good_env (E n)" "list_at (heap s) (seq_list s) as" "printable (heap s) as"
    and "reader_pos s = 0" "fmlookup (loffs s) (next_loff s) = None" "queue_ready s"
  shows "\<exists>s'. seq_session E convert True n s = Inr s' \<and>
    seq_buffer s' = seq_buffer s @ concat (take n (lines_of (heap s) as)) \<and> heap s' = heap s \<and>
    next_loff s' = Suc (next_loff s) \<and> loffs s' = (if n \<le> length as + 2 then loffs s else fmupd (next_loff s) (length as + 2) (loffs s))"
proof -
  define a where "a = next_loff s"
  define s0 where "s0 = s\<lparr>loffs := fmupd a 0 (loffs s), next_loff := Suc a\<rparr>"
  have start: "task_dump_seq_start True s = Inr (Some (Kmalloced a), s0)"
    using assms(4) by (simp add: task_dump_seq_start_def s0_def a_def)
  obtain s1 where s1: "seq_records E convert n (Some (Kmalloced a)) 0 s0 =
      Inr (if n \<le> length as + 2 then Some (Kmalloced a) else None, write_loff (Kmalloced a) (min n (length as + 2)) s1)"
    "shows_text (texts_from (heap s) as 0 n) s0 s1"
    using seq_records_run [where E = E and s = s0 and k = 0 and v = "Kmalloced a" and as = as, OF assms(1)] assms(2,3,6)
    by (auto simp: s0_def read_loff_def)
  have f: "loffs s1 = fmupd a 0 (loffs s)" "heap s1 = heap s" "next_loff s1 = Suc a"
    "seq_buffer s1 = seq_buffer s @ concat (take n (lines_of (heap s) as))"
    using shows_text_fields [OF s1(2)] by (simp_all add: s0_def texts_from_lines)
  have drop: "fmdrop a (fmupd a k (loffs s)) = loffs s" for k
    using assms(5) by (intro fmap_ext) (simp add: a_def)
  show ?thesis
    using start s1(1) assms(4) f drop
    by (simp add: seq_session_def task_dump_seq_stop_def write_loff_def a_def [symmetric])
      (simp add: s0_def)
qed

text \<open>
  C17: A read from the beginning, of a list whose snapshots are allocated and well-formed and have no
  name with a '%' (such a name becomes part of a format, see C35), when the allocation of its position
  succeeds and a remote logger has its work queue. It shows, without any fault, the header and then the
  line of every snapshot in the order of the list, cut at the number of records the reader has room for;
  a node without a snapshot and an empty list show nothing. The reader is told that there is no more
  after two records more than there are lines, so every read ends; but a read that goes to the end does
  not free the position that start allocated, because stop is then given NULL.
\<close>

theorem fresh_read_shows_all:
  assumes "\<And>n. good_env (E n)" "list_at (heap s) (seq_list s) as" "printable (heap s) as"
    and "reader_pos s = 0" "fmlookup (loffs s) (next_loff s) = None" "queue_ready s"
  shows "\<exists>s'. seq_session E convert True n s = Inr s' \<and>
    seq_buffer s' = seq_buffer s @ concat (take n (lines_of (heap s) as)) \<and> heap s' = heap s \<and>
    loffs s' = (if n \<le> length as + 2 then loffs s else fmupd (next_loff s) (length as + 2) (loffs s))"
  using fresh_read_run [where E = E, OF assms] by blast

lemma resumed_read_run:
  assumes "\<And>n. good_env (E n)" "list_at (heap s) (seq_list s) as" "printable (heap s) as" "0 < reader_pos s"
    and "queue_ready s"
  shows "if reader_pos s \<le> length as \<and> reader_pos s + n \<le> length as + 2
    then seq_session E convert kmalloc_ok n s = Inl Invalid_free
    else \<exists>s'. seq_session E convert kmalloc_ok n s = Inr s' \<and> loffs s' = loffs s \<and> next_loff s' = next_loff s \<and>
      heap s' = heap s \<and> seq_buffer s' = seq_buffer s @
        (if length as < reader_pos s then [] else concat (take n (drop (reader_pos s) (lines_of (heap s) as))))"
proof -
  have size: "get_size (seq_list s) (heap s) = Inr (int (length as))"
    using task_dumps.size_law [OF assms(2)] by (simp add: dumps_of_def)
  have start: "task_dump_seq_start kmalloc_ok s =
      Inr (if length as < reader_pos s then (None, s\<lparr>reader_pos := 0\<rparr>) else (Some Reader_pos, s))"
    using assms(4) size by (simp add: task_dump_seq_start_def)
  have run: "\<exists>s'. seq_records E convert n (Some Reader_pos) (reader_pos s) s =
      Inr (if reader_pos s + n \<le> length as + 2 then Some Reader_pos else None,
        write_loff Reader_pos (min (reader_pos s + n) (length as + 2)) s') \<and>
    shows_text (texts_from (heap s) as (reader_pos s) n) s s'" if "reader_pos s \<le> length as"
    using seq_records_run [where E = E, OF assms(1-3), of Reader_pos "reader_pos s"] assms(5) that
    by (simp add: read_loff_def)
  have "seq_session E convert kmalloc_ok n s = Inl Invalid_free"
    if "reader_pos s \<le> length as" "reader_pos s + n \<le> length as + 2"
    using run [OF that(1)] start that by (auto simp: seq_session_def task_dump_seq_stop_def)
  moreover have "\<exists>s'. seq_session E convert kmalloc_ok n s = Inr s' \<and> loffs s' = loffs s \<and> next_loff s' = next_loff s \<and>
      heap s' = heap s \<and> seq_buffer s' = seq_buffer s @
        (if length as < reader_pos s then [] else concat (take n (drop (reader_pos s) (lines_of (heap s) as))))"
    if "length as < reader_pos s \<or> length as + 2 < reader_pos s + n"
  proof (cases "length as < reader_pos s")
    case True
    then show ?thesis using start by (simp add: seq_session_def task_dump_seq_stop_def)
  next
    case False
    then show ?thesis
      using run start that
      by (auto simp: seq_session_def task_dump_seq_stop_def write_loff_def texts_from_lines dest!: shows_text_fields)
  qed
  ultimately show ?thesis by (simp add: linorder_not_le del: One_nat_def)
qed

text \<open>
  A read that continues at a later position is given a pointer to the position of the caller
  itself, and when the reader's buffer is full before the end stop frees it as if it had been
  allocated: the read ends in an invalid free. Only a read with room for everything that is left,
  or one past the last snapshot, ends well.
\<close>

theorem resumed_read_frees_position:
  assumes "\<And>n. good_env (E n)" "list_at (heap s) (seq_list s) as" "printable (heap s) as" "0 < reader_pos s"
    and "queue_ready s"
  shows "if reader_pos s \<le> length as \<and> reader_pos s + n \<le> length as + 2
    then seq_session E convert kmalloc_ok n s = Inl Invalid_free
    else \<exists>s'. seq_session E convert kmalloc_ok n s = Inr s' \<and> loffs s' = loffs s"
  using resumed_read_run [where E = E, OF assms, of n convert kmalloc_ok] by (auto split: if_splits)

definition example_dump :: task_dump where
  "example_dump = \<lparr>dump_pid = 7, dump_uid = 0, dump_gid = 0, dump_state = [CHR ''S'', NUL],
     dump_comm = ''sh'' @ replicate 14 NUL, dump_start_time = 5\<rparr>"

definition example_heap :: "task_dump \<Rightarrow> dump_heap" where
  "example_heap d = \<lparr>dumps = fmupd 3 d fmempty, nodes = fmupd 2 \<lparr>node_dump = Some 3, node_next = None\<rparr> fmempty,
     lists = fmupd 1 \<lparr>list_size = 1, list_head = Some 2, list_tail = Some 2\<rparr> fmempty, next_free = 4\<rparr>"

definition example_dumps :: "task_dump \<Rightarrow> dump_state" where
  "example_dumps d = \<lparr>klog = [], log_remote = False, log_sock = False, remote_log_work_queue = False,
     queued = [], sent = [], leaked_works = 0, heap = example_heap d, dump_list = Some 1, seq_list = Some 1,
     dump_proc_entry = True, loffs = fmempty, next_loff = 1, reader_pos = 0, seq_buffer = []\<rparr>"

lemma example_heap_list: "list_at (example_heap d) (Some 1) [2]" "dumps_of (example_heap d) [2] = [Some 3]"
  by (simp_all add: list_at_def example_heap_def dumps_of_def)

lemma example_printable: "printable (example_heap example_dump) [2]"
  by (simp add: printable_def example_heap_list(2))
    (simp add: example_heap_def example_dump_def dump_wf_def no_conversion_def MAX_STATE_LEN_def TASK_COMM_LEN_def)

theorem fresh_read_shows_all_witness:
  "\<exists>s'. seq_session (\<lambda>_. example_env) id True 4 (example_dumps example_dump) = Inr s' \<and>
     seq_buffer s' = header_line @ dump_text example_dump \<and> loffs s' = fmupd 1 3 fmempty"
proof -
  have "lines_of (example_heap example_dump) [2] = [header_line, dump_text example_dump]"
    by (simp add: lines_of_def example_heap_list(2) text_of_def) (simp add: example_heap_def)
  then show ?thesis
    using fresh_read_shows_all [where E = "\<lambda>_. example_env" and s = "example_dumps example_dump" and as = "[2]"
        and n = 4 and convert = id] example_env_good example_heap_list(1) example_printable
    by (auto simp: example_dumps_def numeral_3_eq_3 queue_ready_def)
qed

theorem resumed_read_frees_position_witness:
  "seq_session (\<lambda>_. example_env) id True 1 ((example_dumps example_dump)\<lparr>reader_pos := 1\<rparr>) = Inl Invalid_free"
  using resumed_read_frees_position [where E = "\<lambda>_. example_env" and s = "(example_dumps example_dump)\<lparr>reader_pos := 1\<rparr>"
      and as = "[2]" and n = 1 and convert = id and kmalloc_ok = True]
    example_env_good example_heap_list(1) example_printable
  by (simp add: example_dumps_def queue_ready_def)

text \<open>
  C35: The line of a snapshot is itself passed as a format, to the log and to the reader. The name of
  a process is part of it, so a process whose name holds the conversion %s makes showing its
  snapshot read an argument that was never passed.
\<close>

theorem process_name_is_format:
  assumes "list_at (heap s) (seq_list s) as" "j < length as" "dumps_of (heap s) as ! j = Some d"
    and "fmlookup (dumps (heap s)) d = Some x" "dump_wf x"
    and "cstr (dump_comm x) = p @ ''%s'' @ r" "CHR ''%'' \<notin> set p" "read_loff v s = Inr (Suc j)"
  shows "task_dump_seq_show E convert v s = Inl Missing_argument"
proof -
  define pre where "pre = pad_left 4 (fmt_d (dump_pid x)) @ CHR 0x09 # pad_left 4 (fmt_d (dump_uid x)) @ CHR 0x09 #
     pad_left 4 (fmt_d (dump_gid x)) @ CHR 0x09 # cstr (dump_state x) @ ''    '' @
     replicate (15 - length (p @ ''%s'' @ r)) (CHR '' '') @ p"
  have "CHR ''%'' \<notin> set (pad_left 4 (fmt_d i))" for i
    using set_pad_left [of 4 "fmt_d i"] fmt_d_plain by auto
  moreover have "CHR ''%'' \<notin> set (cstr (dump_state x))"
    using assms(5) set_cstr [of "dump_state x"] by (auto simp: dump_wf_def)
  ultimately have "CHR ''%'' \<notin> set pre" using assms(7) by (simp add: pre_def)
  moreover have "dump_text x = pre @ ''%s'' @ r @ CHR 0x09 # fmt_d (dump_start_time x) @ [CHR 0x0A]"
    unfolding dump_text_def assms(6) pre_def pad_left_def by simp
  ultimately have "bare_format convert (dump_text x) = Inl Missing_argument"
    using bare_format_missing by metis
  moreover have "seq_list s \<noteq> None" "as \<noteq> []" using assms(1,2) by (auto simp: list_at_def)
  ultimately show ?thesis
    using task_dumps.size_law [OF assms(1)] task_dumps.nth_law [OF assms(1), of j] assms(2-4,8)
    by (auto simp: task_dump_seq_show_def dumps_of_def deref_Some dump_line_wf [OF assms(5)] show_line_def)
qed

theorem process_name_is_format_witness:
  "task_dump_seq_show (\<lambda>_. example_env) id Reader_pos
     ((example_dumps (example_dump\<lparr>dump_comm := ''%s'' @ replicate 14 NUL\<rparr>))\<lparr>reader_pos := 1\<rparr>) = Inl Missing_argument"
proof -
  define x where "x = example_dump\<lparr>dump_comm := ''%s'' @ replicate 14 NUL\<rparr>"
  have "dump_wf x" "cstr (dump_comm x) = [] @ ''%s'' @ []"
    by (simp_all add: x_def example_dump_def dump_wf_def MAX_STATE_LEN_def TASK_COMM_LEN_def)
  moreover have "fmlookup (dumps (example_heap x)) 3 = Some x" by (simp add: example_heap_def)
  ultimately show ?thesis
    unfolding x_def [symmetric]
    using example_heap_list [of x]
    by (intro process_name_is_format [where as = "[2]" and j = 0 and d = 3 and x = x and p = "[]" and r = "[]"])
      (simp_all add: example_dumps_def read_loff_def)
qed

section \<open>The snapshot of a task\<close>

text \<open>The state that is reported has a letter, and the name is terminated.\<close>

definition task_wf :: "32 word \<Rightarrow> task \<Rightarrow> bool" where
  "task_wf TASK_REPORT t \<longleftrightarrow>
     state_index (task_state t AND TASK_REPORT) 0 < length task_state_array \<and>
     length (cstr (task_comm t)) < TASK_COMM_LEN \<and>
     \<bar>task_pid t\<bar> < 10 ^ 10 \<and> \<bar>task_uid t\<bar> < 10 ^ 10 \<and> \<bar>task_gid t\<bar> < 10 ^ 10 \<and> \<bar>start_ns t\<bar> < 10 ^ 19"

definition snapshot_of :: "32 word \<Rightarrow> task \<Rightarrow> task_dump" where
  "snapshot_of TASK_REPORT t =
     \<lparr>dump_pid = task_pid t, dump_uid = task_uid t, dump_gid = task_gid t,
      dump_state = strncpy (task_state_array ! state_index (task_state t AND TASK_REPORT) 0) MAX_STATE_LEN,
      dump_comm = strncpy (task_comm t) TASK_COMM_LEN, dump_start_time = start_ns t\<rparr>"

lemma init_dump_snapshot:
  assumes "task_wf R t" "length (dump_state garbage) = MAX_STATE_LEN"
  shows "init_task_dump_from_task R True garbage (Some t) h =
    Inr (Some (next_free h), h\<lparr>dumps := fmupd (next_free h) (snapshot_of R t) (dumps h), next_free := Suc (next_free h)\<rparr>)"
  using assms
  by (cases garbage) (simp add: init_task_dump_from_task_def get_task_state_def get_task_state_letter_def task_wf_def Let_def
      blit_def snapshot_of_def)

lemma letter_wf:
  assumes "n < length task_state_array"
  shows "NUL \<in> set (strncpy (task_state_array ! n) MAX_STATE_LEN) \<and>
    CHR ''%'' \<notin> set (strncpy (task_state_array ! n) MAX_STATE_LEN)"
proof -
  have "\<forall>n \<in> set [0..<6]. NUL \<in> set (strncpy (task_state_array ! n) MAX_STATE_LEN) \<and>
      CHR ''%'' \<notin> set (strncpy (task_state_array ! n) MAX_STATE_LEN)"
    by code_simp
  then show ?thesis using assms by (simp add: task_state_array_def)
qed

lemma strncpy_terminated: "length (cstr b) < n \<Longrightarrow> NUL \<in> set (strncpy b n) \<and> cstr (strncpy b n) = cstr b"
  by (auto simp: strncpy_def cstr_append)

lemma snapshot_wf: "task_wf R t \<Longrightarrow> dump_wf (snapshot_of R t)"
  by (simp add: dump_wf_def snapshot_of_def task_wf_def letter_wf strncpy_terminated)

lemma snapshot_name: "task_wf R t \<Longrightarrow> cstr (dump_comm (snapshot_of R t)) = cstr (task_comm t)"
  by (simp add: snapshot_of_def task_wf_def strncpy_terminated)

lemma list_at_alloc_dump:
  "list_at h l as \<Longrightarrow> list_at (h\<lparr>dumps := d, next_free := n\<rparr>) l as"
  "dumps_of (h\<lparr>dumps := d, next_free := n\<rparr>) as = dumps_of h as"
  by (simp_all add: list_at_def dumps_of_def)

lemma dump_heap_ok_alloc:
  "dump_heap_ok h \<Longrightarrow> dump_heap_ok (h\<lparr>dumps := fmupd (next_free h) x (dumps h), next_free := Suc (next_free h)\<rparr>)"
  by (auto simp: dump_heap_ok_def)

text \<open>One snapshot is taken and every allocation succeeds.\<close>

lemma dump_task_run:
  assumes "list_at (heap s) (dump_list s) as" "dump_heap_ok (heap s)"
    and "task_wf R t" "length (dump_state garbage) = MAX_STATE_LEN"
  shows "\<exists>h a. dump_task R True True garbage (Some t) s = Inr (1, s\<lparr>heap := h\<rparr>) \<and> list_at h (dump_list s) (as @ [a]) \<and>
    dumps_of h (as @ [a]) = dumps_of (heap s) as @ [Some (next_free (heap s))] \<and> dump_heap_ok h \<and>
    dumps h = fmupd (next_free (heap s)) (snapshot_of R t) (dumps (heap s)) \<and> beyond h (as @ [a]) = beyond (heap s) as"
proof -
  define h1 where "h1 = (heap s)\<lparr>dumps := fmupd (next_free (heap s)) (snapshot_of R t) (dumps (heap s)),
      next_free := Suc (next_free (heap s))\<rparr>"
  have "list_at h1 (dump_list s) as" "dump_heap_ok h1" "dumps_of h1 as = dumps_of (heap s) as"
    unfolding h1_def using assms(1,2) by (simp_all add: list_at_alloc_dump dump_heap_ok_alloc)
  then obtain h a where h: "add_task_dump_to_list True (dump_list s) (Some (next_free (heap s))) h1 = Inr (1, h)"
    "list_at h (dump_list s) (as @ [a])" "dumps_of h (as @ [a]) = dumps_of (heap s) as @ [Some (next_free (heap s))]"
    "dump_heap_ok h" "dumps h = dumps h1" "fmdrop_set (set (as @ [a])) (nodes h) = fmdrop_set (set as) (nodes h1)"
    using add_task_dump_refines [of h1 "dump_list s" as "Some (next_free (heap s))"] by auto
  have "fmlookup (dumps (heap s)) (next_free (heap s)) = None" using assms(2) by (simp add: dump_heap_ok_def)
  moreover have "snapshots h (as @ [a]) = insert (next_free (heap s)) (snapshots (heap s) as)"
    using h(3) by (auto simp: snapshots_def)
  ultimately have "fmdrop_set (snapshots h (as @ [a])) (dumps h) = fmdrop_set (snapshots (heap s) as) (dumps (heap s))"
    using h(5) by (intro fmap_ext) (simp add: h1_def)
  then have b: "beyond h (as @ [a]) = beyond (heap s) as" using h(6) by (simp add: beyond_def h1_def)
  have "dump_task R True True garbage (Some t) s = Inr (1, s\<lparr>heap := h\<rparr>)"
    using init_dump_snapshot [OF assms(3,4), of "heap s"] h(1) by (simp add: dump_task_def h1_def)
  then show ?thesis using h b by (auto simp: h1_def)
qed

text \<open>
  When the allocation of a snapshot fails a NULL is added to the list and counted, and the caller
  is told that the task was dumped; the reader shows nothing for it. When the allocation of the node
  fails the caller is told, and the list stays as it was, but the snapshot is lost in the heap.
\<close>

theorem dump_task_failures:
  assumes "list_at (heap s) (dump_list s) as" "dump_heap_ok (heap s)"
    and "task_wf R t" "length (dump_state garbage) = MAX_STATE_LEN"
  shows "(\<exists>s' a. dump_task R False True garbage (Some t) s = Inr (1, s') \<and> list_at (heap s') (dump_list s) (as @ [a]) \<and>
      dumps_of (heap s') (as @ [a]) = dumps_of (heap s) as @ [None] \<and> text_of (heap s') None = []) \<and>
    (\<exists>s'. dump_task R True False garbage (Some t) s = Inr (0, s') \<and> list_at (heap s') (dump_list s) as \<and>
      dumps_of (heap s') as = dumps_of (heap s) as \<and>
      dumps (heap s') = fmupd (next_free (heap s)) (snapshot_of R t) (dumps (heap s)))"
proof (rule conjI)
  have "init_task_dump_from_task R False garbage (Some t) (heap s) = Inr (None, heap s)"
    by (simp add: init_task_dump_from_task_def)
  then show "\<exists>s' a. dump_task R False True garbage (Some t) s = Inr (1, s') \<and> list_at (heap s') (dump_list s) (as @ [a]) \<and>
      dumps_of (heap s') (as @ [a]) = dumps_of (heap s) as @ [None] \<and> text_of (heap s') None = []"
    using add_task_dump_refines [OF assms(1,2), of None] by (auto simp: dump_task_def text_of_def)
  obtain la where "dump_list s = Some la" using assms(1) by (auto simp: list_at_def)
  then show "\<exists>s'. dump_task R True False garbage (Some t) s = Inr (0, s') \<and> list_at (heap s') (dump_list s) as \<and>
      dumps_of (heap s') as = dumps_of (heap s) as \<and>
      dumps (heap s') = fmupd (next_free (heap s)) (snapshot_of R t) (dumps (heap s))"
    using init_dump_snapshot [OF assms(3,4), of "heap s"] assms(1)
    by (simp add: dump_task_def add_task_dump_to_list_def init_task_dump_node_def list_at_alloc_dump)
qed

definition example_process :: task where
  "example_process = \<lparr>task_pid = 7, task_uid = 0, task_gid = 0, task_state = 1,
     task_comm = ''sh'' @ replicate 14 NUL, start_ns = 5\<rparr>"

lemma example_process_wf: "task_wf 63 example_process"
proof -
  have "state_index 1 0 = 1" by code_simp
  then show ?thesis
    by (simp add: task_wf_def example_process_def task_state_array_def TASK_COMM_LEN_def)
qed

lemma example_heap_ok: "dump_heap_ok (example_heap d)"
  by (auto simp: dump_heap_ok_def example_heap_def)

theorem dump_task_failures_witness:
  "\<exists>s'. dump_task 63 True False example_dump (Some example_process) (example_dumps example_dump) = Inr (0, s') \<and>
     dumps_of (heap s') [2] = [Some 3] \<and>
     dumps (heap s') = fmupd 4 (snapshot_of 63 example_process) (dumps (example_heap example_dump))"
proof -
  have f: "heap (example_dumps example_dump) = example_heap example_dump" "dump_list (example_dumps example_dump) = Some 1"
    "length (dump_state example_dump) = MAX_STATE_LEN" "next_free (example_heap example_dump) = 4"
    by (simp_all add: example_dumps_def example_dump_def example_heap_def MAX_STATE_LEN_def)
  show ?thesis
    using dump_task_failures [where s = "example_dumps example_dump" and as = "[2]" and R = 63
        and t = example_process and garbage = example_dump]
    unfolding f using f(3) example_process_wf example_heap_ok example_heap_list by auto
qed

end
