(* ===== verification/Proc_Entry.thy ===== *)
theory Proc_Entry imports Kernel_Base "HOL-Library.Finite_Map" begin

text \<open>
  The proc entry of carbonite (proc-entry.c), which shows a fixed text: its name and its text are
  copies in the kernel's heap. proc_dir is the list of the names under /proc.
\<close>

record proc_vars =
  strings :: "(nat, char list) fmap"
  next_string :: nat
  proc_file_name :: "nat option"
  data_to_expose :: "nat option"
  proc_entry :: bool
  proc_dir :: "string list"

section \<open>The copies\<close>

text \<open>The object at p, which a C string is read from.\<close>

definition string_at :: "nat option \<Rightarrow> proc_vars \<Rightarrow> string run" where
  "string_at p v =
     (case p of None \<Rightarrow> Inl Null_dereference
      | Some a \<Rightarrow> (case fmlookup (strings v) a of None \<Rightarrow> Inl Use_after_free | Some b \<Rightarrow> Inr (cstr b)))"

text \<open>kmalloc(strlen(name) + 1) and strcpy.\<close>

definition copy_string :: "string \<Rightarrow> proc_vars \<Rightarrow> nat \<times> proc_vars" where
  "copy_string txt v =
     (next_string v,
      v\<lparr>strings := fmupd (next_string v) (cstr txt @ [NUL]) (strings v), next_string := Suc (next_string v)\<rparr>)"

definition free_string :: "nat option \<Rightarrow> proc_vars \<Rightarrow> proc_vars run" where
  "free_string p v =
     (case p of None \<Rightarrow> Inr v
      | Some a \<Rightarrow> if fmlookup (strings v) a = None then Inl Invalid_free
                  else Inr (v\<lparr>strings := fmdrop a (strings v)\<rparr>))"

section \<open>The operations\<close>

text \<open>The conversion %s of the kernel prints (null) for a NULL pointer.\<close>

definition carbonite_procfile_read :: "proc_vars \<Rightarrow> int \<Rightarrow> string run" where
  "carbonite_procfile_read v offset = (if 0 < offset then Inr []
     else if data_to_expose v = None then Inr ''(null)''
     else string_at (data_to_expose v) v)"

definition init_carbonite_proc_entry ::
  "bool \<Rightarrow> bool \<Rightarrow> bool \<Rightarrow> string \<Rightarrow> string \<Rightarrow> proc_vars \<Rightarrow> (int \<times> proc_vars) run" where
  "init_carbonite_proc_entry name_ok data_ok create_ok name data v =
     (if proc_entry v then Inr (0, v)
      else if \<not> name_ok then Inr (0, v\<lparr>proc_file_name := None\<rparr>)
      else
        let (a, v) = copy_string name v; v = v\<lparr>proc_file_name := Some a\<rparr> in
        if \<not> data_ok then Inr (0, v\<lparr>data_to_expose := None\<rparr>)
        else
          let (d, v) = copy_string data v; v = v\<lparr>data_to_expose := Some d\<rparr> in
          run_bind (string_at (proc_file_name v) v) (\<lambda>n.
          if \<not> create_ok then Inr (0, v)
          else Inr (1, v\<lparr>proc_entry := True, proc_dir := n # proc_dir v\<rparr>)))"

definition destroy_proc_entry :: "proc_vars \<Rightarrow> proc_vars run" where
  "destroy_proc_entry v =
     run_bind
       (if proc_entry v
        then run_bind (string_at (proc_file_name v) v) (\<lambda>n. Inr (v\<lparr>proc_dir := remove1 n (proc_dir v)\<rparr>))
        else Inr v) (\<lambda>v.
     run_bind (free_string (proc_file_name v) v) (\<lambda>v.
     free_string (data_to_expose v) v))"

section \<open>The life of the entry\<close>

definition strings_ok :: "proc_vars \<Rightarrow> bool" where
  "strings_ok v \<longleftrightarrow> (\<forall>a \<ge> next_string v. fmlookup (strings v) a = None)"

text \<open>The entry shows data under name; nothing else was in the heap before.\<close>

definition entry_shown :: "string \<Rightarrow> string \<Rightarrow> proc_vars \<Rightarrow> proc_vars \<Rightarrow> bool" where
  "entry_shown name data v v' \<longleftrightarrow>
     proc_entry v' \<and> proc_dir v' = name # proc_dir v \<and> proc_file_name v' = Some (next_string v) \<and>
     data_to_expose v' = Some (Suc (next_string v)) \<and>
     strings v' = fmupd (Suc (next_string v)) (data @ [NUL]) (fmupd (next_string v) (name @ [NUL]) (strings v)) \<and>
     next_string v' = Suc (Suc (next_string v))"

lemma init_entry_shown:
  assumes "\<not> proc_entry v" "NUL \<notin> set name" "NUL \<notin> set data"
  shows "\<exists>v'. init_carbonite_proc_entry True True True name data v = Inr (1, v') \<and> entry_shown name data v v'"
  using assms
  by (simp add: init_carbonite_proc_entry_def copy_string_def string_at_def entry_shown_def Let_def cstr_append)

text \<open>Whichever allocation fails, nothing appears under /proc, and the caller is told.\<close>

lemma init_entry_refused:
  assumes "\<not> proc_entry v" "\<not> (name_ok \<and> data_ok \<and> create_ok)"
  shows "\<exists>v'. init_carbonite_proc_entry name_ok data_ok create_ok name data v = Inr (0, v') \<and>
    \<not> proc_entry v' \<and> proc_dir v' = proc_dir v"
  using assms by (auto simp: init_carbonite_proc_entry_def copy_string_def string_at_def Let_def)

lemma read_entry:
  assumes "entry_shown name data v v'" "NUL \<notin> set data"
  shows "carbonite_procfile_read v' offset = Inr (if 0 < offset then [] else data)"
  using assms by (simp add: carbonite_procfile_read_def string_at_def entry_shown_def cstr_append)

text \<open>The text of a reader that cannot fault.\<close>

definition shown_text :: "string run \<Rightarrow> string" where
  "shown_text r = (case r of Inl e \<Rightarrow> [] | Inr t \<Rightarrow> t)"

text \<open>The state after the entry was created.\<close>

definition entry_after :: "string \<Rightarrow> string \<Rightarrow> proc_vars \<Rightarrow> proc_vars" where
  "entry_after name data v =
     (case init_carbonite_proc_entry True True True name data (v\<lparr>proc_entry := False\<rparr>) of
        Inl e \<Rightarrow> v | Inr (n, v') \<Rightarrow> v')"

lemma cstr_copy: "cstr (cstr b @ [NUL]) = cstr b"
  using cstr_append [OF cstr_no_nul, of b "[NUL]"] by simp

interpretation carbonite_proc: proc_reader
  "\<lambda>offset. shown_text (carbonite_procfile_read (entry_after name data v) offset)" "cstr data" for name data v
  by unfold_locales
    (simp_all add: shown_text_def carbonite_procfile_read_def entry_after_def init_carbonite_proc_entry_def
      copy_string_def string_at_def Let_def cstr_copy)

lemma cat_entry:
  "cat_file (\<lambda>offset. shown_text (carbonite_procfile_read (entry_after name data v) offset)) (Suc (Suc n)) 0 = cstr data"
  by (rule carbonite_proc.cat_whole)

lemma destroy_entry_once:
  assumes "entry_shown name data v v'" "strings_ok v" "NUL \<notin> set name" "NUL \<notin> set data"
  shows "\<exists>v''. destroy_proc_entry v' = Inr v'' \<and> proc_dir v'' = proc_dir v \<and> strings v'' = strings v \<and>
    proc_entry v'' \<and> proc_file_name v'' = proc_file_name v' \<and> next_string v'' = next_string v'"
proof -
  have "fmdrop (Suc (next_string v)) (fmdrop (next_string v) (strings v')) = strings v"
    using assms(1,2) by (intro fmap_ext) (auto simp: entry_shown_def strings_ok_def)
  then show ?thesis
    using assms by (simp add: destroy_proc_entry_def string_at_def free_string_def entry_shown_def cstr_append)
qed

text \<open>The pointers are not reset, so that a second destruction reads the name that was freed.\<close>

lemma destroy_entry_twice:
  assumes "entry_shown name data v v'" "strings_ok v" "NUL \<notin> set name" "NUL \<notin> set data"
  shows "\<exists>v''. destroy_proc_entry v' = Inr v'' \<and> destroy_proc_entry v'' = Inl Use_after_free"
proof -
  obtain v'' where "destroy_proc_entry v' = Inr v''" "strings v'' = strings v" "proc_entry v''"
    "proc_file_name v'' = proc_file_name v'"
    using destroy_entry_once [OF assms] by blast
  then show ?thesis
    using assms(1,2) by (simp add: entry_shown_def strings_ok_def destroy_proc_entry_def string_at_def)
qed

end
