(* ===== verification/Command_Chrdev.thy ===== *)
theory Command_Chrdev imports Seq_File Proc_Entry begin

text \<open>
  The character device that commands carbonite (command-chrdev.c): its ioctl handler, and the
  registration, which builds the names of the device and of a proc entry for its major number in
  static buffers. The record extends the one of the snapshots, so that the command that the device
  runs may change them. The pointer to the command is the flag whether it is set; what it points to
  is an argument of the handler.
\<close>

definition MODULE_NAME_LEN :: nat where "MODULE_NAME_LEN = 56"
definition EPERM :: int where "EPERM = 1"
definition ENOTTY :: int where "ENOTTY = 25"

text \<open>_IO('c', 0).\<close>

definition IOCTL_CARBONITE_COMMAND :: nat where "IOCTL_CARBONITE_COMMAND = 256 * of_char (CHR ''c'')"

definition ON_DEMAND :: int where "ON_DEMAND = 0"

record chrdev_state = dump_state +
  proc :: proc_vars
  command_major :: int
  commanding_module :: "char list"
  chrdev_name :: "char list"
  proc_name_buffer :: "char list"
  command :: bool
  chrdevs :: "(int \<times> string) list"

section \<open>The ioctl\<close>

definition command_ioctl ::
  "(int \<Rightarrow> 'a chrdev_state_scheme \<Rightarrow> 'a chrdev_state_scheme run) \<Rightarrow> bool \<Rightarrow> nat \<Rightarrow> 'a chrdev_state_scheme \<Rightarrow>
   (int \<times> 'a chrdev_state_scheme) run" where
  "command_ioctl run capable ioctl_num s =
     (if ioctl_num = IOCTL_CARBONITE_COMMAND then
        if \<not> capable then Inr (- EPERM, s)
        else
          run_bind (if command s then run ON_DEMAND s else Inr s) (\<lambda>s. Inr (0, s))
      else
        run_bind (read_string (commanding_module s)) (\<lambda>n.
        Inr (- ENOTTY, printk (n @ '':'' @ CHR 0x09 # ''[-] Invalid ioctl command'' @ [CHR 0x0A]) s)))"

section \<open>The registration\<close>

definition chrdev_line :: "string \<Rightarrow> string \<Rightarrow> string" where
  "chrdev_line n txt = n @ '':'' @ CHR 0x09 # txt @ [CHR 0x0A]"

text \<open>The name of the device: the prefix, then strncat of the module's name.\<close>

definition build_chrdev_name :: "'a chrdev_state_scheme \<Rightarrow> 'a chrdev_state_scheme run" where
  "build_chrdev_name s =
     run_bind (blit (chrdev_name s) 0 (strncpy ''command-'' 9)) (\<lambda>b.
     run_bind (blit b 8 (take MODULE_NAME_LEN (cstr (commanding_module s)) @ [NUL])) (\<lambda>b.
     Inr (s\<lparr>chrdev_name := b\<rparr>)))"

text \<open>The two sprintf of the names that the proc entry gets.\<close>

definition build_proc_name :: "'a chrdev_state_scheme \<Rightarrow> (string \<times> 'a chrdev_state_scheme) run" where
  "build_proc_name s =
     run_bind (read_string (chrdev_name s)) (\<lambda>n.
     run_bind (blit (proc_name_buffer s) 0 (n @ ''-major'' @ [NUL])) (\<lambda>b.
     let major_number_string = fmt_d (command_major s) in
     if 10 \<le> length major_number_string then Inl Write_out_of_bounds
     else Inr (major_number_string, s\<lparr>proc_name_buffer := b\<rparr>)))"

definition clear_first :: "char list \<Rightarrow> char list" where
  "clear_first b = b[0 := NUL]"

definition destroy_command_chrdev :: "'a chrdev_state_scheme \<Rightarrow> 'a chrdev_state_scheme run" where
  "destroy_command_chrdev s =
     run_bind (destroy_proc_entry (proc s)) (\<lambda>p.
     run_bind (read_string (chrdev_name s)) (\<lambda>n.
     Inr (s\<lparr>proc := p, chrdevs := remove1 (command_major s, n) (chrdevs s), command := False, command_major := 0,
            commanding_module := clear_first (commanding_module s), chrdev_name := clear_first (chrdev_name s)\<rparr>)))"

definition register_proc_entry ::
  "bool \<Rightarrow> bool \<Rightarrow> bool \<Rightarrow> string \<Rightarrow> 'a chrdev_state_scheme \<Rightarrow> (int \<times> 'a chrdev_state_scheme) run" where
  "register_proc_entry name_ok data_ok create_ok major_number_string s =
     run_bind (init_carbonite_proc_entry name_ok data_ok create_ok (proc_name_buffer s) major_number_string (proc s))
       (\<lambda>(ret, p).
     let s = s\<lparr>proc := p\<rparr> in
     run_bind (read_string (commanding_module s)) (\<lambda>n.
     if ret = 0 then
       run_bind (destroy_command_chrdev (printk (chrdev_line n ''[-] Failed to create proc fs entry'') s)) (\<lambda>s.
       Inr (0, s))
     else
       run_bind (read_string (chrdev_name s)) (\<lambda>d.
       let m = fmt_d (command_major s);
           s = printk (chrdev_line n (''[+] Registered successfully character device '' @ d @ '' and major number '' @ m)) s;
           s = printk (chrdev_line n (''[+] Create the file node by executing `mknod /dev/'' @ d @ '' c '' @ m @ '' 0`'')) s
       in Inr (1, s))))"

text \<open>major is what register_chrdev answers; function tells whether the command is not NULL.\<close>

definition init_command_chrdev ::
  "int \<Rightarrow> bool \<Rightarrow> bool \<Rightarrow> bool \<Rightarrow> string option \<Rightarrow> bool \<Rightarrow> 'a chrdev_state_scheme \<Rightarrow>
   (int \<times> 'a chrdev_state_scheme) run" where
  "init_command_chrdev major name_ok data_ok create_ok module_name function s =
     (case module_name of
        None \<Rightarrow> Inr (0, printk (''init_char_dev:'' @ CHR 0x09 # ''[-] NULL module name passed as argument'' @ [CHR 0x0A]) s)
      | Some name \<Rightarrow>
          let s = s\<lparr>commanding_module := strncpy name MODULE_NAME_LEN\<rparr> in
          if \<not> function then
            run_bind (read_string (commanding_module s)) (\<lambda>n.
            Inr (0, printk (chrdev_line n ''[-] NULL function pointer passed as argument'') s))
          else
            run_bind (build_chrdev_name (s\<lparr>command := True\<rparr>)) (\<lambda>s.
            let s = s\<lparr>command_major := major\<rparr> in
            if major < 0 then
              run_bind (read_string (commanding_module s)) (\<lambda>n.
              Inr (0, printk (chrdev_line n
                (''[-] Failed to initialize file operations with major number '' @ fmt_d major)) s))
            else
              run_bind (read_string (chrdev_name s)) (\<lambda>n.
              run_bind (build_proc_name (s\<lparr>chrdevs := (major, n) # chrdevs s\<rparr>)) (\<lambda>(m, s).
              register_proc_entry name_ok data_ok create_ok m s))))"

section \<open>The buffers\<close>

definition chrdev_buffers :: "'a chrdev_state_scheme \<Rightarrow> bool" where
  "chrdev_buffers s \<longleftrightarrow> length (chrdev_name s) = MODULE_NAME_LEN + 8 \<and>
     length (proc_name_buffer s) = MODULE_NAME_LEN + 8 + 6"

definition device_name :: "string \<Rightarrow> string" where
  "device_name name = ''command-'' @ cstr name"

lemma cstr_of_parts: "NUL \<notin> set x \<Longrightarrow> cstr (x @ NUL # z) = x"
  by (simp add: cstr_append)

lemma read_string_of_parts: "NUL \<notin> set x \<Longrightarrow> read_string (x @ NUL # z) = Inr x"
  by (simp add: read_string_def cstr_of_parts)

lemma strncpy_short: "length (cstr name) < n \<Longrightarrow> strncpy name n = cstr name @ NUL # replicate (n - Suc (length (cstr name))) NUL"
proof -
  assume a: "length (cstr name) < n"
  then obtain k where "n = length (cstr name) + Suc k" by (metis less_imp_Suc_add add_Suc_right)
  then show ?thesis by (simp add: strncpy_def)
qed

lemma build_chrdev_name_run:
  assumes "chrdev_buffers s" "commanding_module s = strncpy name MODULE_NAME_LEN"
  shows "if length (cstr name) < MODULE_NAME_LEN
    then \<exists>z. build_chrdev_name s = Inr (s\<lparr>chrdev_name := device_name name @ NUL # z\<rparr>) \<and>
      length (device_name name @ NUL # z) = MODULE_NAME_LEN + 8
    else build_chrdev_name s = Inl Write_out_of_bounds"
proof -
  define b where "b = take 0 (chrdev_name s) @ strncpy ''command-'' 9 @ drop 9 (chrdev_name s)"
  have pre: "strncpy ''command-'' 9 = ''command-'' @ [NUL]" by (simp add: strncpy_def)
  have len: "length (chrdev_name s) = 64" using assms(1) by (simp add: chrdev_buffers_def MODULE_NAME_LEN_def)
  have first: "blit (chrdev_name s) 0 (strncpy ''command-'' 9) = Inr b"
    using len by (simp add: blit_def b_def)
  have b: "length b = 64" "take 8 b = ''command-''"
    using len by (simp_all add: b_def pre)
  have c: "cstr (strncpy name MODULE_NAME_LEN) = take MODULE_NAME_LEN (cstr name)" by (rule cstr_strncpy)
  show ?thesis
  proof (cases "length (cstr name) < MODULE_NAME_LEN")
    case True
    then have "build_chrdev_name s =
        Inr (s\<lparr>chrdev_name := device_name name @ NUL # drop (8 + Suc (length (cstr name))) b\<rparr>)"
      using first b assms(2)
      by (simp add: build_chrdev_name_def c [unfolded MODULE_NAME_LEN_def] blit_def device_name_def MODULE_NAME_LEN_def)
    moreover have "length (device_name name @ NUL # drop (8 + Suc (length (cstr name))) b) = MODULE_NAME_LEN + 8"
      using True b(1) by (simp add: device_name_def MODULE_NAME_LEN_def)
    ultimately show ?thesis using True by auto
  next
    case False
    then have "blit b 8 (take MODULE_NAME_LEN (cstr name) @ [NUL]) = Inl Write_out_of_bounds"
      using b(1) by (simp add: blit_def MODULE_NAME_LEN_def)
    then show ?thesis
      using False first assms(2) by (simp add: build_chrdev_name_def c)
  qed
qed

lemma device_name_no_nul: "NUL \<notin> set (device_name name)"
  using cstr_no_nul [of name] by (simp add: device_name_def)

lemma build_proc_name_run:
  assumes "chrdev_buffers s" "length (cstr name) < MODULE_NAME_LEN"
    and "chrdev_name s = device_name name @ NUL # z" "length (fmt_d (command_major s)) < 10"
  shows "\<exists>z'. build_proc_name s =
    Inr (fmt_d (command_major s), s\<lparr>proc_name_buffer := (device_name name @ ''-major'') @ NUL # z'\<rparr>) \<and>
    length ((device_name name @ ''-major'') @ NUL # z') = MODULE_NAME_LEN + 8 + 6"
proof -
  define x where "x = device_name name @ ''-major'' @ [NUL]"
  define b where "b = proc_name_buffer s"
  have l: "length x \<le> length b" "length b = MODULE_NAME_LEN + 8 + 6"
    using assms(1,2) by (simp_all add: x_def b_def chrdev_buffers_def device_name_def)
  then have "blit b 0 x = Inr (x @ drop (length x) b)" by (simp add: blit_def)
  then have "build_proc_name s =
      Inr (fmt_d (command_major s), s\<lparr>proc_name_buffer := (device_name name @ ''-major'') @ NUL # drop (length x) b\<rparr>)"
    using assms(3,4) read_string_of_parts [OF device_name_no_nul, of name z]
    by (simp add: build_proc_name_def b_def [symmetric] x_def)
  moreover have "length ((device_name name @ ''-major'') @ NUL # drop (length x) b) = MODULE_NAME_LEN + 8 + 6"
    using l by (simp add: x_def)
  ultimately show ?thesis by blast
qed

text \<open>The device is registered and its major number is shown by the proc entry.\<close>

definition device_ready :: "string \<Rightarrow> int \<Rightarrow> 'a chrdev_state_scheme \<Rightarrow> 'a chrdev_state_scheme \<Rightarrow> bool" where
  "device_ready name major s s' \<longleftrightarrow>
     command s' \<and> command_major s' = major \<and> cstr (commanding_module s') = cstr name \<and>
     NUL \<in> set (commanding_module s') \<and>
     chrdevs s' = (major, device_name name) # chrdevs s \<and>
     cstr (chrdev_name s') = device_name name \<and> NUL \<in> set (chrdev_name s') \<and>
     entry_shown (device_name name @ ''-major'') (fmt_d major) (proc s) (proc s') \<and>
     carbonite_procfile_read (proc s') 0 = Inr (fmt_d major) \<and>
     dump_state.truncate s' = (dump_state.truncate s)\<lparr>klog := klog s'\<rparr> \<and>
     chrdev_state.more s' = chrdev_state.more s"

lemma init_entry_buffer:
  "NUL \<notin> set name \<Longrightarrow>
   init_carbonite_proc_entry n d c (name @ NUL # z) data v = init_carbonite_proc_entry n d c name data v"
  by (simp add: init_carbonite_proc_entry_def copy_string_def cstr_of_parts)

lemma registration_run:
  assumes "chrdev_buffers s" "\<not> proc_entry (proc s)" "0 \<le> major" "major < 10 ^ 9"
  shows "if length (cstr name) < MODULE_NAME_LEN
    then \<exists>s'. init_command_chrdev major True True True (Some name) True s = Inr (1, s') \<and> device_ready name major s s'
    else init_command_chrdev major n d c (Some name) True s = Inl Write_out_of_bounds"
proof -
  define s0 where "s0 = s\<lparr>commanding_module := strncpy name MODULE_NAME_LEN, command := True\<rparr>"
  have s0: "chrdev_buffers s0" "commanding_module s0 = strncpy name MODULE_NAME_LEN"
    using assms(1) by (simp_all add: s0_def chrdev_buffers_def)
  show ?thesis
  proof (cases "length (cstr name) < MODULE_NAME_LEN")
    case False
    then show ?thesis
      using build_chrdev_name_run [OF s0] by (simp add: init_command_chrdev_def s0_def Let_def)
  next
    case True
    obtain z where z: "build_chrdev_name s0 = Inr (s0\<lparr>chrdev_name := device_name name @ NUL # z\<rparr>)"
      "length (device_name name @ NUL # z) = MODULE_NAME_LEN + 8"
      using build_chrdev_name_run [OF s0] True by auto
    define s1 where "s1 = s0\<lparr>chrdev_name := device_name name @ NUL # z, command_major := major,
        chrdevs := (major, device_name name) # chrdevs s\<rparr>"
    have digits: "length (fmt_d (command_major s1)) < 10"
      using dec_string_length [of "nat major" 9] assms(3,4) by (simp add: s1_def fmt_d_def nat_less_iff)
    have "chrdev_buffers s1" "chrdev_name s1 = device_name name @ NUL # z"
      using s0(1) z(2) by (simp_all add: s1_def chrdev_buffers_def)
    from build_proc_name_run [OF this(1) True this(2) digits] obtain z' where z':
      "build_proc_name s1 = Inr (fmt_d major, s1\<lparr>proc_name_buffer := (device_name name @ ''-major'') @ NUL # z'\<rparr>)"
      by (auto simp: s1_def)
    define s2 where "s2 = s1\<lparr>proc_name_buffer := (device_name name @ ''-major'') @ NUL # z'\<rparr>"
    have nul: "NUL \<notin> set (device_name name @ ''-major'')" "NUL \<notin> set (fmt_d major)"
      using device_name_no_nul assms(3) dec_string_no_nul by (simp_all add: fmt_d_def)
    obtain v where v: "init_carbonite_proc_entry True True True (device_name name @ ''-major'') (fmt_d major) (proc s) = Inr (1, v)"
      "entry_shown (device_name name @ ''-major'') (fmt_d major) (proc s) v"
      using init_entry_shown [OF assms(2) nul] by blast
    have cm: "read_string (strncpy name MODULE_NAME_LEN) = Inr (cstr name)"
      using True by (simp add: strncpy_short read_string_of_parts)
    have "init_command_chrdev major True True True (Some name) True s =
        register_proc_entry True True True (fmt_d major) s2"
      using z(1) z' assms(3) read_string_of_parts [OF device_name_no_nul, of name z]
      by (simp add: init_command_chrdev_def s0_def s1_def s2_def)
    moreover have f: "proc s2 = proc s" "commanding_module s2 = strncpy name MODULE_NAME_LEN"
      "chrdev_name s2 = device_name name @ NUL # z" "command_major s2 = major" "command s2"
      "chrdevs s2 = (major, device_name name) # chrdevs s" "dump_state.truncate s2 = dump_state.truncate s"
      "chrdev_state.more s2 = chrdev_state.more s"
      by (simp_all add: s2_def s1_def s0_def dump_state.defs)
    have init: "init_carbonite_proc_entry True True True (proc_name_buffer s2) (fmt_d major) (proc s2) = Inr (1, v)"
      using v(1) init_entry_buffer [OF nul(1)] by (simp add: s2_def f(1) del: append_assoc) (simp add: s1_def s0_def)
    obtain x y where reg: "register_proc_entry True True True (fmt_d major) s2 = Inr (1, printk x (printk y (s2\<lparr>proc := v\<rparr>)))"
      using init cm f read_string_of_parts [OF device_name_no_nul, of name z]
      by (simp add: register_proc_entry_def Let_def)
    have "device_ready name major s (printk x (printk y (s2\<lparr>proc := v\<rparr>)))"
      using f read_entry [OF v(2) nul(2), of 0] v(2) strncpy_terminated [OF True] cstr_of_parts [OF device_name_no_nul, of name z]
      by (simp add: device_ready_def printk_def dump_state.defs)
    with reg have "\<exists>s'. register_proc_entry True True True (fmt_d major) s2 = Inr (1, s') \<and> device_ready name major s s'"
      by blast
    ultimately show ?thesis using True by simp
  qed
qed

text \<open>
  C28: With a module name of at most 55 characters the registration stays inside its static buffers
  and of the 10 bytes for the major number, and if the kernel grants everything the device is
  registered as command-<name> with its major number readable in /proc/command-<name>-major. With a
  longer name strncat, which adds a NUL behind what it copied, writes one byte past the end of the
  device's name.
\<close>

theorem device_registration:
  assumes "chrdev_buffers s" "\<not> proc_entry (proc s)" "0 \<le> major" "major < 10 ^ 9"
  shows "if length (cstr name) < MODULE_NAME_LEN
    then \<exists>s'. init_command_chrdev major True True True (Some name) True s = Inr (1, s') \<and> device_ready name major s s'
    else init_command_chrdev major n d c (Some name) True s = Inl Write_out_of_bounds"
  using assms by (rule registration_run)

definition empty_proc :: proc_vars where
  "empty_proc = \<lparr>strings = fmempty, next_string = 1, proc_file_name = None, data_to_expose = None,
     proc_entry = False, proc_dir = []\<rparr>"

definition example_chrdev :: chrdev_state where
  "example_chrdev = dump_state.extend (example_dumps example_dump)
     (chrdev_state.fields empty_proc 0 (replicate MODULE_NAME_LEN NUL) (replicate (MODULE_NAME_LEN + 8) NUL)
       (replicate (MODULE_NAME_LEN + 8 + 6) NUL) False [])"

theorem device_registration_witness:
  "\<exists>s'. init_command_chrdev 250 True True True (Some CARBONITE_NAME) True example_chrdev = Inr (1, s') \<and>
     device_ready CARBONITE_NAME 250 example_chrdev s'"
proof -
  have "chrdev_buffers example_chrdev" "\<not> proc_entry (proc example_chrdev)"
    by (simp_all add: example_chrdev_def chrdev_buffers_def chrdev_state.defs dump_state.defs empty_proc_def)
  moreover have "length (cstr CARBONITE_NAME) < MODULE_NAME_LEN"
    by (simp add: CARBONITE_NAME_def MODULE_NAME_LEN_def)
  ultimately show ?thesis
    using device_registration [of example_chrdev 250 CARBONITE_NAME] by simp
qed

end
