(* ===== verification/Super_Fast_Hash.thy ===== *)
theory Super_Fast_Hash imports Kernel_Base begin

text \<open>
  The hash that carbonite takes of the system call table (super-fast-hash.c): the byte loop as the
  code has it, over the bytes of the object data points to, and a specification on the 16 bit
  halves of the input. char is signed, so the tail bytes are sign extended.
\<close>

definition byte_word :: "char \<Rightarrow> 32 word" where
  "byte_word c = of_char c"

definition get16bits :: "char list \<Rightarrow> nat \<Rightarrow> 32 word run" where
  "get16bits d p =
     run_bind (load d (p + 1)) (\<lambda>hi. run_bind (load d p) (\<lambda>lo.
     Inr (push_bit 8 (byte_word hi) + byte_word lo)))"

text \<open>The main loop: n chunks of four bytes are left, data points to p.\<close>

fun hash_loop :: "char list \<Rightarrow> nat \<Rightarrow> nat \<Rightarrow> 32 word \<Rightarrow> (nat \<times> 32 word) run" where
  "hash_loop d p 0 hash = Inr (p, hash)"
| "hash_loop d p (Suc n) hash =
     run_bind (get16bits d p) (\<lambda>x.
     run_bind (get16bits d (p + 2)) (\<lambda>y.
     let hash = hash + x;
         tmp = push_bit 11 y XOR hash;
         hash = push_bit 16 hash XOR tmp;
         hash = hash + drop_bit 11 hash
     in hash_loop d (p + 4) n hash))"

definition hash_tail :: "char list \<Rightarrow> nat \<Rightarrow> nat \<Rightarrow> 32 word \<Rightarrow> 32 word run" where
  "hash_tail d p rem hash =
     (if rem = 3
      then run_bind (get16bits d p) (\<lambda>x. run_bind (load d (p + 2)) (\<lambda>c.
             let hash = hash + x;
                 hash = hash XOR push_bit 16 hash;
                 hash = hash XOR push_bit 18 (word_of_int (schar c));
                 hash = hash + drop_bit 11 hash
             in Inr hash))
      else if rem = 2
      then run_bind (get16bits d p) (\<lambda>x.
             let hash = hash + x;
                 hash = hash XOR push_bit 11 hash;
                 hash = hash + drop_bit 17 hash
             in Inr hash)
      else if rem = 1
      then run_bind (load d p) (\<lambda>c.
             let hash = hash + word_of_int (schar c);
                 hash = hash XOR push_bit 10 hash;
                 hash = hash + drop_bit 1 hash
             in Inr hash)
      else Inr hash)"

definition avalanche :: "32 word \<Rightarrow> 32 word" where
  "avalanche hash =
     (let hash = hash XOR push_bit 3 hash;
          hash = hash + drop_bit 5 hash;
          hash = hash XOR push_bit 4 hash;
          hash = hash + drop_bit 17 hash;
          hash = hash XOR push_bit 25 hash;
          hash = hash + drop_bit 6 hash
      in hash)"

definition super_fast_hash :: "char list option \<Rightarrow> 32 word \<Rightarrow> 32 word run" where
  "super_fast_hash data len =
     (if len = 0 then Inr 0
      else case data of
             None \<Rightarrow> Inr 0
           | Some d \<Rightarrow>
               run_bind (hash_loop d 0 (unat (drop_bit 2 len)) len) (\<lambda>(p, hash).
               run_bind (hash_tail d p (unat (len AND 3)) hash) (\<lambda>hash.
               Inr (avalanche hash))))"

section \<open>The hash of a sequence of bytes\<close>

definition half :: "char \<Rightarrow> char \<Rightarrow> 32 word" where
  "half lo hi = push_bit 8 (byte_word hi) + byte_word lo"

definition mix :: "32 word \<Rightarrow> 32 word \<Rightarrow> 32 word \<Rightarrow> 32 word" where
  "mix h x y = (let g = push_bit 16 (h + x) XOR (push_bit 11 y XOR (h + x)) in g + drop_bit 11 g)"

fun hash_chunks :: "32 word \<Rightarrow> string \<Rightarrow> 32 word" where
  "hash_chunks h (a # b # c # d # r) = hash_chunks (mix h (half a b) (half c d)) r"
| "hash_chunks h [a, b, c] =
     (let g = h + half a b; g = g XOR push_bit 16 g; g = g XOR push_bit 18 (word_of_int (schar c))
      in g + drop_bit 11 g)"
| "hash_chunks h [a, b] = (let g = h + half a b; g = g XOR push_bit 11 g in g + drop_bit 17 g)"
| "hash_chunks h [a] = (let g = h + word_of_int (schar a); g = g XOR push_bit 10 g in g + drop_bit 1 g)"
| "hash_chunks h [] = h"

definition hash_spec :: "string \<Rightarrow> 32 word" where
  "hash_spec s = (if s = [] then 0 else avalanche (hash_chunks (word_of_nat (length s)) s))"

lemma get16bits_in: "get16bits (pre @ a # b # r) (length pre) = Inr (half a b)"
  by (simp add: get16bits_def half_def load_def nth_append)

lemma get16bits_in2: "get16bits (pre @ a # b # c # d # r) (Suc (Suc (length pre))) = Inr (half c d)"
  using get16bits_in [of "pre @ [a, b]" c d r] by simp

lemma hash_loop_Suc:
  "hash_loop d p (Suc n) h =
   run_bind (get16bits d p) (\<lambda>x. run_bind (get16bits d (p + 2)) (\<lambda>y.
     hash_loop d (p + 4) n (mix h x y)))"
  by (simp add: mix_def Let_def)

declare hash_loop.simps(2) [simp del]

lemma hash_loop_chunk:
  "hash_loop (pre @ a # b # c # d # r) (length pre) (Suc n) h =
   hash_loop (pre @ a # b # c # d # r) (length (pre @ [a, b, c, d])) n (mix h (half a b) (half c d))"
  by (simp add: hash_loop_Suc get16bits_in get16bits_in2) (simp add: numeral_eq_Suc)

lemma hash_loop_tail:
  "run_bind (hash_loop (pre @ s @ post) (length pre) (length s div 4) h)
     (\<lambda>(p, h). hash_tail (pre @ s @ post) p (length s mod 4) h) = Inr (hash_chunks h s)"
proof (induction h s arbitrary: pre rule: hash_chunks.induct)
  case (1 h a b c d r)
  have step: "length (a # b # c # d # r) div 4 = Suc (length r div 4)"
    "length (a # b # c # d # r) mod 4 = length r mod 4" by simp_all
  have "pre @ (a # b # c # d # r) @ post = pre @ a # b # c # d # (r @ post)" by simp
  then show ?case
    using 1 [of "pre @ [a, b, c, d]"] unfolding step
    by (simp only: hash_loop_chunk hash_chunks.simps append.simps append_assoc)
next
  case (2 h a b c)
  have "load (pre @ [a, b, c] @ post) (length pre + 2) = Inr c"
    by (simp add: load_def nth_append)
  then show ?case by (simp add: hash_tail_def get16bits_in Let_def)
qed (simp_all add: hash_tail_def get16bits_in Let_def load_def nth_append)

lemma word_count:
  "unat (drop_bit 2 (len :: 32 word)) = unat len div 4" "unat (len AND 3) = unat len mod 4"
proof -
  show "unat (drop_bit 2 len) = unat len div 4"
    by (simp add: drop_bit_eq_div unat_div)
  have "len AND 3 = take_bit 2 len"
    by (simp add: take_bit_eq_mask mask_eq_exp_minus_1)
  then show "unat (len AND 3) = unat len mod 4"
    by (simp add: take_bit_eq_mod unat_mod)
qed

lemma super_fast_hash_in_bounds:
  assumes "unat len \<le> length d"
  shows "super_fast_hash (Some d) len = Inr (hash_spec (take (unat len) d))"
proof (cases "len = 0")
  case True
  then show ?thesis by (simp add: super_fast_hash_def hash_spec_def)
next
  case False
  then have n: "0 < unat len" by (simp add: unat_gt_0)
  define s where "s = take (unat len) d"
  have s: "length s = unat len" "d = s @ drop (unat len) d" using assms by (simp_all add: s_def)
  have "super_fast_hash (Some d) len = run_bind (run_bind (hash_loop d 0 (length s div 4) len)
      (\<lambda>(p, h). hash_tail d p (length s mod 4) h)) (\<lambda>h. Inr (avalanche h))"
    using False by (simp add: super_fast_hash_def word_count s(1) run_bind_assoc split_def)
  also have "run_bind (hash_loop d 0 (length s div 4) len) (\<lambda>(p, h). hash_tail d p (length s mod 4) h) =
      Inr (hash_chunks len s)"
    using hash_loop_tail [of "[]" s "drop (unat len) d" len] s(2) by simp
  finally show ?thesis using n s(1) by (auto simp: hash_spec_def s_def)
qed

section \<open>Reading past the end\<close>

lemma get16bits_out: "length d \<le> p + 1 \<Longrightarrow> get16bits d p = Inl Read_out_of_bounds"
  by (simp add: get16bits_def load_def)

lemma hash_loop_position: "hash_loop d p n h = Inr (q, g) \<Longrightarrow> q = p + 4 * n"
proof (induction n arbitrary: p h)
  case (Suc n)
  then obtain x y where "hash_loop d (p + 4) n (mix h x y) = Inr (q, g)"
    by (auto simp: hash_loop_Suc run_bind_eq_Inr)
  from Suc.IH [OF this] show ?case by simp
qed simp

lemma get16bits_fault: "get16bits d p = Inl e \<Longrightarrow> e = Read_out_of_bounds"
  by (auto simp: get16bits_def load_def split: if_splits)

lemma hash_loop_fault: "hash_loop d p n h = Inl e \<Longrightarrow> e = Read_out_of_bounds"
proof (induction n arbitrary: p h)
  case (Suc n)
  then show ?case by (auto simp: hash_loop_Suc run_bind_eq_Inl dest: get16bits_fault)
qed simp

lemma hash_loop_out:
  "p \<le> length d \<Longrightarrow> length d < p + 4 * n \<Longrightarrow> hash_loop d p n h = Inl Read_out_of_bounds"
proof (induction n arbitrary: p h)
  case (Suc n)
  show ?case
  proof (cases "p + 4 \<le> length d")
    case True
    with Suc show ?thesis by (simp add: hash_loop_Suc get16bits_def load_def)
  next
    case False
    then show ?thesis by (auto simp: hash_loop_Suc get16bits_def load_def)
  qed
qed simp

lemma hash_tail_out:
  "rem < 4 \<Longrightarrow> p \<le> length d \<Longrightarrow> length d < p + rem \<Longrightarrow> hash_tail d p rem h = Inl Read_out_of_bounds"
  by (auto simp: hash_tail_def get16bits_def load_def Let_def)

lemma super_fast_hash_out:
  assumes "length d < unat len"
  shows "super_fast_hash (Some d) len = Inl Read_out_of_bounds"
proof -
  have len: "len \<noteq> 0" using assms by auto
  show ?thesis
  proof (cases "hash_loop d 0 (unat len div 4) len")
    case (Inl e)
    then have "e = Read_out_of_bounds" by (rule hash_loop_fault)
    with Inl len show ?thesis by (simp add: super_fast_hash_def word_count)
  next
    case (Inr r)
    obtain p h where r: "r = (p, h)" by (cases r)
    with Inr have p: "p = 4 * (unat len div 4)" using hash_loop_position by fastforce
    have "p \<le> length d"
      using hash_loop_out [of 0 d "unat len div 4" len] Inr p by (cases "p \<le> length d") auto
    moreover have "length d < p + unat len mod 4" using assms p by simp
    ultimately have "hash_tail d p (unat len mod 4) h = Inl Read_out_of_bounds"
      by (intro hash_tail_out) simp_all
    with Inr r len show ?thesis by (simp add: super_fast_hash_def word_count)
  qed
qed

section \<open>The properties of the hash\<close>

text \<open>
  C26: super_fast_hash computes the hash of exactly the first len bytes of its input, chunk by chunk
  as the specification on 16 bit halves says, for every length and remainder; it reads no other
  byte, and reads out of bounds exactly when the input is shorter than len.
\<close>

theorem super_fast_hash_implements_spec:
  "super_fast_hash (Some d) len =
     (if unat len \<le> length d then Inr (hash_spec (take (unat len) d)) else Inl Read_out_of_bounds) \<and>
   super_fast_hash None len = Inr 0"
  by (simp add: super_fast_hash_in_bounds super_fast_hash_out) (simp add: super_fast_hash_def)

text \<open>The bytes of the addresses 0xffffffff81bbb400, in the kernel's text, and 0xffffffffa044aa20, of a module.\<close>

definition kernel_entry :: string where
  "kernel_entry = [CHR 0x00, CHR 0xB4, CHR 0xBB, CHR 0x81, CHR 0xFF, CHR 0xFF, CHR 0xFF, CHR 0xFF]"

definition module_entry :: string where
  "module_entry = [CHR 0x20, CHR 0xAA, CHR 0x44, CHR 0xA0, CHR 0xFF, CHR 0xFF, CHR 0xFF, CHR 0xFF]"

lemma entry_hashes: "hash_spec kernel_entry = 0x4d5f413d" "hash_spec module_entry = 0x4d5f413d"
  by code_simp+

lemma hash_collision_facts:
  "super_fast_hash (Some kernel_entry) 8 = Inr 0x4d5f413d" "super_fast_hash (Some module_entry) 8 = Inr 0x4d5f413d"
  "kernel_entry \<noteq> module_entry"
  using super_fast_hash_in_bounds [of 8 kernel_entry] super_fast_hash_in_bounds [of 8 module_entry] entry_hashes
  by (simp_all add: kernel_entry_def module_entry_def)

text \<open>
  The hash does not determine the bytes: a system call table entry that points into the kernel's
  text and one that points into the memory of modules have the same hash, so that replacing one by
  the other leaves the hash of a table of one entry as it was.
\<close>

theorem hash_collision:
  "super_fast_hash (Some kernel_entry) 8 = Inr 0x4d5f413d \<and>
   super_fast_hash (Some module_entry) 8 = Inr 0x4d5f413d \<and> kernel_entry \<noteq> module_entry"
  using hash_collision_facts by blast

end
