(* ===== verification/Kallsyms.thy ===== *)
theory Kallsyms imports Kernel_Base begin

text \<open>
  Finding kernel symbols (my-kallsyms.c): the callbacks that the kernel's kallsyms_on_each_symbol
  runs on every symbol, and the two searches built on them. The kernel's walk is a parameter; what
  the code relies on is the locale symbol_walk: the walk visits the symbols of the table in order
  and stops at the first callback that returns something else than 0.
\<close>

definition KSYM_NAME_LEN :: nat where "KSYM_NAME_LEN = 128"

type_synonym symbol = "string \<times> 64 word"

record symbol_search =
  target_address :: "64 word"
  return_next_symbol :: bool

type_synonym callback = "string \<Rightarrow> 64 word \<Rightarrow> symbol_search \<Rightarrow> int \<times> symbol_search"
type_synonym walk = "callback \<Rightarrow> symbol_search \<Rightarrow> symbol_search"

definition find_symbol :: "string \<Rightarrow> callback" where
  "find_symbol target_name name address s =
     (if strncmp target_name name KSYM_NAME_LEN = 0 then (1, s\<lparr>target_address := address\<rparr>)
      else (0, s))"

definition find_next :: "64 word \<Rightarrow> callback" where
  "find_next target name address s =
     (if target = address then (0, s\<lparr>return_next_symbol := True\<rparr>)
      else if return_next_symbol s then (1, s\<lparr>target_address := address\<rparr>)
      else (0, s))"

definition find_next_symbol :: "walk \<Rightarrow> 64 word \<Rightarrow> symbol_search \<Rightarrow> 64 word \<times> symbol_search" where
  "find_next_symbol kallsyms_on_each_symbol target_symbol s =
     (let s = s\<lparr>target_address := 0\<rparr>;
          s = s\<lparr>return_next_symbol := False\<rparr>;
          s = kallsyms_on_each_symbol (find_next target_symbol) s
      in (target_address s, s))"

text \<open>
  Before kernel 2.6.33 the lookup by name is a walk; later it is the kernel's own function.
\<close>

definition my_kallsyms_lookup_name ::
  "bool \<Rightarrow> walk \<Rightarrow> (string \<Rightarrow> 64 word) \<Rightarrow> string \<Rightarrow> symbol_search \<Rightarrow> 64 word \<times> symbol_search" where
  "my_kallsyms_lookup_name old_kernel kallsyms_on_each_symbol kallsyms_lookup_name name s =
     (if old_kernel
      then
        let s = s\<lparr>target_address := 0\<rparr>;
            s = kallsyms_on_each_symbol (find_symbol name) s
        in (target_address s, s)
      else (kallsyms_lookup_name name, s))"

section \<open>The walk over the symbol table\<close>

fun each_symbol :: "symbol list \<Rightarrow> walk" where
  "each_symbol [] f s = s"
| "each_symbol ((name, address) # syms) f s =
     (let (stop, s) = f name address s in if stop \<noteq> 0 then s else each_symbol syms f s)"

text \<open>The first address at which a name is found, and the first other address after an address.\<close>

definition address_of :: "symbol list \<Rightarrow> string \<Rightarrow> 64 word" where
  "address_of syms name =
     (case List.find (\<lambda>(n, a). take KSYM_NAME_LEN (cstr name) = take KSYM_NAME_LEN (cstr n)) syms of
        None \<Rightarrow> 0 | Some (n, a) \<Rightarrow> a)"

definition following :: "64 word list \<Rightarrow> 64 word \<Rightarrow> 64 word" where
  "following as a = (case dropWhile (\<lambda>b. b = a) (dropWhile (\<lambda>b. b \<noteq> a) as) of [] \<Rightarrow> 0 | b # _ \<Rightarrow> b)"

lemma each_symbol_find:
  "target_address s = 0 \<Longrightarrow> target_address (each_symbol syms (find_symbol name) s) = address_of syms name"
  by (induction syms) (auto simp: find_symbol_def address_of_def strncmp_eq_0)

lemma each_symbol_find_next:
  "target_address s = 0 \<Longrightarrow>
   target_address (each_symbol syms (find_next a) s) =
     (if return_next_symbol s
      then (case dropWhile (\<lambda>b. b = a) (map snd syms) of [] \<Rightarrow> 0 | b # _ \<Rightarrow> b)
      else following (map snd syms) a)"
  by (induction syms arbitrary: s) (auto simp: find_next_def following_def)

locale symbol_walk =
  fixes walk_symbols :: "callback \<Rightarrow> symbol_search \<Rightarrow> symbol_search"
    and syms :: "(string \<times> 64 word) list"
  assumes walk_order: "walk_symbols f s = each_symbol syms f s"
begin

lemma lookup_name:
  "fst (my_kallsyms_lookup_name True walk_symbols lk name s) = address_of syms name"
  by (simp add: my_kallsyms_lookup_name_def walk_order each_symbol_find Let_def)

lemma next_symbol: "fst (find_next_symbol walk_symbols a s) = following (map snd syms) a"
  by (simp add: find_next_symbol_def walk_order each_symbol_find_next Let_def)

end

interpretation table: symbol_walk "each_symbol syms" syms
  by unfold_locales simp

text \<open>In a table sorted by address, the search gives the least address above the symbol's.\<close>

lemma following_sorted:
  assumes "sorted as" "a \<in> set as"
  shows "following as a = (if \<exists>b \<in> set as. a < b then Min {b \<in> set as. a < b} else 0)"
proof -
  obtain pre post where as: "as = pre @ a # post" "a \<notin> set pre"
    using split_list_first [OF assms(2)] by auto
  define r where "r = dropWhile (\<lambda>b. b = a) post"
  have "dropWhile (\<lambda>b. b \<noteq> a) as = a # post" using as by (simp add: dropWhile_append)
  then have f: "following as a = (case r of [] \<Rightarrow> 0 | b # _ \<Rightarrow> b)"
    by (simp add: following_def r_def)
  have post: "sorted post" "\<forall>b \<in> set post. a \<le> b" "\<forall>b \<in> set pre. b \<le> a"
    using assms(1) as(1) by (auto simp: sorted_append)
  have "sorted r" unfolding r_def using post(1) by (rule sorted_dropWhile)
  have split: "post = takeWhile (\<lambda>b. b = a) post @ r" by (simp add: r_def)
  have above: "{b \<in> set as. a < b} = {b \<in> set r. a < b}"
  proof -
    have "{b \<in> set as. a < b} = {b \<in> set post. a < b}" using as(1) post(3) by auto
    also have "set post = set (takeWhile (\<lambda>b. b = a) post) \<union> set r"
      by (subst split) simp
    finally show ?thesis by (auto dest: set_takeWhileD)
  qed
  show ?thesis
  proof (cases r)
    case Nil
    with f above show ?thesis by auto
  next
    case (Cons b r')
    have "b \<noteq> a" using Cons unfolding r_def by (auto simp: dropWhile_eq_Cons_conv)
    moreover have "b \<in> set post" using split Cons by (metis in_set_conv_decomp)
    ultimately have "a < b" using post(2) by auto
    moreover have "Min {c \<in> set r. a < c} = b"
      using \<open>sorted r\<close> Cons \<open>a < b\<close> by (intro Min_eqI) auto
    ultimately show ?thesis using f above Cons by auto
  qed
qed

section \<open>The properties of the searches\<close>

text \<open>
  C32: On a symbol table that is sorted by address, as the kernel's is, and that the kernel walks in
  order, the search for the system call table finds the first symbol with that name, and the search
  for the symbol after it finds the least address above it: the difference that carbonite takes as
  the size of the table is the distance to the next symbol, and an alias of the table does not
  shorten it.
\<close>

theorem symbol_searches:
  assumes "\<And>f s. walk f s = each_symbol syms f s" "sorted (map snd syms)" "a \<in> set (map snd syms)"
  shows "fst (my_kallsyms_lookup_name True walk lk name s) = address_of syms name \<and>
    fst (find_next_symbol walk a s) =
      (if \<exists>b \<in> set (map snd syms). a < b then Min {b \<in> set (map snd syms). a < b} else 0)"
  using table.lookup_name [of syms lk name s] table.next_symbol [of syms a s]
    following_sorted [OF assms(2,3)]
  by (simp add: my_kallsyms_lookup_name_def find_next_symbol_def assms(1))

theorem symbol_searches_witness:
  "fst (my_kallsyms_lookup_name True
      (each_symbol [(''a'', 1), (''sys_call_table'', 8), (''alias'', 8), (''next'', 40)]) (\<lambda>n. 0) ''sys_call_table''
      \<lparr>target_address = 5, return_next_symbol = True\<rparr>) = 8 \<and>
   fst (find_next_symbol (each_symbol [(''a'', 1), (''sys_call_table'', 8), (''alias'', 8), (''next'', 40)]) 8
      \<lparr>target_address = 5, return_next_symbol = True\<rparr>) = 40"
proof -
  let ?syms = "[(''a'', 1), (''sys_call_table'', 8), (''alias'', 8), (''next'', 40 :: 64 word)]"
  have "sorted (map snd ?syms)" by simp
  moreover have "address_of ?syms ''sys_call_table'' = 8" by (simp add: address_of_def KSYM_NAME_LEN_def)
  moreover have "{b \<in> set (map snd ?syms). 8 < b} = {40}" by auto
  ultimately show ?thesis
    using symbol_searches [of "each_symbol ?syms" ?syms 8 "\<lambda>n. 0" "''sys_call_table''"
        "\<lparr>target_address = 5, return_next_symbol = True\<rparr>"]
    by simp
qed

end
