(* ===== verification/Integrity_Check.thy ===== *)
theory Integrity_Check imports Command_Chrdev Super_Fast_Hash Kallsyms begin

text \<open>
  The check of the system call table (sys-call-table-integrity-check.c): a timer that hashes the table
  again and again, a notifier for module events, and the start and stop of both. The record extends
  the one of the character device. The pointer to the incident handler is the flag whether it is set;
  what it points to is an argument. The kernel at one moment, with the memory that the table is read
  from and the kernel's symbols, is the record world.
\<close>

definition AFTER_INCIDENT :: int where "AFTER_INCIDENT = 1"
definition AFTER_MODULE_INIT :: int where "AFTER_MODULE_INIT = 2"

record world =
  log_envs :: "nat \<Rightarrow> log_env"
  memory :: "64 word \<Rightarrow> char list"
  old_kernel :: bool
  walk_of :: walk
  symbol_of :: "string \<Rightarrow> 64 word"

record integrity_state = chrdev_state +
  timer_pending :: bool
  timer_interval :: "64 word"
  checking_module :: "char list"
  sys_call_table_hash :: "32 word"
  sys_call_table_size :: "32 word"
  sys_call_table_address :: "64 word"
  incident_handler :: bool
  notifier_registered :: bool
  search :: symbol_search

section \<open>The timer\<close>

text \<open>setup_timer initialises the timer, so that mod_timer finds it inactive and answers 0.\<close>

definition register_timer_interrupt :: "'a integrity_state_scheme \<Rightarrow> 'a integrity_state_scheme run" where
  "register_timer_interrupt s =
     (if timer_interval s = 0 then Inr s
      else
        let s = s\<lparr>timer_pending := False\<rparr>; ret = timer_pending s; s = s\<lparr>timer_pending := True\<rparr> in
        if ret
        then run_bind (read_string (checking_module s)) (\<lambda>n.
               Inr (printk (n @ '':'' @ CHR 0x09 # ''[-] Failed to modify timer interval of the timer'' @ [CHR 0x0A]) s))
        else Inr s)"

definition table_hash :: "world \<Rightarrow> 'a integrity_state_scheme \<Rightarrow> 32 word run" where
  "table_hash W s =
     super_fast_hash (if sys_call_table_address s = 0 then None else Some (memory W (sys_call_table_address s)))
       (sys_call_table_size s)"

definition modified_line :: "string \<Rightarrow> string" where
  "modified_line n = n @ '':'' @ CHR 0x09 # ''[-] system call table was modified!'' @ [CHR 0x0A]"

definition unmodified_line :: "string \<Rightarrow> string" where
  "unmodified_line n = n @ '':'' @ CHR 0x09 # ''[+] system call table is not modified'' @ [CHR 0x0A]"

definition sys_call_table_integrity_checker ::
  "(int \<Rightarrow> 'a integrity_state_scheme \<Rightarrow> 'a integrity_state_scheme run) \<Rightarrow> world \<Rightarrow> 'a integrity_state_scheme \<Rightarrow>
   'a integrity_state_scheme run" where
  "sys_call_table_integrity_checker handle W s =
     run_bind (table_hash W s) (\<lambda>h.
     run_bind (read_string (checking_module s)) (\<lambda>n.
     run_bind
       (if sys_call_table_hash s \<noteq> h then
          let s = printk (modified_line n) s in
          if incident_handler s
          then run_bind (handle AFTER_INCIDENT s) (\<lambda>s. Inr (s\<lparr>incident_handler := False\<rparr>))
          else Inr s
        else Inr (printk (unmodified_line n) s))
       register_timer_interrupt))"

text \<open>The kernel runs the function of a pending timer once it is due; the timer is then inactive.\<close>

definition timer_fires ::
  "(int \<Rightarrow> 'a integrity_state_scheme \<Rightarrow> 'a integrity_state_scheme run) \<Rightarrow> world \<Rightarrow> 'a integrity_state_scheme \<Rightarrow>
   'a integrity_state_scheme run" where
  "timer_fires handle W s =
     (if timer_pending s then sys_call_table_integrity_checker handle W (s\<lparr>timer_pending := False\<rparr>) else Inr s)"

section \<open>The notifier\<close>

definition the_drip_dry_carbonite_module_event ::
  "(int \<Rightarrow> 'a integrity_state_scheme \<Rightarrow> 'a integrity_state_scheme run) \<Rightarrow> world \<Rightarrow> module_state \<Rightarrow> bool \<Rightarrow> string \<Rightarrow>
   'a integrity_state_scheme \<Rightarrow> 'a integrity_state_scheme run" where
  "the_drip_dry_carbonite_module_event handle W state this_module name s =
     (case state of
        MODULE_STATE_COMING \<Rightarrow> Inr s
      | MODULE_STATE_LIVE \<Rightarrow>
          if this_module then Inr s
          else if \<not> incident_handler s then Inl Null_call
          else handle AFTER_MODULE_INIT s
      | MODULE_STATE_GOING \<Rightarrow> Inr s
      | MODULE_STATE_OTHER \<Rightarrow>
          run_bind (read_string (checking_module s)) (\<lambda>n.
          print_log (log_envs W) KERN_ERR
            (CARBONITE_NAME @ n @ '':'' @ CHR 0x09 #
              ''[-] Unknown module state in notifier chain at module with name: '' @ name @ [CHR 0x0A]) s))"

section \<open>The start and the stop\<close>

text \<open>The last part of the start: the hash of the table, then the name and the handler.\<close>

definition arm_checker ::
  "world \<Rightarrow> string \<Rightarrow> bool \<Rightarrow> 64 word \<Rightarrow> 'a integrity_state_scheme \<Rightarrow> (int \<times> 'a integrity_state_scheme) run" where
  "arm_checker W name handler next s =
     (let s = s\<lparr>sys_call_table_size := ucast (next - sys_call_table_address s)\<rparr> in
      run_bind (table_hash W s) (\<lambda>h.
      Inr (1, s\<lparr>sys_call_table_hash := h, checking_module := strncpy name MODULE_NAME_LEN, incident_handler := handler\<rparr>)))"

definition init_sys_call_table_integrity_checker ::
  "world \<Rightarrow> string option \<Rightarrow> 64 word \<Rightarrow> bool \<Rightarrow> 'a integrity_state_scheme \<Rightarrow> (int \<times> 'a integrity_state_scheme) run" where
  "init_sys_call_table_integrity_checker W module_name every handler s =
     (case module_name of
        None \<Rightarrow> Inr (0, printk (''init_sys_call_table_integrity_checker:'' @ CHR 0x09 #
                  ''[-] NULL module name passed as argument'' @ [CHR 0x0A]) s)
      | Some name \<Rightarrow>
          if every = 0
          then Inr (0, printk (name @ '':'' @ CHR 0x09 #
                 ''[-] Negative time interval was given to initialization of sys_call_table_integrity_checker'' @ [CHR 0x0A]) s)
          else
            run_bind (register_timer_interrupt (s\<lparr>timer_interval := every\<rparr>)) (\<lambda>s.
            let s = s\<lparr>notifier_registered := True\<rparr>;
                (a, r) = my_kallsyms_lookup_name (old_kernel W) (walk_of W) (symbol_of W) ''sys_call_table'' (search s);
                s = s\<lparr>search := r, sys_call_table_address := a\<rparr>
            in
            if a = 0
            then Inr (0, printk (name @ '':'' @ CHR 0x09 # ''[-] Failed to get address of sys_call_table symbol'' @ [CHR 0x0A]) s)
            else
              let (next, r) = find_next_symbol (walk_of W) a (search s); s = s\<lparr>search := r\<rparr> in
              if next = 0
              then Inr (0, printk (name @ '':'' @ CHR 0x09 #
                     ''[-] Failed to get address of sys_call_table's next symbol'' @ [CHR 0x0A]) s)
              else arm_checker W name handler next s))"

definition destroy_sys_call_table_integrity_checker :: "'a integrity_state_scheme \<Rightarrow> 'a integrity_state_scheme run" where
  "destroy_sys_call_table_integrity_checker s =
     (let s = s\<lparr>notifier_registered := False\<rparr>; ret = timer_pending s; s = s\<lparr>timer_pending := False\<rparr> in
      run_bind
        (if ret then Inr s
         else run_bind (read_string (checking_module s)) (\<lambda>n.
                Inr (printk (n @ '':'' @ CHR 0x09 # ''[-] Failed to delete timer'' @ [CHR 0x0A]) s)))
        (\<lambda>s. Inr (s\<lparr>timer_interval := 0, sys_call_table_address := 0, sys_call_table_size := 0, sys_call_table_hash := 0,
                     checking_module := clear_first (checking_module s)\<rparr>)))"

section \<open>Ticks of the timer\<close>

fun run_ticks ::
  "(int \<Rightarrow> 'a integrity_state_scheme \<Rightarrow> 'a integrity_state_scheme run) \<Rightarrow> world list \<Rightarrow> 'a integrity_state_scheme \<Rightarrow>
   'a integrity_state_scheme run" where
  "run_ticks handle [] s = Inr s"
| "run_ticks handle (W # Ws) s = run_bind (timer_fires handle W s) (run_ticks handle Ws)"

text \<open>The checker runs: the timer is pending and will be set up again, and its name is a string.\<close>

definition ticking :: "'a integrity_state_scheme \<Rightarrow> bool" where
  "ticking s \<longleftrightarrow> timer_pending s \<and> timer_interval s \<noteq> 0 \<and> NUL \<in> set (checking_module s)"

definition readable :: "'a integrity_state_scheme \<Rightarrow> world \<Rightarrow> bool" where
  "readable s W \<longleftrightarrow> (\<exists>h. table_hash W s = Inr h)"

definition unchanged :: "'a integrity_state_scheme \<Rightarrow> world \<Rightarrow> bool" where
  "unchanged s W \<longleftrightarrow> table_hash W s = Inr (sys_call_table_hash s)"

lemma unchanged_readable: "unchanged s W \<Longrightarrow> readable s W"
  by (auto simp: unchanged_def readable_def)

lemma table_vars [simp]:
  "table_hash W (printk x s) = table_hash W s" "table_hash W (s\<lparr>klog := l\<rparr>) = table_hash W s"
  "table_hash W (s\<lparr>timer_pending := t\<rparr>) = table_hash W s" "table_hash W (s\<lparr>incident_handler := b\<rparr>) = table_hash W s"
  by (simp_all add: table_hash_def printk_def)

lemma ticking_vars [simp]:
  "ticking (s\<lparr>klog := l\<rparr>) = ticking s" "readable (s\<lparr>klog := l\<rparr>) = readable s" "unchanged (s\<lparr>klog := l\<rparr>) = unchanged s"
  by (simp_all add: ticking_def readable_def unchanged_def fun_eq_iff)

lemma register_timer_run: "timer_interval s \<noteq> 0 \<Longrightarrow> register_timer_interrupt s = Inr (s\<lparr>timer_pending := True\<rparr>)"
  by (simp add: register_timer_interrupt_def Let_def)

lemma pending_again: "timer_pending s \<Longrightarrow> s\<lparr>klog := l, timer_pending := True\<rparr> = s\<lparr>klog := l\<rparr>"
  by (cases s) simp

text \<open>A tick that calls no handler prints one line and changes nothing else.\<close>

lemma tick_line:
  assumes "ticking s" "table_hash W s = Inr h" "\<not> incident_handler s \<or> h = sys_call_table_hash s"
  shows "timer_fires handle W s = Inr (s\<lparr>klog := klog s @
    [(if h = sys_call_table_hash s then unmodified_line else modified_line) (cstr (checking_module s))]\<rparr>)"
proof -
  have "read_string (checking_module s) = Inr (cstr (checking_module s))"
    using assms(1) by (simp add: ticking_def read_string_def)
  then show ?thesis
    using assms
    by (auto simp: timer_fires_def sys_call_table_integrity_checker_def ticking_def register_timer_run printk_def pending_again)
qed

lemma tick_unchanged:
  assumes "ticking s" "unchanged s W"
  shows "timer_fires handle W s = Inr (s\<lparr>klog := klog s @ [unmodified_line (cstr (checking_module s))]\<rparr>)"
  using tick_line [OF assms(1), of W "sys_call_table_hash s" handle] assms(2) by (simp add: unchanged_def)

lemma tick_quiet:
  assumes "ticking s" "readable s W" "\<not> incident_handler s \<or> unchanged s W"
  shows "\<exists>line. timer_fires handle W s = Inr (s\<lparr>klog := klog s @ [line]\<rparr>)"
  using assms tick_line [OF assms(1), of W _ handle] unfolding readable_def unchanged_def by fastforce

lemma ticks_quiet:
  assumes "ticking s" "\<And>W. W \<in> set Ws \<Longrightarrow> readable s W" "\<not> incident_handler s \<or> (\<forall>W \<in> set Ws. unchanged s W)"
  shows "\<exists>lines. run_ticks handle Ws s = Inr (s\<lparr>klog := klog s @ lines\<rparr>) \<and> length lines = length Ws"
  using assms
proof (induction Ws arbitrary: s)
  case Nil
  show ?case by (intro exI [of _ "[]"]) simp
next
  case (Cons W Ws)
  obtain line where line: "timer_fires handle W s = Inr (s\<lparr>klog := klog s @ [line]\<rparr>)"
    using tick_quiet [of s W handle] Cons.prems by auto
  obtain lines where "run_ticks handle Ws (s\<lparr>klog := klog s @ [line]\<rparr>) =
      Inr (s\<lparr>klog := klog s @ line # lines\<rparr>)" "length lines = length Ws"
    using Cons.IH [of "s\<lparr>klog := klog s @ [line]\<rparr>"] Cons.prems by auto
  with line show ?case by (intro exI [of _ "line # lines"]) simp
qed

section \<open>The interface of an incident handler\<close>

definition checker_vars :: "'a integrity_state_scheme \<Rightarrow> 64 word \<times> char list \<times> 32 word \<times> 32 word \<times> 64 word" where
  "checker_vars s = (timer_interval s, checking_module s, sys_call_table_hash s, sys_call_table_size s, sys_call_table_address s)"

lemma readable_checker_vars: "checker_vars s' = checker_vars s \<Longrightarrow> readable s' = readable s"
  by (simp add: checker_vars_def readable_def table_hash_def fun_eq_iff)

text \<open>A handler may do what it likes but change what the checker compares with.\<close>

locale incident_handling =
  fixes handle :: "int \<Rightarrow> 'a integrity_state_scheme \<Rightarrow> 'a integrity_state_scheme run"
  assumes keeps: "handle why s = Inr s' \<Longrightarrow> checker_vars s' = checker_vars s"
begin

lemma tick_incident:
  assumes "ticking s" "incident_handler s" "readable s W" "\<not> unchanged s W"
    and "handle AFTER_INCIDENT (printk (modified_line (cstr (checking_module s))) (s\<lparr>timer_pending := False\<rparr>)) = Inr s1"
  shows "timer_fires handle W s = Inr (s1\<lparr>incident_handler := False, timer_pending := True\<rparr>)"
proof -
  obtain h where h: "table_hash W s = Inr h" "h \<noteq> sys_call_table_hash s"
    using assms(3,4) by (auto simp: readable_def unchanged_def)
  have n: "read_string (checking_module s) = Inr (cstr (checking_module s))"
    using assms(1) by (simp add: ticking_def read_string_def)
  have i: "timer_interval s1 \<noteq> 0"
    using keeps [OF assms(5)] assms(1) by (simp add: checker_vars_def ticking_def printk_def)
  have "register_timer_interrupt (s1\<lparr>incident_handler := False\<rparr>) = Inr (s1\<lparr>incident_handler := False, timer_pending := True\<rparr>)"
    using i by (intro register_timer_run) simp
  then show ?thesis
    using assms(1,2,5) h n by (simp add: timer_fires_def sys_call_table_integrity_checker_def ticking_def)
      (simp add: printk_def)
qed

lemma ticks_incident:
  assumes "ticking s" "incident_handler s" "readable s W" "\<not> unchanged s W"
    and "handle AFTER_INCIDENT (printk (modified_line (cstr (checking_module s))) (s\<lparr>timer_pending := False\<rparr>)) = Inr s1"
    and "\<And>V. V \<in> set Ws \<Longrightarrow> readable s V"
  shows "\<exists>lines. run_ticks handle (W # Ws) s =
    Inr (s1\<lparr>incident_handler := False, timer_pending := True, klog := klog s1 @ lines\<rparr>)"
proof -
  define s2 where "s2 = s1\<lparr>incident_handler := False, timer_pending := True\<rparr>"
  have v: "checker_vars s2 = checker_vars s"
    using keeps [OF assms(5)] by (simp add: s2_def checker_vars_def printk_def)
  then have "ticking s2" using assms(1) by (simp add: ticking_def checker_vars_def s2_def)
  then obtain lines where "run_ticks handle Ws s2 = Inr (s2\<lparr>klog := klog s2 @ lines\<rparr>)"
    using ticks_quiet [of s2 Ws handle] assms(6) readable_checker_vars [OF v] by (auto simp: s2_def)
  then show ?thesis
    using tick_incident [OF assms(1-5)] by (auto simp: s2_def)
qed

end

section \<open>Starting the checker\<close>

definition table_symbol :: "world \<Rightarrow> symbol_search \<Rightarrow> 64 word" where
  "table_symbol W r = fst (my_kallsyms_lookup_name (old_kernel W) (walk_of W) (symbol_of W) ''sys_call_table'' r)"

definition symbol_after :: "world \<Rightarrow> symbol_search \<Rightarrow> 64 word" where
  "symbol_after W r =
     (let (a, r) = my_kallsyms_lookup_name (old_kernel W) (walk_of W) (symbol_of W) ''sys_call_table'' r
      in fst (find_next_symbol (walk_of W) a r))"

text \<open>The table as the start finds it.\<close>

definition initial_table :: "world \<Rightarrow> symbol_search \<Rightarrow> 32 word run" where
  "initial_table W r =
     super_fast_hash (Some (memory W (table_symbol W r))) (ucast (symbol_after W r - table_symbol W r))"

lemma checker_start_run:
  assumes "every \<noteq> 0" "length (cstr name) < MODULE_NAME_LEN" "\<not> incident_handler s"
  shows "if table_symbol W (search s) = 0 \<or> symbol_after W (search s) = 0
    then \<exists>s'. init_sys_call_table_integrity_checker W (Some name) every True s = Inr (0, s') \<and>
      timer_pending s' \<and> notifier_registered s' \<and> command s' = command s \<and> chrdevs s' = chrdevs s \<and>
      log_remote s' = log_remote s \<and>
      the_drip_dry_carbonite_module_event handle V MODULE_STATE_LIVE False m s' = Inl Null_call
    else case initial_table W (search s) of
        Inl e \<Rightarrow> init_sys_call_table_integrity_checker W (Some name) every True s = Inl e
      | Inr h \<Rightarrow> \<exists>s'. init_sys_call_table_integrity_checker W (Some name) every True s = Inr (1, s') \<and>
          ticking s' \<and> incident_handler s' \<and> notifier_registered s' \<and> unchanged s' W \<and>
          sys_call_table_address s' = table_symbol W (search s) \<and>
          sys_call_table_size s' = ucast (symbol_after W (search s) - table_symbol W (search s)) \<and>
          chrdev_state.truncate s' = chrdev_state.truncate s \<and> integrity_state.more s' = integrity_state.more s"
proof -
  obtain a r where a: "my_kallsyms_lookup_name (old_kernel W) (walk_of W) (symbol_of W) ''sys_call_table'' (search s) = (a, r)"
    by fastforce
  obtain n r' where n: "find_next_symbol (walk_of W) a r = (n, r')" by fastforce
  have syms: "table_symbol W (search s) = a" "symbol_after W (search s) = n"
    using a n by (simp_all add: table_symbol_def symbol_after_def)
  have timer: "register_timer_interrupt (s\<lparr>timer_interval := every\<rparr>) = Inr (s\<lparr>timer_interval := every, timer_pending := True\<rparr>)"
    using assms(1) by (intro register_timer_run) simp
  define s1 where "s1 = s\<lparr>timer_interval := every, timer_pending := True, notifier_registered := True, search := r,
      sys_call_table_address := a\<rparr>"
  show ?thesis
  proof (cases "a = 0 \<or> n = 0")
    case True
    then show ?thesis
      using assms(1,3) a n timer unfolding syms
      by (auto simp: init_sys_call_table_integrity_checker_def the_drip_dry_carbonite_module_event_def Let_def printk_def)
  next
    case False
    have init: "init_sys_call_table_integrity_checker W (Some name) every True s = arm_checker W name True n (s1\<lparr>search := r'\<rparr>)"
      using assms(1) a n timer False by (simp add: init_sys_call_table_integrity_checker_def s1_def)
    define s2 where "s2 = s1\<lparr>search := r', sys_call_table_size := ucast (n - a)\<rparr>"
    have s2: "sys_call_table_address s2 = a" "sys_call_table_size s2 = ucast (n - a)" "timer_pending s2"
      "timer_interval s2 = every" "notifier_registered s2" "chrdev_state.truncate s2 = chrdev_state.truncate s"
      "integrity_state.more s2 = integrity_state.more s"
      by (simp_all add: s2_def s1_def chrdev_state.defs)
    have hash: "table_hash W s2 = initial_table W (search s)"
      using False s2 by (simp add: table_hash_def initial_table_def syms)
    have arm: "arm_checker W name True n (s1\<lparr>search := r'\<rparr>) =
        run_bind (initial_table W (search s)) (\<lambda>h.
          Inr (1, s2\<lparr>sys_call_table_hash := h, checking_module := strncpy name MODULE_NAME_LEN, incident_handler := True\<rparr>))"
      using hash by (simp add: arm_checker_def Let_def) (simp add: s2_def s1_def)
    show ?thesis
    proof (cases "initial_table W (search s)")
      case (Inl e)
      then show ?thesis using False init arm by (simp add: syms)
    next
      case (Inr h)
      define s3 where "s3 = s2\<lparr>sys_call_table_hash := h, checking_module := strncpy name MODULE_NAME_LEN, incident_handler := True\<rparr>"
      have "table_hash W s3 = table_hash W s2" by (simp add: s3_def table_hash_def)
      then have "table_hash W s3 = Inr h" using hash Inr by simp
      then have "ticking s3 \<and> incident_handler s3 \<and> notifier_registered s3 \<and> unchanged s3 W \<and>
          sys_call_table_address s3 = a \<and> sys_call_table_size s3 = ucast (n - a) \<and>
          chrdev_state.truncate s3 = chrdev_state.truncate s \<and> integrity_state.more s3 = integrity_state.more s"
        using s2 assms(1) strncpy_terminated [OF assms(2)]
        by (simp add: s3_def ticking_def unchanged_def chrdev_state.defs)
      then show ?thesis using False init arm Inr by (simp add: syms s3_def)
    qed
  qed
qed

text \<open>
  C21: If the kernel has the symbol of the system call table and one after it, starting the checker
  sets the timer, takes the table to be the bytes up to the next symbol and stores their hash, so
  that the table counts as unchanged. If one of the symbols is missing the start fails but leaves
  the timer running and the notifier registered without a handler: the next module that goes live
  makes the notifier call a NULL pointer.
\<close>

theorem checker_start:
  assumes "every \<noteq> 0" "length (cstr name) < MODULE_NAME_LEN" "\<not> incident_handler s"
  shows "if table_symbol W (search s) = 0 \<or> symbol_after W (search s) = 0
    then \<exists>s'. init_sys_call_table_integrity_checker W (Some name) every True s = Inr (0, s') \<and>
      timer_pending s' \<and> notifier_registered s' \<and> command s' = command s \<and> chrdevs s' = chrdevs s \<and>
      log_remote s' = log_remote s \<and>
      the_drip_dry_carbonite_module_event handle V MODULE_STATE_LIVE False m s' = Inl Null_call
    else case initial_table W (search s) of
        Inl e \<Rightarrow> init_sys_call_table_integrity_checker W (Some name) every True s = Inl e
      | Inr h \<Rightarrow> \<exists>s'. init_sys_call_table_integrity_checker W (Some name) every True s = Inr (1, s') \<and>
          ticking s' \<and> incident_handler s' \<and> notifier_registered s' \<and> unchanged s' W \<and>
          sys_call_table_address s' = table_symbol W (search s) \<and>
          sys_call_table_size s' = ucast (symbol_after W (search s) - table_symbol W (search s)) \<and>
          chrdev_state.truncate s' = chrdev_state.truncate s \<and> integrity_state.more s' = integrity_state.more s"
  using assms by (rule checker_start_run)

text \<open>A kernel with a table of one entry, and the state before anything is started.\<close>

definition example_world :: "char list \<Rightarrow> world" where
  "example_world table = \<lparr>log_envs = \<lambda>_. example_env, memory = \<lambda>_. table, old_kernel = True,
     walk_of = each_symbol [(''sys_call_table'', 8), (''next'', 16)], symbol_of = \<lambda>_. 0\<rparr>"

definition idle_checker :: integrity_state where
  "idle_checker = chrdev_state.extend example_chrdev
     (integrity_state.fields False 0 (replicate MODULE_NAME_LEN NUL) 0 0 0 False False
       \<lparr>target_address = 0, return_next_symbol = False\<rparr>)"

lemma example_symbols:
  "table_symbol (example_world table) r = 8" "symbol_after (example_world table) r = 16"
  by (simp_all add: table_symbol_def symbol_after_def example_world_def my_kallsyms_lookup_name_def
      find_symbol_def find_next_symbol_def find_next_def strncmp_eq_0 KSYM_NAME_LEN_def Let_def)

lemma example_table: "initial_table (example_world kernel_entry) r = Inr 0x4d5f413d"
  using hash_collision_facts(1)
  by (simp add: initial_table_def example_symbols) (simp add: example_world_def)

theorem checker_start_witness:
  "\<exists>s'. init_sys_call_table_integrity_checker (example_world kernel_entry) (Some CARBONITE_NAME) 1000 True idle_checker =
     Inr (1, s') \<and> ticking s' \<and> incident_handler s' \<and> unchanged s' (example_world kernel_entry)"
proof -
  have "length (cstr CARBONITE_NAME) < MODULE_NAME_LEN" "\<not> incident_handler idle_checker"
    by (simp_all add: CARBONITE_NAME_def MODULE_NAME_LEN_def idle_checker_def chrdev_state.defs integrity_state.defs)
  then show ?thesis
    using checker_start [of 1000 CARBONITE_NAME idle_checker "example_world kernel_entry"]
    by (auto simp: example_symbols example_table)
qed

end
