(* ===== verification/Integrity_Race.thy ===== *)
theory Integrity_Race imports Integrity_Check begin

text \<open>
  The start of the check of the system call table (sys-call-table-integrity-check.c) while the rest of
  the kernel goes on. The timer is set up and the notifier registered before the table is looked up,
  its hash stored and the handler set, and no lock is held. The start is therefore also given as its
  single steps, with a program counter, which ticks of the timer and module events of other
  processors may come between.
\<close>

section \<open>The steps of the start\<close>

datatype start_pc =
    Arm_timer
  | Register_notifier
  | Find_table
  | Find_next
  | Set_size "64 word"
  | Read_table
  | Store_hash "32 word"
  | Copy_name
  | Set_handler
  | Returned int

primrec start_step ::
  "world \<Rightarrow> string \<Rightarrow> 64 word \<Rightarrow> bool \<Rightarrow> start_pc \<Rightarrow> 'a integrity_state_scheme \<Rightarrow> (start_pc \<times> 'a integrity_state_scheme) run" where
  "start_step W name every handler Arm_timer s =
     run_bind (register_timer_interrupt (s\<lparr>timer_interval := every\<rparr>)) (\<lambda>s. Inr (Register_notifier, s))"
| "start_step W name every handler Register_notifier s = Inr (Find_table, s\<lparr>notifier_registered := True\<rparr>)"
| "start_step W name every handler Find_table s =
     (let (a, r) = my_kallsyms_lookup_name (old_kernel W) (walk_of W) (symbol_of W) ''sys_call_table'' (search s);
          s = s\<lparr>search := r, sys_call_table_address := a\<rparr>
      in Inr (if a = 0
              then (Returned 0, printk (name @ '':'' @ CHR 0x09 # ''[-] Failed to get address of sys_call_table symbol'' @ [CHR 0x0A]) s)
              else (Find_next, s)))"
| "start_step W name every handler Find_next s =
     (let (next, r) = find_next_symbol (walk_of W) (sys_call_table_address s) (search s); s = s\<lparr>search := r\<rparr>
      in Inr (if next = 0
              then (Returned 0, printk (name @ '':'' @ CHR 0x09 #
                     ''[-] Failed to get address of sys_call_table's next symbol'' @ [CHR 0x0A]) s)
              else (Set_size next, s)))"
| "start_step W name every handler (Set_size next) s =
     Inr (Read_table, s\<lparr>sys_call_table_size := ucast (next - sys_call_table_address s)\<rparr>)"
| "start_step W name every handler Read_table s = run_bind (table_hash W s) (\<lambda>h. Inr (Store_hash h, s))"
| "start_step W name every handler (Store_hash h) s = Inr (Copy_name, s\<lparr>sys_call_table_hash := h\<rparr>)"
| "start_step W name every handler Copy_name s = Inr (Set_handler, s\<lparr>checking_module := strncpy name MODULE_NAME_LEN\<rparr>)"
| "start_step W name every handler Set_handler s = Inr (Returned 1, s\<lparr>incident_handler := handler\<rparr>)"
| "start_step W name every handler (Returned r) s = Inr (Returned r, s)"

text \<open>The start makes a step, the timer fires, or a module changes its state.\<close>

datatype actor = Start world | Tick world | Module world module_state bool string

primrec race_step ::
  "(int \<Rightarrow> 'a integrity_state_scheme \<Rightarrow> 'a integrity_state_scheme run) \<Rightarrow> string \<Rightarrow> 64 word \<Rightarrow> bool \<Rightarrow>
   actor \<Rightarrow> start_pc \<times> 'a integrity_state_scheme \<Rightarrow> (start_pc \<times> 'a integrity_state_scheme) run" where
  "race_step handle name every handler (Start W) c = start_step W name every handler (fst c) (snd c)"
| "race_step handle name every handler (Tick W) c =
     run_bind (timer_fires handle W (snd c)) (\<lambda>s. Inr (fst c, s))"
| "race_step handle name every handler (Module W st this_module m) c =
     run_bind (if notifier_registered (snd c)
               then the_drip_dry_carbonite_module_event handle W st this_module m (snd c) else Inr (snd c))
       (\<lambda>s. Inr (fst c, s))"

primrec race ::
  "(int \<Rightarrow> 'a integrity_state_scheme \<Rightarrow> 'a integrity_state_scheme run) \<Rightarrow> string \<Rightarrow> 64 word \<Rightarrow> bool \<Rightarrow>
   actor list \<Rightarrow> start_pc \<times> 'a integrity_state_scheme \<Rightarrow> (start_pc \<times> 'a integrity_state_scheme) run" where
  "race handle name every handler [] c = Inr c"
| "race handle name every handler (x # xs) c =
     run_bind (race_step handle name every handler x c) (race handle name every handler xs)"

lemma race_append:
  "race handle name every handler (xs @ ys) c =
   run_bind (race handle name every handler xs c) (race handle name every handler ys)"
  by (induction xs arbitrary: c) (auto simp: run_bind_assoc intro!: run_bind_cong)

lemma race_returned: "race handle name every handler (replicate n (Start W)) (Returned r, s) = Inr (Returned r, s)"
  by (induction n) simp_all

text \<open>Undisturbed, the nine steps are the start.\<close>

lemma undisturbed_start:
  assumes "every \<noteq> 0"
  shows "race handle name every handler (replicate 9 (Start W)) (Arm_timer, s) =
    run_bind (init_sys_call_table_integrity_checker W (Some name) every handler s) (\<lambda>(r, s). Inr (Returned r, s))"
proof -
  obtain a r where a: "my_kallsyms_lookup_name (old_kernel W) (walk_of W) (symbol_of W) ''sys_call_table'' (search s) = (a, r)"
    by fastforce
  obtain n r' where n: "find_next_symbol (walk_of W) a r = (n, r')" by fastforce
  have nine: "replicate 9 (Start W) = Start W # Start W # Start W # replicate 6 (Start W)"
    "replicate 6 (Start W) = Start W # replicate 5 (Start W)"
    "replicate 5 (Start W) = [Start W, Start W, Start W, Start W, Start W]"
    by (simp_all add: numeral_eq_Suc)
  have timer: "register_timer_interrupt (s\<lparr>timer_interval := every\<rparr>) = Inr (s\<lparr>timer_interval := every, timer_pending := True\<rparr>)"
    using assms by (intro register_timer_run) simp
  show ?thesis
  proof (cases "a = 0")
    case True
    then show ?thesis
      using assms a timer by (simp add: nine(1) race_returned init_sys_call_table_integrity_checker_def)
  next
    case a0: False
    show ?thesis
    proof (cases "n = 0")
      case True
      then show ?thesis
        using assms a a0 n timer by (simp add: nine(1,2) race_returned init_sys_call_table_integrity_checker_def)
    next
      case False
      then show ?thesis
        using assms a a0 n timer
        by (simp add: nine init_sys_call_table_integrity_checker_def arm_checker_def run_bind_assoc Let_def)
    qed
  qed
qed

section \<open>The state after some of the steps\<close>

text \<open>
  The program counter and the state after k steps of a start that finds its symbols, with nothing in
  between: a and n are their addresses, h the hash of the table, and r' what the searches leave.
\<close>

definition pc_after :: "64 word \<Rightarrow> 32 word \<Rightarrow> nat \<Rightarrow> start_pc" where
  "pc_after n h k =
     (if k < 9 then [Arm_timer, Register_notifier, Find_table, Find_next, Set_size n, Read_table, Store_hash h, Copy_name, Set_handler] ! k
      else Returned 1)"

definition begun :: "world \<Rightarrow> string \<Rightarrow> 64 word \<Rightarrow> 32 word \<Rightarrow> 'a integrity_state_scheme \<Rightarrow> nat \<Rightarrow> 'a integrity_state_scheme" where
  "begun W name every h s k =
     (let (a, r) = my_kallsyms_lookup_name (old_kernel W) (walk_of W) (symbol_of W) ''sys_call_table'' (search s);
          (n, r') = find_next_symbol (walk_of W) a r
      in s\<lparr>timer_interval := if 1 \<le> k then every else timer_interval s,
           timer_pending := (if 1 \<le> k then True else timer_pending s),
           notifier_registered := (if 2 \<le> k then True else notifier_registered s),
           search := if 4 \<le> k then r' else if 3 \<le> k then r else search s,
           sys_call_table_address := if 3 \<le> k then a else sys_call_table_address s,
           sys_call_table_size := if 5 \<le> k then ucast (n - a) else sys_call_table_size s,
           sys_call_table_hash := if 7 \<le> k then h else sys_call_table_hash s,
           checking_module := if 8 \<le> k then strncpy name MODULE_NAME_LEN else checking_module s,
           incident_handler := (if 9 \<le> k then True else incident_handler s)\<rparr>)"

text \<open>The checker's variables when the module is loaded.\<close>

definition untouched :: "'a integrity_state_scheme \<Rightarrow> bool" where
  "untouched s \<longleftrightarrow> \<not> timer_pending s \<and> \<not> notifier_registered s \<and> sys_call_table_address s = 0 \<and>
     sys_call_table_size s = 0 \<and> sys_call_table_hash s = 0 \<and> checking_module s = replicate MODULE_NAME_LEN NUL \<and>
     \<not> incident_handler s"

lemma begun_0: "begun W name every h s 0 = s"
  by (simp add: begun_def split: prod.splits)

lemma nine_steps: "k = 0 \<or> k = 1 \<or> k = 2 \<or> k = 3 \<or> k = 4 \<or> k = 5 \<or> k = 6 \<or> k = 7 \<or> k = 8 \<or> 9 \<le> (k :: nat)"
  by linarith

lemma start_step_begun:
  assumes "every \<noteq> 0" "table_symbol W (search s) \<noteq> 0" "symbol_after W (search s) \<noteq> 0" "initial_table W (search s) = Inr h"
  shows "start_step W name every True (pc_after (symbol_after W (search s)) h k) ((begun W name every h s k)\<lparr>klog := l\<rparr>) =
    Inr (pc_after (symbol_after W (search s)) h (Suc k), (begun W name every h s (Suc k))\<lparr>klog := l\<rparr>)"
proof -
  obtain a r where a: "my_kallsyms_lookup_name (old_kernel W) (walk_of W) (symbol_of W) ''sys_call_table'' (search s) = (a, r)"
    by fastforce
  obtain n r' where n: "find_next_symbol (walk_of W) a r = (n, r')" by fastforce
  have syms: "table_symbol W (search s) = a" "symbol_after W (search s) = n"
    using a n by (simp_all add: table_symbol_def symbol_after_def)
  have h: "super_fast_hash (Some (memory W a)) (ucast (n - a)) = Inr h"
    using assms(4) by (simp add: initial_table_def syms)
  note b = begun_def [of W name every h s, unfolded Let_def a prod.case, unfolded n prod.case]
  have timer: "register_timer_interrupt (s\<lparr>klog := l, timer_interval := every\<rparr>) =
      Inr (s\<lparr>klog := l, timer_interval := every, timer_pending := True\<rparr>)"
    using assms(1) by (intro register_timer_run) simp
  show ?thesis
    using nine_steps [of k]
    by (elim disjE) (use assms timer a n h syms in \<open>simp_all add: pc_after_def b Let_def table_hash_def\<close>)
qed

section \<open>Ticks between the steps\<close>

text \<open>The line a tick prints after k steps; before the first step there is no timer.\<close>

definition tick_lines :: "string \<Rightarrow> 32 word \<Rightarrow> nat \<Rightarrow> string list" where
  "tick_lines name h k =
     (if k = 0 then []
      else [(if (k = 5 \<or> k = 6) \<and> h \<noteq> 0 then modified_line else unmodified_line) (if 8 \<le> k then cstr name else [])])"

lemma tick_begun:
  assumes "untouched s" "every \<noteq> 0" "length (cstr name) < MODULE_NAME_LEN"
    and "table_symbol W (search s) \<noteq> 0" "initial_table W (search s) = Inr h"
  shows "timer_fires handle W ((begun W name every h s k)\<lparr>klog := l\<rparr>) =
    Inr ((begun W name every h s k)\<lparr>klog := l @ tick_lines name h k\<rparr>)"
proof (cases "k = 0")
  case True
  then show ?thesis using assms(1) by (simp add: begun_0 timer_fires_def untouched_def tick_lines_def)
next
  case k: False
  obtain a r where a: "my_kallsyms_lookup_name (old_kernel W) (walk_of W) (symbol_of W) ''sys_call_table'' (search s) = (a, r)"
    by fastforce
  obtain n r' where n: "find_next_symbol (walk_of W) a r = (n, r')" by fastforce
  have syms: "table_symbol W (search s) = a" "symbol_after W (search s) = n"
    using a n by (simp_all add: table_symbol_def symbol_after_def)
  have h: "super_fast_hash (Some (memory W a)) (ucast (n - a)) = Inr h"
    using assms(5) by (simp add: initial_table_def syms)
  note b = begun_def [of W name every h s, unfolded Let_def a prod.case, unfolded n prod.case]
  define t where "t = (begun W name every h s k)\<lparr>klog := l\<rparr>"
  define x where "x = (if 5 \<le> k then h else 0)"
  have no_bytes: "super_fast_hash d 0 = Inr 0" for d
    by (simp add: super_fast_hash_def)
  have "sys_call_table_address t = (if 3 \<le> k then a else 0)" "sys_call_table_size t = (if 5 \<le> k then ucast (n - a) else 0)"
    using assms(1) by (simp_all add: t_def b untouched_def)
  then have "table_hash W t = Inr x"
    using assms(4) h by (cases "5 \<le> k") (simp_all add: table_hash_def x_def no_bytes syms)
  moreover have name: "checking_module t = (if 8 \<le> k then strncpy name MODULE_NAME_LEN else replicate MODULE_NAME_LEN NUL)"
    using assms(1) by (simp add: t_def b untouched_def)
  moreover have "cstr (checking_module t) = (if 8 \<le> k then cstr name else [])"
    using assms(3) by (simp add: name cstr_strncpy)
  moreover have "ticking t"
    using k assms(2) strncpy_terminated [OF assms(3)] name
    by (simp add: ticking_def MODULE_NAME_LEN_def) (simp add: t_def b)
  moreover have "sys_call_table_hash t = (if 7 \<le> k then h else 0)" "incident_handler t = (9 \<le> k)" "klog t = l"
    using assms(1) by (simp_all add: t_def b untouched_def)
  ultimately have "timer_fires handle W t = Inr (t\<lparr>klog := l @ tick_lines name h k\<rparr>)"
    using k tick_line [of t W x handle] by (auto simp: x_def tick_lines_def)
  then show ?thesis by (simp add: t_def)
qed

text \<open>The lines of a schedule of steps and ticks, and how many steps of the start it has.\<close>

primrec lines_between :: "string \<Rightarrow> 32 word \<Rightarrow> actor list \<Rightarrow> nat \<Rightarrow> string list" where
  "lines_between name h [] k = []"
| "lines_between name h (x # xs) k =
     (case x of Start _ \<Rightarrow> lines_between name h xs (Suc k) | _ \<Rightarrow> tick_lines name h k @ lines_between name h xs k)"

definition steps_in :: "actor list \<Rightarrow> nat" where
  "steps_in xs = length (filter (\<lambda>x. \<exists>W. x = Start W) xs)"

lemma race_begun:
  assumes "untouched s" "every \<noteq> 0" "length (cstr name) < MODULE_NAME_LEN" "set xs \<subseteq> {Start W, Tick W}"
    and "table_symbol W (search s) \<noteq> 0" "symbol_after W (search s) \<noteq> 0" "initial_table W (search s) = Inr h"
  shows "race handle name every True xs (pc_after (symbol_after W (search s)) h k, (begun W name every h s k)\<lparr>klog := l\<rparr>) =
    Inr (pc_after (symbol_after W (search s)) h (k + steps_in xs),
      (begun W name every h s (k + steps_in xs))\<lparr>klog := l @ lines_between name h xs k\<rparr>)"
  using assms(4)
proof (induction xs arbitrary: k l)
  case Nil
  then show ?case by (simp add: steps_in_def)
next
  case (Cons x xs)
  then consider "x = Start W" | "x = Tick W" by auto
  then show ?case
  proof cases
    case 1
    with Cons show ?thesis
      using start_step_begun [OF assms(2,5-7), where name = name and k = k and l = l] by (simp add: steps_in_def)
  next
    case 2
    with Cons show ?thesis
      using tick_begun [OF assms(1-3,5,7), where handle = handle and k = k and l = l] by (simp add: steps_in_def)
  qed
qed

lemma live_begun:
  assumes "untouched s" "2 \<le> k" "k < 9"
  shows "notifier_registered (begun W name every h s k)"
    "the_drip_dry_carbonite_module_event handle V MODULE_STATE_LIVE False m ((begun W name every h s k)\<lparr>klog := l\<rparr>) = Inl Null_call"
  using assms by (auto simp: begun_def untouched_def the_drip_dry_carbonite_module_event_def split: prod.splits)

text \<open>
  C23: Ticks of the timer between the steps of the start, in any number and at any place, do it no
  harm: they neither call a handler nor change what the start does, and only print a line. While the
  size of the table is known and its hash is not yet stored that line says that the table was modified,
  although it was not. A module of another processor that goes live between the registration of the
  notifier and the last step makes the notifier call a NULL pointer.
\<close>

theorem start_race:
  assumes "untouched s" "every \<noteq> 0" "length (cstr name) < MODULE_NAME_LEN" "set xs \<subseteq> {Start W, Tick W}"
    and "table_symbol W (search s) \<noteq> 0" "symbol_after W (search s) \<noteq> 0" "initial_table W (search s) = Inr h"
  shows "\<exists>pc s1. race handle name every True (replicate (steps_in xs) (Start W)) (Arm_timer, s) = Inr (pc, s1) \<and>
    race handle name every True xs (Arm_timer, s) = Inr (pc, s1\<lparr>klog := klog s @ lines_between name h xs 0\<rparr>) \<and>
    (9 \<le> steps_in xs \<longrightarrow> init_sys_call_table_integrity_checker W (Some name) every True s = Inr (1, s1)) \<and>
    (2 \<le> steps_in xs \<and> steps_in xs < 9 \<longrightarrow>
       race handle name every True (xs @ [Module W MODULE_STATE_LIVE False m]) (Arm_timer, s) = Inl Null_call)"
proof -
  define k where "k = steps_in xs"
  define s1 where "s1 = begun W name every h s k"
  define pc where "pc = pc_after (symbol_after W (search s)) h k"
  have 0: "(begun W name every h s 0)\<lparr>klog := klog s\<rparr> = s" "pc_after (symbol_after W (search s)) h 0 = Arm_timer"
    by (simp_all add: begun_0 pc_after_def)
  have kl: "s1\<lparr>klog := klog s\<rparr> = s1"
    by (simp add: s1_def begun_def split: prod.splits)
  have steps: "steps_in (replicate j (Start W)) = j" "lines_between name h (replicate j (Start W)) i = []" for i j
    by (simp add: steps_in_def) (induction j arbitrary: i, simp_all)
  have alone: "race handle name every True (replicate j (Start W)) (Arm_timer, s) =
      Inr (pc_after (symbol_after W (search s)) h j, (begun W name every h s j)\<lparr>klog := klog s\<rparr>)" for j
  proof -
    have "set (replicate j (Start W)) \<subseteq> {Start W, Tick W}" by auto
    from race_begun [OF assms(1-3) this assms(5-7), of handle 0 "klog s"] show ?thesis using 0 steps by simp
  qed
  have run: "race handle name every True xs (Arm_timer, s) = Inr (pc, s1\<lparr>klog := klog s @ lines_between name h xs 0\<rparr>)"
    using race_begun [OF assms(1-7), of handle 0 "klog s"] 0 by (simp add: s1_def pc_def k_def)
  moreover have "race handle name every True (replicate k (Start W)) (Arm_timer, s) = Inr (pc, s1)"
    using alone [of k] kl by (simp add: s1_def pc_def)
  moreover have "init_sys_call_table_integrity_checker W (Some name) every True s = Inr (1, s1)" if "9 \<le> k"
  proof -
    have "begun W name every h s 9 = s1" "pc_after (symbol_after W (search s)) h 9 = Returned 1"
      using that by (simp_all add: s1_def begun_def pc_after_def)
    then show ?thesis
      using alone [of 9] undisturbed_start [OF assms(2), of handle name True W s] kl
      by (cases "init_sys_call_table_integrity_checker W (Some name) every True s") auto
  qed
  moreover have "race handle name every True (xs @ [Module W MODULE_STATE_LIVE False m]) (Arm_timer, s) = Inl Null_call"
    if "2 \<le> k" "k < 9"
    using live_begun [OF assms(1) that] run by (simp add: race_append s1_def)
  ultimately show ?thesis unfolding k_def by blast
qed

text \<open>One tick right after the fifth step, with the table as it always was.\<close>

theorem start_race_witness:
  "\<exists>c. race (\<lambda>_. Inr) ''c'' 1000 True (replicate 5 (Start (example_world kernel_entry)) @ [Tick (example_world kernel_entry)])
     (Arm_timer, idle_checker) = Inr c \<and> klog (snd c) = [modified_line []] \<and>
   race (\<lambda>_. Inr) ''c'' 1000 True (replicate 5 (Start (example_world kernel_entry)) @ [Tick (example_world kernel_entry),
     Module (example_world kernel_entry) MODULE_STATE_LIVE False ''m'']) (Arm_timer, idle_checker) = Inl Null_call"
proof -
  define W where "W = example_world kernel_entry"
  define xs where "xs = replicate 5 (Start W) @ [Tick W]"
  have "untouched idle_checker" "klog idle_checker = []"
    by (simp_all add: untouched_def idle_checker_def example_chrdev_def example_dumps_def chrdev_state.defs
        integrity_state.defs dump_state.defs)
  moreover have "steps_in xs = 5" by (simp add: xs_def steps_in_def)
  moreover have "lines_between ''c'' (0x4d5f413d :: 32 word) xs 0 = [modified_line []]"
  proof -
    have five: "replicate 5 (Start W) = [Start W, Start W, Start W, Start W, Start W]" by (simp add: numeral_eq_Suc)
    have "(0x4d5f413d :: 32 word) \<noteq> 0" "Suc (Suc (Suc (Suc (Suc 0)))) = 5" by simp_all
    then show ?thesis unfolding xs_def five by (simp add: tick_lines_def)
  qed
  moreover have "length (cstr ''c'') < MODULE_NAME_LEN" by (simp add: MODULE_NAME_LEN_def)
  moreover have "set xs \<subseteq> {Start W, Tick W}" by (auto simp: xs_def)
  ultimately show ?thesis
    using start_race [of idle_checker 1000 "''c''" xs W "0x4d5f413d" "\<lambda>_. Inr" "''m''"]
    by (auto simp: W_def example_symbols example_table xs_def)
qed

end
