(* ===== verification/Carbonite.thy ===== *)
theory Carbonite imports Integrity_Check begin

text \<open>
  The carbonite module itself (carbonite.c): the function that freezes the system and takes a
  snapshot of every process, and the start and the end of the module. A machine is what the kernel
  has at one moment: its memory and symbols, its processes, and the answers of the allocations that
  the snapshots need, by the process's place in the list. The settings are the module's parameters.
  What may happen after the start is the step relation at the end.
\<close>

definition NONE :: int where "NONE = - 1"
definition ECHARDEV :: int where "ECHARDEV = 200"
definition ETASKDUMP :: int where "ETASKDUMP = 300"
definition ESYSTABLE :: int where "ESYSTABLE = 400"
definition ELOGGER :: int where "ELOGGER = 500"

record machine =
  world_of :: world
  report_mask :: "32 word"
  tasks :: "task list"
  dump_ok :: "nat \<Rightarrow> bool"
  node_ok :: "nat \<Rightarrow> bool"
  garbage :: task_dump

record settings =
  check_interval :: "32 word"
  monitoring :: bool
  remote_log_ip :: "string option"
  stealth :: bool

text \<open>The answers of the kernel while the module starts.\<close>

record answers =
  major_of :: int
  name_ok :: bool
  data_ok :: bool
  proc_ok :: bool
  list_ok :: bool
  dump_proc_ok :: bool
  socket_ok :: bool
  queue_ok :: bool

record carbonite_state = integrity_state +
  previous_reason :: int
  in_module_list :: bool
  has_exit :: bool

section \<open>The freeze\<close>

definition print_dispatch_reason ::
  "(nat \<Rightarrow> log_env) \<Rightarrow> int \<Rightarrow> 'a logger_state_scheme \<Rightarrow> 'a logger_state_scheme run" where
  "print_dispatch_reason E why s =
     (if why = AFTER_INCIDENT
      then print_log E KERN_INFO (logger_line ''[+] Triggering carbonite after detected incident'') s
      else if why = AFTER_MODULE_INIT
      then print_log E KERN_INFO (logger_line ''[+] Triggering carbonite after module initialization'') s
      else if why = ON_DEMAND
      then print_log E KERN_INFO (logger_line ''[+] Triggering carbonite from trigger-carbonite'') s
      else print_log E KERN_ERR (logger_line ''[-] Unknown reason of carbonite dispatch'') s)"

fun dump_tasks :: "machine \<Rightarrow> nat \<Rightarrow> task list \<Rightarrow> 'a dump_state_scheme \<Rightarrow> 'a dump_state_scheme run" where
  "dump_tasks M i [] s = Inr s"
| "dump_tasks M i (t # ts) s =
     run_bind (dump_task (report_mask M) (dump_ok M i) (node_ok M i) (garbage M) (Some t) s) (\<lambda>(ret, s).
     run_bind
       (if ret = 0
        then print_log (log_envs (world_of M)) KERN_ERR
               (logger_line (''[-] Failed to dump '' @ cstr (task_comm t) @ '' task with PID '' @ fmt_d (task_pid t))) s
        else Inr s)
       (dump_tasks M (Suc i) ts))"

definition carbonite :: "machine \<Rightarrow> int \<Rightarrow> carbonite_state \<Rightarrow> carbonite_state run" where
  "carbonite M why s =
     (if previous_reason s = AFTER_MODULE_INIT \<and> why = AFTER_INCIDENT
      then Inr (s\<lparr>previous_reason := why\<rparr>)
      else
        run_bind (print_dispatch_reason (log_envs (world_of M)) why s) (\<lambda>s.
        run_bind (dump_tasks M 0 (tasks M) s) (\<lambda>s.
        Inr (s\<lparr>previous_reason := why\<rparr>))))"

section \<open>The start and the end of the module\<close>

text \<open>One part of the start: what it reports, and what follows when it succeeded.\<close>

definition stage ::
  "(nat \<Rightarrow> log_env) \<Rightarrow> string \<Rightarrow> string \<Rightarrow> int \<Rightarrow> (carbonite_state \<Rightarrow> (int \<times> carbonite_state) run) \<Rightarrow>
   int \<times> carbonite_state \<Rightarrow> (int \<times> carbonite_state) run" where
  "stage E good bad err rest r =
     (case r of (ret, s) \<Rightarrow>
        if ret \<noteq> 0 then run_bind (print_log E KERN_INFO (logger_line good) s) rest
        else run_bind (print_log E KERN_ERR (logger_line bad) s) (\<lambda>s. Inr (- err, s)))"

definition hide :: "(nat \<Rightarrow> log_env) \<Rightarrow> settings \<Rightarrow> carbonite_state \<Rightarrow> (int \<times> carbonite_state) run" where
  "hide E P s =
     run_bind
       (if stealth P
        then print_log E KERN_INFO (logger_line ''[+] Stealth mode is enabled'') (s\<lparr>in_module_list := False, has_exit := False\<rparr>)
        else print_log E KERN_INFO (logger_line ''[-] Stealth mode is not enabled'') s)
       (\<lambda>s. Inr (0, s))"

definition start_logger ::
  "(nat \<Rightarrow> log_env) \<Rightarrow> settings \<Rightarrow> answers \<Rightarrow> carbonite_state \<Rightarrow> (int \<times> carbonite_state) run" where
  "start_logger E P A s =
     stage E ''[+] Initiliazed logger'' ''[-] Failed to initialize logger'' ELOGGER (hide E P)
       (init_logger (socket_ok A) (queue_ok A) (remote_log_ip P) s)"

definition start_checker ::
  "machine \<Rightarrow> settings \<Rightarrow> answers \<Rightarrow> carbonite_state \<Rightarrow> (int \<times> carbonite_state) run" where
  "start_checker M P A s =
     (let E = log_envs (world_of M) in
      if \<not> monitoring P
      then run_bind (print_log E KERN_INFO (logger_line ''[-] Skipping monitoring of the system call table'') s) (\<lambda>s. Inr (0, s))
      else
        run_bind (init_sys_call_table_integrity_checker (world_of M) (Some CARBONITE_NAME) (ucast (check_interval P)) True s)
          (stage E
            (''[+] Initialized timer for checking the integrity of the system call table (check interval: '' @
               fmt_d (uint (check_interval P)) @ '')'')
            ''[-] Failed to initialize system call table checker'' ESYSTABLE (start_logger E P A)))"

definition start_dumps ::
  "machine \<Rightarrow> settings \<Rightarrow> answers \<Rightarrow> carbonite_state \<Rightarrow> (int \<times> carbonite_state) run" where
  "start_dumps M P A s =
     (let E = log_envs (world_of M) in
      run_bind (init_task_dump (list_ok A) (dump_proc_ok A) s)
        (stage E ''[+] Initiliazed task_dump component'' ''[-] Failed to initialize task_dump component'' ETASKDUMP
          (start_checker M P A)))"

definition carbonite_init ::
  "machine \<Rightarrow> settings \<Rightarrow> answers \<Rightarrow> carbonite_state \<Rightarrow> (int \<times> carbonite_state) run" where
  "carbonite_init M P A s =
     (let E = log_envs (world_of M) in
      run_bind (print_log E KERN_INFO
        (CARBONITE_NAME @ '': Security extension for the linux kernel by Panos Sakkos <panos.sakkos@gmail.com>'' @ [CHR 0x0A]) s) (\<lambda>s.
      run_bind (print_log E KERN_INFO (logger_line ''[+] Initializing'') s) (\<lambda>s.
      run_bind (init_command_chrdev (major_of A) (name_ok A) (data_ok A) (proc_ok A) (Some CARBONITE_NAME) True s)
        (stage E ''[+] Initiliazed command character device'' ''[-] Failed to initialize command character device'' ECHARDEV
          (start_dumps M P A)))))"

definition carbonite_exit :: "machine \<Rightarrow> settings \<Rightarrow> carbonite_state \<Rightarrow> carbonite_state run" where
  "carbonite_exit M P s =
     run_bind (print_log (log_envs (world_of M)) KERN_INFO (logger_line ''[+] Exiting'') s) (\<lambda>s.
     run_bind (destroy_command_chrdev s) (\<lambda>s.
     run_bind (if monitoring P then destroy_sys_call_table_integrity_checker s else Inr s) (\<lambda>s.
     run_bind (destroy_task_dump s) (\<lambda>s.
     Inr (destroy_logger s)))))"

section \<open>What happens while the module is loaded\<close>

datatype carbonite_event =
    Timer machine
  | Module_event machine module_state bool string
  | Ioctl machine bool nat
  | Read machine "string \<Rightarrow> string" bool nat nat

text \<open>
  A read starts at the position p that the kernel's seq_file kept, or was told, with an empty buffer
  that has room for n records. An event that runs into a fault has no step.
\<close>

inductive carbonite_step :: "carbonite_state \<Rightarrow> carbonite_event \<Rightarrow> carbonite_state \<Rightarrow> bool" where
  timer: "timer_fires (carbonite M) (world_of M) s = Inr s' \<Longrightarrow> carbonite_step s (Timer M) s'"
| module: "notifier_registered s \<Longrightarrow>
    the_drip_dry_carbonite_module_event (carbonite M) (world_of M) st this_module name s = Inr s' \<Longrightarrow>
    carbonite_step s (Module_event M st this_module name) s'"
| ioctl: "command_ioctl (carbonite M) capable n s = Inr (ret, s') \<Longrightarrow> carbonite_step s (Ioctl M capable n) s'"
| read: "dump_proc_entry s \<Longrightarrow>
    seq_session (log_envs (world_of M)) convert kmalloc_ok n (s\<lparr>reader_pos := p, seq_buffer := []\<rparr>) = Inr s' \<Longrightarrow>
    carbonite_step s (Read M convert kmalloc_ok p n) s'"

inductive_cases timerE: "carbonite_step s (Timer M) s'"
inductive_cases moduleE: "carbonite_step s (Module_event M st this_module name) s'"
inductive_cases ioctlE: "carbonite_step s (Ioctl M capable n) s'"
inductive_cases readE: "carbonite_step s (Read M convert kmalloc_ok p n) s'"

inductive_simps timer_simp: "carbonite_step s (Timer M) s'"
inductive_simps ioctl_simp: "carbonite_step s (Ioctl M capable n) s'"

inductive carbonite_run :: "carbonite_state \<Rightarrow> carbonite_event list \<Rightarrow> carbonite_state \<Rightarrow> bool" where
  no_event: "carbonite_run s [] s"
| event: "carbonite_run s es s' \<Longrightarrow> carbonite_step s' e s'' \<Longrightarrow> carbonite_run s (es @ [e]) s''"

text \<open>What an event does is determined by the state and by what the kernel answers.\<close>

lemma step_deterministic: "carbonite_step s e s1 \<Longrightarrow> carbonite_step s e s2 \<Longrightarrow> s1 = s2"
  by (cases e) (auto elim!: timerE moduleE ioctlE readE)

section \<open>Taking the snapshots of all processes\<close>

definition good_machine :: "machine \<Rightarrow> bool" where
  "good_machine M \<longleftrightarrow> (\<forall>n. good_env (log_envs (world_of M) n)) \<and> length (dump_state (garbage M)) = MAX_STATE_LEN \<and>
     (\<forall>t \<in> set (tasks M). task_wf (report_mask M) t)"

definition texts :: "dump_heap \<Rightarrow> nat list \<Rightarrow> string list" where
  "texts h as = map (text_of h) (dumps_of h as)"

text \<open>The list l of the heap holds well-formed snapshots, each once, and the next address is free.\<close>

definition evidence :: "dump_heap \<Rightarrow> nat option \<Rightarrow> nat list \<Rightarrow> bool" where
  "evidence h l as \<longleftrightarrow> list_at h l as \<and> dump_heap_ok h \<and>
     (\<forall>d. Some d \<in> set (dumps_of h as) \<longrightarrow> (\<exists>x. fmlookup (dumps h) d = Some x \<and> dump_wf x)) \<and>
     distinct (filter (\<lambda>d. d \<noteq> None) (dumps_of h as))"

lemma evidence_owns: "evidence h l as \<Longrightarrow> owns_snapshots h as"
  by (auto simp: evidence_def owns_snapshots_def snapshots_def)

lemma evidence_fresh: "evidence h l as \<Longrightarrow> Some (next_free h) \<notin> set (dumps_of h as)"
  by (auto simp: evidence_def dump_heap_ok_def)

text \<open>More snapshots behind those that were there, none of which changed.\<close>

definition grown :: "dump_heap \<Rightarrow> nat list \<Rightarrow> dump_heap \<Rightarrow> nat list \<Rightarrow> bool" where
  "grown h as h' as' \<longleftrightarrow> (\<exists>ds. dumps_of h' as' = dumps_of h as @ ds) \<and>
     (\<forall>d x. fmlookup (dumps h) d = Some x \<longrightarrow> fmlookup (dumps h') d = Some x)"

lemma grown_refl: "grown h as h as"
  by (auto simp: grown_def)

lemma grown_trans: "grown h as h1 bs \<Longrightarrow> grown h1 bs h2 cs \<Longrightarrow> grown h as h2 cs"
  by (auto simp: grown_def)

lemma text_of_kept:
  assumes "evidence h l as" "\<And>d x. fmlookup (dumps h) d = Some x \<Longrightarrow> fmlookup (dumps h') d = Some x"
    and "d \<in> set (dumps_of h as)"
  shows "text_of h' d = text_of h d"
proof (cases d)
  case (Some e)
  then obtain x where "fmlookup (dumps h) e = Some x" using assms(1,3) by (auto simp: evidence_def)
  with assms(2) show ?thesis by (simp add: text_of_def Some)
qed (simp add: text_of_def)

lemma grown_texts:
  assumes "grown h as h' as'" "evidence h l as"
  shows "\<exists>ts. texts h' as' = texts h as @ ts"
proof -
  obtain ds where ds: "dumps_of h' as' = dumps_of h as @ ds" using assms(1) by (auto simp: grown_def)
  have "text_of h' d = text_of h d" if "d \<in> set (dumps_of h as)" for d
    using assms(1) by (intro text_of_kept [OF assms(2) _ that]) (simp add: grown_def)
  then show ?thesis by (simp add: texts_def ds)
qed

lemma dump_task_evidence:
  assumes "evidence (heap s) (dump_list s) as" "task_wf R t" "length (dump_state g) = MAX_STATE_LEN"
  shows "\<exists>ret h as'. dump_task R dok nok g (Some t) s = Inr (ret, s\<lparr>heap := h\<rparr>) \<and>
    evidence h (dump_list s) as' \<and> grown (heap s) as h as'"
proof -
  define h0 where "h0 = heap s"
  have l: "list_at h0 (dump_list s) as" "dump_heap_ok h0"
    using assms(1) by (simp_all add: evidence_def h0_def)
  obtain d h1 where d: "init_task_dump_from_task R dok g (Some t) h0 = Inr (d, h1)"
    "list_at h1 (dump_list s) as" "dump_heap_ok h1" "dumps_of h1 as = dumps_of h0 as"
    "\<forall>e x. fmlookup (dumps h0) e = Some x \<longrightarrow> fmlookup (dumps h1) e = Some x"
    "\<forall>e. d = Some e \<longrightarrow> (\<exists>x. fmlookup (dumps h1) e = Some x \<and> dump_wf x)"
    "d = None \<or> d = Some (next_free h0)"
  proof (cases dok)
    case True
    define h1 where "h1 = h0\<lparr>dumps := fmupd (next_free h0) (snapshot_of R t) (dumps h0), next_free := Suc (next_free h0)\<rparr>"
    have free: "fmlookup (dumps h0) (next_free h0) = None" using l(2) by (simp add: dump_heap_ok_def)
    show thesis
    proof (rule that [of "Some (next_free h0)" h1])
      show "init_task_dump_from_task R dok g (Some t) h0 = Inr (Some (next_free h0), h1)"
        using True init_dump_snapshot [OF assms(2,3), of h0] by (simp add: h1_def)
      show "list_at h1 (dump_list s) as" "dump_heap_ok h1" "dumps_of h1 as = dumps_of h0 as"
        using l by (simp_all add: h1_def list_at_alloc_dump dump_heap_ok_alloc)
      show "\<forall>e x. fmlookup (dumps h0) e = Some x \<longrightarrow> fmlookup (dumps h1) e = Some x"
        "\<forall>e. Some (next_free h0) = Some e \<longrightarrow> (\<exists>x. fmlookup (dumps h1) e = Some x \<and> dump_wf x)"
        using free snapshot_wf [OF assms(2)] by (auto simp: h1_def)
    qed simp
  next
    case False
    then show thesis using that [of None h0] l by (simp add: init_task_dump_from_task_def)
  qed
  have wf: "\<exists>x. fmlookup (dumps h1) e = Some x \<and> dump_wf x" if "Some e \<in> set (dumps_of h0 as @ [d])" for e
    using that d(5,6) assms(1) by (auto simp: evidence_def h0_def)
  have once: "distinct (filter (\<lambda>d. d \<noteq> None) (dumps_of h0 as @ [d]))"
    using d(7) evidence_fresh [OF assms(1)] assms(1) by (auto simp: evidence_def h0_def)
  obtain la where la: "dump_list s = Some la" using l by (auto simp: list_at_def)
  show ?thesis
  proof (cases nok)
    case True
    obtain h2 a where h2: "add_task_dump_to_list True (dump_list s) d h1 = Inr (1, h2)"
      "list_at h2 (dump_list s) (as @ [a])" "dumps_of h2 (as @ [a]) = dumps_of h1 as @ [d]" "dump_heap_ok h2" "dumps h2 = dumps h1"
      using add_task_dump_refines [OF d(2,3), of d] by blast
    then have "evidence h2 (dump_list s) (as @ [a])"
      using wf once d(4) by (simp add: evidence_def)
    moreover have "grown h0 as h2 (as @ [a])" using h2 d(4,5) by (simp add: grown_def)
    ultimately show ?thesis
      using d(1) h2(1) True by (auto simp: dump_task_def h0_def)
  next
    case False
    then have "add_task_dump_to_list nok (dump_list s) d h1 = Inr (0, h1)"
      by (simp add: add_task_dump_to_list_def init_task_dump_node_def la)
    moreover have "evidence h1 (dump_list s) as" using d(2-4) wf once by (simp add: evidence_def)
    moreover have "grown h0 as h1 as" using d(4,5) by (simp add: grown_def)
    ultimately show ?thesis using d(1) by (auto simp: dump_task_def h0_def)
  qed
qed

text \<open>What the freeze may change: the log, its queue and the heap.\<close>

definition freeze_frame :: "'a dump_state_scheme \<Rightarrow> 'a dump_state_scheme \<Rightarrow> bool" where
  "freeze_frame s s' \<longleftrightarrow> (\<exists>kl q h. s' = s\<lparr>klog := kl, queued := q, heap := h\<rparr>)"

lemma freeze_frameI: "s' = s\<lparr>klog := kl, queued := q, heap := h\<rparr> \<Longrightarrow> freeze_frame s s'"
  by (auto simp: freeze_frame_def)

lemma freeze_frame_trans: "freeze_frame s s1 \<Longrightarrow> freeze_frame s1 s2 \<Longrightarrow> freeze_frame s s2"
  unfolding freeze_frame_def by (elim exE, intro exI) simp

lemma freeze_frame_heap: "freeze_frame s (s\<lparr>heap := h\<rparr>)"
  by (rule freeze_frameI [where kl = "klog s" and q = "queued s" and h = h]) simp

lemma freeze_frame_refl: "freeze_frame s s"
  by (rule freeze_frameI [where kl = "klog s" and q = "queued s" and h = "heap s"]) simp

lemma freeze_queue_ready: "freeze_frame s s' \<Longrightarrow> queue_ready s' = queue_ready s"
  by (auto simp: freeze_frame_def)

lemma print_log_only_freeze: "print_log E lvl msg s = Inr s' \<Longrightarrow> freeze_frame s s' \<and> heap s' = heap s"
proof -
  assume "print_log E lvl msg s = Inr s'"
  then obtain kl q where "s' = s\<lparr>klog := kl, queued := q\<rparr>" using print_log_only by blast
  then show ?thesis by (intro conjI freeze_frameI [where kl = kl and q = q and h = "heap s"]) simp_all
qed

lemma print_log_freeze:
  assumes "\<And>n. good_env (E n)" "queue_ready s"
  shows "\<exists>s'. print_log E lvl txt s = Inr s' \<and> freeze_frame s s' \<and> heap s' = heap s"
  using print_log_frame [where E = E, OF assms, of lvl "txt"] print_log_only_freeze by blast

lemma print_dispatch_reason_freeze:
  assumes "\<And>n. good_env (E n)" "queue_ready s"
  shows "\<exists>s'. print_dispatch_reason E why s = Inr s' \<and> freeze_frame s s' \<and> heap s' = heap s"
  unfolding print_dispatch_reason_def by (auto intro!: print_log_freeze assms)

lemma freeze_frame_fields:
  "freeze_frame s s' \<Longrightarrow> dump_list s' = dump_list s \<and> seq_list s' = seq_list s \<and> dump_proc_entry s' = dump_proc_entry s \<and>
     loffs s' = loffs s \<and> next_loff s' = next_loff s \<and> reader_pos s' = reader_pos s \<and> seq_buffer s' = seq_buffer s"
  by (auto simp: freeze_frame_def)

text \<open>Whatever allocations fail, the list only grows, and no other part of the state changes.\<close>

lemma dump_tasks_after:
  assumes "length (dump_state (garbage M)) = MAX_STATE_LEN"
    and "\<forall>t \<in> set ts. task_wf (report_mask M) t" "evidence (heap s) (dump_list s) as" "dump_tasks M i ts s = Inr s'"
  shows "\<exists>as'. freeze_frame s s' \<and> evidence (heap s') (dump_list s) as' \<and> grown (heap s) as (heap s') as'"
  using assms(2-4)
proof (induction ts arbitrary: i s as)
  case Nil
  then show ?case by (auto simp: freeze_frame_refl grown_refl)
next
  case (Cons t ts)
  define msg where "msg = logger_line (''[-] Failed to dump '' @ cstr (task_comm t) @ '' task with PID '' @ fmt_d (task_pid t))"
  obtain ret h as1 where h: "dump_task (report_mask M) (dump_ok M i) (node_ok M i) (garbage M) (Some t) s =
      Inr (ret, s\<lparr>heap := h\<rparr>)" "evidence h (dump_list s) as1" "grown (heap s) as h as1"
    using dump_task_evidence [OF Cons.prems(2) _ assms(1)] Cons.prems(1) by (meson list.set_intros(1))
  obtain s1 where s1: "(if ret = 0 then print_log (log_envs (world_of M)) KERN_ERR msg (s\<lparr>heap := h\<rparr>) else Inr (s\<lparr>heap := h\<rparr>)) = Inr s1"
    "dump_tasks M (Suc i) ts s1 = Inr s'"
    using run_bind_eq_Inr [THEN iffD1, OF Cons.prems(3) [unfolded dump_tasks.simps h(1) run_bind_Inr prod.case msg_def [symmetric]]]
    by blast
  then have f: "freeze_frame (s\<lparr>heap := h\<rparr>) s1" "heap s1 = h"
    using print_log_only_freeze [of _ _ _ "s\<lparr>heap := h\<rparr>" s1] by (auto simp: freeze_frame_refl split: if_splits)
  then have l: "dump_list s1 = dump_list s" using freeze_frame_fields [OF f(1)] by simp
  obtain as2 where "freeze_frame s1 s'" "evidence (heap s') (dump_list s) as2" "grown h as1 (heap s') as2"
    using Cons.IH [OF _ _ s1(2), of as1] Cons.prems(1) h(2) f(2) l by auto
  moreover have "freeze_frame s s1" using freeze_frame_trans [OF freeze_frame_heap f(1)] .
  ultimately show ?case using h(3) freeze_frame_trans grown_trans by blast
qed

lemma dump_tasks_end:
  assumes "\<And>n. good_env (log_envs (world_of M) n)" "length (dump_state (garbage M)) = MAX_STATE_LEN"
    and "\<forall>t \<in> set ts. task_wf (report_mask M) t" "evidence (heap s) (dump_list s) as" "queue_ready s"
  shows "\<exists>s'. dump_tasks M i ts s = Inr s'"
  using assms(3-5)
proof (induction ts arbitrary: i s as)
  case (Cons t ts)
  define msg where "msg = logger_line (''[-] Failed to dump '' @ cstr (task_comm t) @ '' task with PID '' @ fmt_d (task_pid t))"
  obtain ret h as1 where h: "dump_task (report_mask M) (dump_ok M i) (node_ok M i) (garbage M) (Some t) s =
      Inr (ret, s\<lparr>heap := h\<rparr>)" "evidence h (dump_list s) as1"
    using dump_task_evidence [OF Cons.prems(2) _ assms(2)] Cons.prems(1) by (meson list.set_intros(1))
  obtain s1 where s1: "(if ret = 0 then print_log (log_envs (world_of M)) KERN_ERR msg (s\<lparr>heap := h\<rparr>) else Inr (s\<lparr>heap := h\<rparr>)) = Inr s1"
    "freeze_frame (s\<lparr>heap := h\<rparr>) s1" "heap s1 = h"
    using print_log_freeze [where E = "log_envs (world_of M)" and s = "s\<lparr>heap := h\<rparr>", OF assms(1)] Cons.prems(3)
      freeze_frame_refl [of "s\<lparr>heap := h\<rparr>"] by (cases "ret = 0") fastforce+
  then have "dump_list s1 = dump_list s" "queue_ready s1"
    using freeze_frame_fields [OF s1(2)] freeze_queue_ready [OF s1(2)] Cons.prems(3) by simp_all
  then show ?case
    using Cons.IH [of s1 as1 "Suc i"] Cons.prems(1) h s1 by (auto simp: msg_def)
qed simp

text \<open>If every allocation succeeds, the new lines are those of the processes, in their order.\<close>

lemma dump_tasks_texts:
  assumes "\<forall>i. dump_ok M i \<and> node_ok M i" "length (dump_state (garbage M)) = MAX_STATE_LEN"
    and "\<forall>t \<in> set ts. task_wf (report_mask M) t" "evidence (heap s) (dump_list s) as"
  shows "\<exists>h as'. dump_tasks M i ts s = Inr (s\<lparr>heap := h\<rparr>) \<and> evidence h (dump_list s) as' \<and>
    texts h as' = texts (heap s) as @ map (\<lambda>t. dump_text (snapshot_of (report_mask M) t)) ts \<and>
    (\<forall>d x. fmlookup (dumps h) d = Some x \<longrightarrow> fmlookup (dumps (heap s)) d = Some x \<or>
       (\<exists>t \<in> set ts. x = snapshot_of (report_mask M) t)) \<and> beyond h as' = beyond (heap s) as"
  using assms(3,4)
proof (induction ts arbitrary: i s as)
  case Nil
  then show ?case by (intro exI [of _ "heap s"] exI [of _ as]) simp
next
  case (Cons t ts)
  define R where "R = report_mask M"
  define a where "a = next_free (heap s)"
  have t: "task_wf R t" using Cons.prems(1) by (simp add: R_def)
  obtain h b where h: "dump_task R True True (garbage M) (Some t) s = Inr (1, s\<lparr>heap := h\<rparr>)"
    "list_at h (dump_list s) (as @ [b])" "dumps_of h (as @ [b]) = dumps_of (heap s) as @ [Some a]" "dump_heap_ok h"
    "dumps h = fmupd a (snapshot_of R t) (dumps (heap s))" "beyond h (as @ [b]) = beyond (heap s) as"
    using dump_task_run [OF _ _ t assms(2), of s as] Cons.prems(2) by (auto simp: evidence_def a_def)
  have free: "fmlookup (dumps (heap s)) a = None"
    using Cons.prems(2) by (simp add: evidence_def dump_heap_ok_def a_def)
  have ev: "evidence h (dump_list s) (as @ [b])"
    using h(2-5) Cons.prems(2) snapshot_wf [OF t] free evidence_fresh [OF Cons.prems(2)] by (auto simp: evidence_def a_def)
  have "text_of h d = text_of (heap s) d" if "d \<in> set (dumps_of (heap s) as)" for d
    using free h(5) by (intro text_of_kept [OF Cons.prems(2) _ that]) auto
  then have tx: "texts h (as @ [b]) = texts (heap s) as @ [dump_text (snapshot_of R t)]"
    by (simp add: texts_def h(3)) (simp add: text_of_def h(5))
  obtain h2 as2 where h2: "dump_tasks M (Suc i) ts (s\<lparr>heap := h\<rparr>) = Inr (s\<lparr>heap := h2\<rparr>)" "evidence h2 (dump_list s) as2"
    "texts h2 as2 = texts h (as @ [b]) @ map (\<lambda>t. dump_text (snapshot_of R t)) ts"
    "\<And>d x. fmlookup (dumps h2) d = Some x \<Longrightarrow> fmlookup (dumps h) d = Some x \<or> (\<exists>t \<in> set ts. x = snapshot_of R t)"
    "beyond h2 as2 = beyond h (as @ [b])"
    using Cons.IH [of "s\<lparr>heap := h\<rparr>" "as @ [b]" "Suc i"] Cons.prems(1) ev by (auto simp: R_def)
  have "\<forall>d x. fmlookup (dumps h2) d = Some x \<longrightarrow> fmlookup (dumps (heap s)) d = Some x \<or>
      (\<exists>u \<in> set (t # ts). x = snapshot_of R u)"
    using h2(4) h(5) by (fastforce split: if_splits)
  moreover have "dump_tasks M i (t # ts) s = Inr (s\<lparr>heap := h2\<rparr>)"
    using h(1) h2(1) assms(1) by (simp add: R_def)
  ultimately show ?case
    using h2(2,3,5) h(6) tx by (intro exI [of _ h2] exI [of _ as2]) (simp add: R_def)
qed

lemma print_dispatch_only: "print_dispatch_reason E why s = Inr s' \<Longrightarrow> freeze_frame s s' \<and> heap s' = heap s"
  by (auto simp: print_dispatch_reason_def dest: print_log_only_freeze split: if_splits)

lemma carbonite_after:
  assumes "good_machine M" "evidence (heap s) (dump_list s) as" "carbonite M why s = Inr s'"
  shows "\<exists>s1 as'. s' = s1\<lparr>previous_reason := why\<rparr> \<and> freeze_frame s s1 \<and>
    evidence (heap s1) (dump_list s) as' \<and> grown (heap s) as (heap s1) as'"
proof (cases "previous_reason s = AFTER_MODULE_INIT \<and> why = AFTER_INCIDENT")
  case True
  then show ?thesis
    using assms(2,3) by (intro exI [of _ s] exI [of _ as]) (simp add: carbonite_def freeze_frame_refl grown_refl)
next
  case False
  then obtain s1 s2 where s: "print_dispatch_reason (log_envs (world_of M)) why s = Inr s1"
    "dump_tasks M 0 (tasks M) s1 = Inr s2" "s' = s2\<lparr>previous_reason := why\<rparr>"
    using assms(3) by (auto simp: carbonite_def run_bind_eq_Inr)
  have f: "freeze_frame s s1" "heap s1 = heap s" using print_dispatch_only [OF s(1)] by simp_all
  then have l: "dump_list s1 = dump_list s" using freeze_frame_fields by blast
  obtain as2 where "freeze_frame s1 s2" "evidence (heap s2) (dump_list s) as2" "grown (heap s) as (heap s2) as2"
    using dump_tasks_after [OF _ _ _ s(2), of as] assms(1,2) f(2) l by (auto simp: good_machine_def)
  then show ?thesis using s(3) freeze_frame_trans [OF f(1)] by blast
qed

lemma carbonite_run:
  assumes "good_machine M" "evidence (heap s) (dump_list s) as" "queue_ready s"
  shows "\<exists>s' as' . carbonite M why s = Inr (s'\<lparr>previous_reason := why\<rparr>) \<and> freeze_frame s s' \<and>
    evidence (heap s') (dump_list s) as' \<and> grown (heap s) as (heap s') as'"
proof -
  have E: "good_env (log_envs (world_of M) n)" for n using assms(1) by (simp add: good_machine_def)
  obtain s1 where s1: "print_dispatch_reason (log_envs (world_of M)) why s = Inr s1" "freeze_frame s s1" "heap s1 = heap s"
    using print_dispatch_reason_freeze [where E = "log_envs (world_of M)", OF E assms(3)] by blast
  then have "dump_list s1 = dump_list s" "queue_ready s1"
    using freeze_frame_fields [OF s1(2)] freeze_queue_ready [OF s1(2)] assms(3) by simp_all
  then obtain s2 where "dump_tasks M 0 (tasks M) s1 = Inr s2"
    using dump_tasks_end [of M "tasks M" s1 as 0] assms(1,2) s1(3) E by (auto simp: good_machine_def)
  then have "\<exists>s'. carbonite M why s = Inr s'" using s1(1) by (simp add: carbonite_def)
  then show ?thesis using carbonite_after [OF assms(1,2)] by metis
qed

section \<open>carbonite as the handler of incidents\<close>

lemma dump_task_only: "dump_task R d n g t s = Inr (ret, s') \<Longrightarrow> freeze_frame s s'"
  by (auto simp: dump_task_def run_bind_eq_Inr freeze_frame_heap)

lemma dump_tasks_only: "dump_tasks M i ts s = Inr s' \<Longrightarrow> freeze_frame s s'"
proof (induction ts arbitrary: i s)
  case (Cons t ts)
  define msg where "msg = logger_line (''[-] Failed to dump '' @ cstr (task_comm t) @ '' task with PID '' @ fmt_d (task_pid t))"
  obtain r where r: "dump_task (report_mask M) (dump_ok M i) (node_ok M i) (garbage M) (Some t) s = Inr r"
    "(case r of (ret, s) \<Rightarrow>
       run_bind (if ret = 0 then print_log (log_envs (world_of M)) KERN_ERR msg s else Inr s) (dump_tasks M (Suc i) ts)) = Inr s'"
    using run_bind_eq_Inr [THEN iffD1, OF Cons.prems [unfolded dump_tasks.simps]] unfolding msg_def by blast
  obtain ret s1 where "r = (ret, s1)" by (cases r)
  with r have s1: "dump_task (report_mask M) (dump_ok M i) (node_ok M i) (garbage M) (Some t) s = Inr (ret, s1)"
    "run_bind (if ret = 0 then print_log (log_envs (world_of M)) KERN_ERR msg s1 else Inr s1) (dump_tasks M (Suc i) ts) = Inr s'"
    by simp_all
  then obtain s2 where s2: "(if ret = 0 then print_log (log_envs (world_of M)) KERN_ERR msg s1 else Inr s1) = Inr s2"
    "dump_tasks M (Suc i) ts s2 = Inr s'"
    unfolding run_bind_eq_Inr by blast
  have "freeze_frame s1 s2"
    using s2(1) by (cases "ret = 0") (auto simp: freeze_frame_refl dest: print_log_only_freeze)
  with s1(1) s2(2) have s: "dump_task (report_mask M) (dump_ok M i) (node_ok M i) (garbage M) (Some t) s = Inr (ret, s1)"
    "freeze_frame s1 s2" "dump_tasks M (Suc i) ts s2 = Inr s'"
    by simp_all
  show ?case
    using freeze_frame_trans [OF dump_task_only [OF s(1)] freeze_frame_trans [OF s(2) Cons.IH [OF s(3)]]] .
qed (simp add: freeze_frame_refl)

lemma carbonite_only:
  assumes "carbonite M why s = Inr s'"
  shows "\<exists>s1. freeze_frame s s1 \<and> s' = s1\<lparr>previous_reason := why\<rparr>"
proof (cases "previous_reason s = AFTER_MODULE_INIT \<and> why = AFTER_INCIDENT")
  case True
  then show ?thesis using assms freeze_frame_refl [of s] by (auto simp: carbonite_def)
next
  case False
  then obtain s1 s2 where s: "print_dispatch_reason (log_envs (world_of M)) why s = Inr s1"
    "dump_tasks M 0 (tasks M) s1 = Inr s2" "s' = s2\<lparr>previous_reason := why\<rparr>"
    using assms by (auto simp: carbonite_def run_bind_eq_Inr)
  have "freeze_frame s s1"
    using print_dispatch_only [OF s(1)] by simp
  with s(2,3) show ?thesis using dump_tasks_only freeze_frame_trans by blast
qed

lemma freeze_checker_vars: "freeze_frame s s' \<Longrightarrow> checker_vars s' = checker_vars s"
  by (auto simp: freeze_frame_def checker_vars_def)

lemma checker_vars_reason [simp]: "checker_vars (s\<lparr>previous_reason := r\<rparr>) = checker_vars s"
  by (simp add: checker_vars_def)

interpretation carbonite_handler: incident_handling "carbonite M" for M
proof
  fix why s s'
  assume "carbonite M why s = Inr s'"
  then obtain s1 where "freeze_frame s s1" "s' = s1\<lparr>previous_reason := why\<rparr>" using carbonite_only by blast
  then show "checker_vars s' = checker_vars s" by (simp add: freeze_checker_vars)
qed

text \<open>Every allocation succeeds, and what is dumped are the processes of the machine.\<close>

definition plentiful :: "machine \<Rightarrow> bool" where
  "plentiful M \<longleftrightarrow> good_machine M \<and> (\<forall>i. dump_ok M i \<and> node_ok M i)"

definition process_lines :: "machine \<Rightarrow> string list" where
  "process_lines M = map (\<lambda>t. dump_text (snapshot_of (report_mask M) t)) (tasks M)"

lemma carbonite_texts:
  assumes "plentiful M" "evidence (heap s) (dump_list s) as" "\<not> (previous_reason s = AFTER_MODULE_INIT \<and> why = AFTER_INCIDENT)"
    and "queue_ready s"
  shows "\<exists>s' as'. carbonite M why s = Inr (s'\<lparr>previous_reason := why\<rparr>) \<and> freeze_frame s s' \<and>
    evidence (heap s') (dump_list s) as' \<and> texts (heap s') as' = texts (heap s) as @ process_lines M \<and>
    (\<forall>d x. fmlookup (dumps (heap s')) d = Some x \<longrightarrow> fmlookup (dumps (heap s)) d = Some x \<or>
       (\<exists>t \<in> set (tasks M). x = snapshot_of (report_mask M) t)) \<and> beyond (heap s') as' = beyond (heap s) as"
proof -
  have E: "good_env (log_envs (world_of M) n)" for n using assms(1) by (simp add: plentiful_def good_machine_def)
  obtain s1 where s1: "print_dispatch_reason (log_envs (world_of M)) why s = Inr s1" "freeze_frame s s1" "heap s1 = heap s"
    using print_dispatch_reason_freeze [where E = "log_envs (world_of M)", OF E assms(4)] by blast
  then have "dump_list s1 = dump_list s" using freeze_frame_fields by metis
  then obtain h as2 where h: "dump_tasks M 0 (tasks M) s1 = Inr (s1\<lparr>heap := h\<rparr>)" "evidence h (dump_list s) as2"
    "texts h as2 = texts (heap s) as @ process_lines M"
    "\<forall>d x. fmlookup (dumps h) d = Some x \<longrightarrow> fmlookup (dumps (heap s)) d = Some x \<or>
       (\<exists>t \<in> set (tasks M). x = snapshot_of (report_mask M) t)" "beyond h as2 = beyond (heap s) as"
    using dump_tasks_texts [of M "tasks M" s1 as 0] assms s1(3)
    by (auto simp: plentiful_def good_machine_def process_lines_def)
  show ?thesis
    using s1 h assms(3) freeze_frame_trans [OF s1(2) freeze_frame_heap [of s1 h]]
    by (intro exI [of _ "s1\<lparr>heap := h\<rparr>"] exI [of _ as2]) (auto simp: carbonite_def)
qed

section \<open>A command, then a look at the result\<close>

lemma evidence_printable:
  assumes "evidence h l as" "\<And>d x. fmlookup (dumps h) d = Some x \<Longrightarrow> no_conversion x"
  shows "printable h as"
  using assms unfolding evidence_def printable_def by blast

lemma texts_length: "length (texts h as) = length as"
  by (simp add: texts_def dumps_of_def)

lemma lines_texts: "as \<noteq> [] \<Longrightarrow> lines_of h as = header_line # texts h as"
  by (simp add: lines_of_def texts_def)

text \<open>
  When an administrator triggers carbonite and every allocation succeeds, reading the proc file
  then shows the header, the snapshots that were there before, and one line for each process of the
  moment, in the order of the kernel's process list, with its pid, uid, gid, state, name and start
  time. A remote logger has its work queue.
\<close>

theorem trigger_then_read:
  assumes "plentiful M" "\<forall>t \<in> set (tasks M). CHR ''%'' \<notin> set (cstr (task_comm t))" "tasks M \<noteq> []"
    and "evidence (heap s) (dump_list s) as" "\<forall>d x. fmlookup (dumps (heap s)) d = Some x \<longrightarrow> no_conversion x"
    and "command s" "seq_list s = dump_list s" "reader_pos s = 0" "fmlookup (loffs s) (next_loff s) = None"
    and "queue_ready s"
  shows "\<exists>s1 s2. command_ioctl (carbonite M) True IOCTL_CARBONITE_COMMAND s = Inr (0, s1) \<and>
    seq_session (log_envs (world_of M)) convert True n s1 = Inr s2 \<and>
    seq_buffer s2 = seq_buffer s @ concat (take n (header_line # texts (heap s) as @ process_lines M))"
proof -
  have E: "good_env (log_envs (world_of M) n)" for n using assms(1) by (simp add: plentiful_def good_machine_def)
  have "ON_DEMAND \<noteq> AFTER_INCIDENT" by (simp add: ON_DEMAND_def AFTER_INCIDENT_def)
  then obtain s' bs where s': "carbonite M ON_DEMAND s = Inr (s'\<lparr>previous_reason := ON_DEMAND\<rparr>)" "freeze_frame s s'"
    "evidence (heap s') (dump_list s) bs" "texts (heap s') bs = texts (heap s) as @ process_lines M"
    "\<forall>d x. fmlookup (dumps (heap s')) d = Some x \<longrightarrow> fmlookup (dumps (heap s)) d = Some x \<or>
       (\<exists>t \<in> set (tasks M). x = snapshot_of (report_mask M) t)"
    using carbonite_texts [OF assms(1,4), of ON_DEMAND] assms(10) by auto
  define s1 where "s1 = s'\<lparr>previous_reason := ON_DEMAND\<rparr>"
  have f: "heap s1 = heap s'" "seq_list s1 = dump_list s" "reader_pos s1 = 0" "loffs s1 = loffs s"
    "next_loff s1 = next_loff s" "seq_buffer s1 = seq_buffer s" "queue_ready s1"
    using freeze_frame_fields [OF s'(2)] freeze_queue_ready [OF s'(2)] assms(7,8,10) by (simp_all add: s1_def queue_ready_def)
  have "no_conversion (snapshot_of (report_mask M) t)" if "t \<in> set (tasks M)" for t
    using that assms(1,2) snapshot_name [of "report_mask M" t]
    by (simp add: no_conversion_def plentiful_def good_machine_def)
  then have "printable (heap s') bs"
    using evidence_printable [OF s'(3)] s'(5) assms(5) by blast
  moreover have "list_at (heap s') (dump_list s) bs" using s'(3) by (simp add: evidence_def)
  moreover have "bs \<noteq> []"
    using arg_cong [OF s'(4), of length] assms(3) by (auto simp: texts_length process_lines_def)
  ultimately obtain s2 where "seq_session (log_envs (world_of M)) convert True n s1 = Inr s2"
    "seq_buffer s2 = seq_buffer s @ concat (take n (header_line # texts (heap s') bs))"
    using fresh_read_run [where E = "log_envs (world_of M)" and s = s1 and as = bs, OF E] f assms(9)
    by (auto simp: lines_texts)
  moreover have "command_ioctl (carbonite M) True IOCTL_CARBONITE_COMMAND s = Inr (0, s1)"
    using s'(1) assms(6) by (simp add: command_ioctl_def s1_def)
  ultimately show ?thesis using s'(4) by auto
qed

section \<open>What an incident does\<close>

lemma freeze_frame_checker:
  "freeze_frame s s' \<Longrightarrow> incident_handler s' = incident_handler s \<and> timer_pending s' = timer_pending s \<and>
     notifier_registered s' = notifier_registered s"
  by (auto simp: freeze_frame_def)

text \<open>
  C9: When the timer finds the table changed, carbonite takes its snapshots, except when the last
  reason for a dump was the start of a module: then nothing is dumped. In both cases the handler is
  cleared, so that later ticks, whatever the table looks like, never dump again, and the next module
  that goes live makes the notifier call a NULL pointer. (Allocations succeed, the memory of the table can
  be read at every tick, and a remote logger has its work queue, as after every start that succeeded.)
\<close>

theorem incident_response:
  assumes "plentiful M" "evidence (heap s) (dump_list s) as" "ticking s" "incident_handler s"
    and "readable s W" "\<not> unchanged s W" "\<forall>V \<in> set Ws. readable s V" "queue_ready s"
  shows "\<exists>s' as'. run_ticks (carbonite M) (W # Ws) s = Inr s' \<and> evidence (heap s') (dump_list s) as' \<and>
    texts (heap s') as' = texts (heap s) as @ (if previous_reason s = AFTER_MODULE_INIT then [] else process_lines M) \<and>
    timer_pending s' \<and> \<not> incident_handler s' \<and>
    the_drip_dry_carbonite_module_event (carbonite M) W MODULE_STATE_LIVE False name s' = Inl Null_call"
proof -
  define s0 where "s0 = printk (modified_line (cstr (checking_module s))) (s\<lparr>timer_pending := False\<rparr>)"
  have s0: "heap s0 = heap s" "dump_list s0 = dump_list s" "previous_reason s0 = previous_reason s" "queue_ready s0 = queue_ready s"
    by (simp_all add: s0_def printk_def queue_ready_def)
  obtain s1 bs where s1: "carbonite M AFTER_INCIDENT s0 = Inr s1" "evidence (heap s1) (dump_list s) bs"
    "texts (heap s1) bs = texts (heap s) as @ (if previous_reason s = AFTER_MODULE_INIT then [] else process_lines M)"
  proof (cases "previous_reason s = AFTER_MODULE_INIT")
    case True
    then show thesis
      using that [of "s0\<lparr>previous_reason := AFTER_INCIDENT\<rparr>" as] assms(2) s0 by (simp add: carbonite_def)
  next
    case False
    then obtain s' bs where "carbonite M AFTER_INCIDENT s0 = Inr (s'\<lparr>previous_reason := AFTER_INCIDENT\<rparr>)"
      "evidence (heap s') (dump_list s) bs" "texts (heap s') bs = texts (heap s) as @ process_lines M"
      using carbonite_texts [OF assms(1), of s0 as AFTER_INCIDENT] assms(2,8) s0 by auto
    then show thesis using that [of "s'\<lparr>previous_reason := AFTER_INCIDENT\<rparr>" bs] False by simp
  qed
  obtain lines where "run_ticks (carbonite M) (W # Ws) s =
      Inr (s1\<lparr>incident_handler := False, timer_pending := True, klog := klog s1 @ lines\<rparr>)"
    using carbonite_handler.ticks_incident [OF assms(3-6) s1(1) [unfolded s0_def]] assms(7) by blast
  then show ?thesis
    using s1(2,3) by (intro exI) (auto simp: the_drip_dry_carbonite_module_event_def)
qed

lemma run_ticks_append: "run_ticks handle (Us @ Vs) s = run_bind (run_ticks handle Us s) (run_ticks handle Vs)"
  by (induction Us arbitrary: s) (auto simp: run_bind_assoc intro!: run_bind_cong)

lemma keeps_ticking:
  assumes "good_machine M" "evidence (heap s) (dump_list s) as" "ticking s" "\<forall>W \<in> set Ws. readable s W"
    and "queue_ready s"
  shows "\<exists>s'. run_ticks (carbonite M) Ws s = Inr s' \<and> ticking s'"
proof (cases "\<not> incident_handler s \<or> (\<forall>W \<in> set Ws. unchanged s W)")
  case True
  then obtain lines where "run_ticks (carbonite M) Ws s = Inr (s\<lparr>klog := klog s @ lines\<rparr>)"
    using ticks_quiet [OF assms(3), of Ws "carbonite M"] assms(4) by auto
  then show ?thesis using assms(3) by simp
next
  case False
  then obtain Us W Vs where Ws: "Ws = Us @ W # Vs" "\<not> unchanged s W" "\<forall>U \<in> set Us. unchanged s U"
    using split_list_first_prop [of Ws "\<lambda>W. \<not> unchanged s W"] by auto
  obtain lines where u: "run_ticks (carbonite M) Us s = Inr (s\<lparr>klog := klog s @ lines\<rparr>)"
    using ticks_quiet [OF assms(3), of Us "carbonite M"] Ws assms(4) by auto
  define s1 where "s1 = s\<lparr>klog := klog s @ lines\<rparr>"
  define s2 where "s2 = printk (modified_line (cstr (checking_module s1))) (s1\<lparr>timer_pending := False\<rparr>)"
  have "evidence (heap s2) (dump_list s2) as" using assms(2) by (simp add: s2_def s1_def printk_def)
  moreover have "queue_ready s2" using assms(5) by (simp add: s2_def s1_def queue_ready_def printk_def)
  ultimately obtain s3 where s3: "carbonite M AFTER_INCIDENT s2 = Inr s3" using carbonite_run [OF assms(1)] by blast
  have t: "ticking s1" "incident_handler s1" "readable s1 W" "\<not> unchanged s1 W" "\<forall>V \<in> set Vs. readable s1 V"
    using assms(3,4) False Ws by (auto simp: s1_def)
  obtain more where "run_ticks (carbonite M) (W # Vs) s1 =
      Inr (s3\<lparr>incident_handler := False, timer_pending := True, klog := klog s3 @ more\<rparr>)"
    using carbonite_handler.ticks_incident [OF t(1-4) s3 [unfolded s2_def]] t(5) by blast
  moreover have "ticking (s3\<lparr>incident_handler := False, timer_pending := True, klog := klog s3 @ more\<rparr>)"
    using carbonite_handler.keeps [OF s3] t(1) by (simp add: ticking_def checker_vars_def s2_def printk_def)
  ultimately show ?thesis using u Ws(1) by (simp add: run_ticks_append s1_def del: run_ticks.simps(2))
qed

text \<open>
  C20: The check never stops by itself: whatever the table looks like at the ticks, and however many
  of them there are, each tick ends without a fault and sets the timer up for the next one, as long as
  the memory of the table can be read and a remote logger has its work queue.
\<close>

theorem checker_keeps_ticking:
  assumes "good_machine M" "evidence (heap s) (dump_list s) as" "ticking s" "\<forall>W \<in> set Ws. readable s W"
    and "queue_ready s"
  shows "\<exists>s'. run_ticks (carbonite M) Ws s = Inr s' \<and> ticking s'"
  using assms by (rule keeps_ticking)

section \<open>No event loses a snapshot\<close>

definition heap_kept :: "'a dump_state_scheme \<Rightarrow> 'a dump_state_scheme \<Rightarrow> bool" where
  "heap_kept s s' \<longleftrightarrow> heap s' = heap s \<and> dump_list s' = dump_list s"

lemma heap_kept_trans: "heap_kept s s1 \<Longrightarrow> heap_kept s1 s2 \<Longrightarrow> heap_kept s s2"
  by (simp add: heap_kept_def)

lemma print_log_kept: "print_log E lvl msg s = Inr s' \<Longrightarrow> heap_kept s s'"
  by (drule print_log_only) (auto simp: heap_kept_def)

text \<open>What reading may change: the log, its queue, the text shown and the positions.\<close>

definition read_frame :: "'a dump_state_scheme \<Rightarrow> 'a dump_state_scheme \<Rightarrow> bool" where
  "read_frame s s' \<longleftrightarrow> (\<exists>kl q b l n p. s' = s\<lparr>klog := kl, queued := q, seq_buffer := b, loffs := l, next_loff := n, reader_pos := p\<rparr>)"

lemma read_frameI:
  "s' = s\<lparr>klog := klog s', queued := queued s', seq_buffer := seq_buffer s', loffs := loffs s', next_loff := next_loff s',
     reader_pos := reader_pos s'\<rparr> \<Longrightarrow> read_frame s s'"
  unfolding read_frame_def by blast

lemma read_frame_refl: "read_frame s s"
  by (rule read_frameI) simp

lemma read_frame_trans: "read_frame s s1 \<Longrightarrow> read_frame s1 s2 \<Longrightarrow> read_frame s s2"
  by (auto simp: read_frame_def) (metis read_frameI read_frame_def)

lemma print_log_read: "print_log E lvl msg s = Inr s' \<Longrightarrow> read_frame s s'"
  by (drule print_log_only) (auto intro!: read_frameI)

lemma show_line_read: "show_line E c t s = Inr s' \<Longrightarrow> read_frame s s'"
  by (auto simp: show_line_def run_bind_eq_Inr intro!: read_frameI dest!: print_log_only)

lemma show_read: "task_dump_seq_show E c v s = Inr s' \<Longrightarrow> read_frame s s'"
  by (auto simp: task_dump_seq_show_def run_bind_eq_Inr read_frame_refl split: if_splits dest!: show_line_read)

lemma next_read: "task_dump_seq_next v pos s = Inr (v', pos', s') \<Longrightarrow> read_frame s s'"
  by (cases v) (auto simp: task_dump_seq_next_def run_bind_eq_Inr read_frame_refl write_loff_def Let_def
      intro!: read_frameI split: if_splits)

lemma records_read: "seq_records E c n v pos s = Inr (v', s') \<Longrightarrow> read_frame s s'"
proof (induction E c n v pos s rule: seq_records.induct)
  case (3 E c n v pos s)
  obtain s1 where s1: "task_dump_seq_show E c v s = Inr s1"
    "run_bind (task_dump_seq_next v pos s1) (\<lambda>(v', pos', s). seq_records E c n v' pos' s) = Inr (v', s')"
    using run_bind_eq_Inr [THEN iffD1, OF "3.prems" [unfolded seq_records.simps]] by blast
  then obtain w p s2 where s2: "task_dump_seq_next v pos s1 = Inr (w, p, s2)" "seq_records E c n w p s2 = Inr (v', s')"
    by (auto simp: run_bind_eq_Inr)
  show ?case
    using show_read [OF s1(1)] next_read [OF s2(1)] "3.IH" [OF s1(1) s2(1) refl refl s2(2)] read_frame_trans by blast
qed (auto simp: read_frame_refl)

lemma session_read:
  assumes "seq_session E c k n s = Inr s'"
  shows "read_frame s s'"
proof -
  obtain v s1 w s2 where s: "task_dump_seq_start k s = Inr (v, s1)"
    "seq_records E c n v (reader_pos s1) s1 = Inr (w, s2)" "task_dump_seq_stop w s2 = Inr s'"
    using assms by (auto simp: seq_session_def run_bind_eq_Inr)
  have "read_frame s s1"
    using s(1) by (auto simp: task_dump_seq_start_def run_bind_eq_Inr read_frame_refl intro!: read_frameI split: if_splits)
  moreover have "read_frame s2 s'"
    using s(3) by (auto simp: task_dump_seq_stop_def read_frame_refl intro!: read_frameI split: option.splits loff_ptr.splits if_splits)
  ultimately show ?thesis using records_read [OF s(2)] read_frame_trans by blast
qed

lemma session_kept: "seq_session E c k n s = Inr s' \<Longrightarrow> heap_kept s s'"
  by (drule session_read) (auto simp: read_frame_def heap_kept_def)

primrec machine_of :: "carbonite_event \<Rightarrow> machine" where
  "machine_of (Timer M) = M"
| "machine_of (Module_event M st this_module name) = M"
| "machine_of (Ioctl M capable n) = M"
| "machine_of (Read M convert k p n) = M"

lemma carbonite_evidence:
  assumes "good_machine M" "evidence (heap s) (dump_list s) as" "carbonite M why s = Inr s'"
  shows "\<exists>as'. evidence (heap s') (dump_list s') as' \<and> grown (heap s) as (heap s') as' \<and> dump_list s' = dump_list s"
proof -
  obtain s1 as' where "s' = s1\<lparr>previous_reason := why\<rparr>" "freeze_frame s s1"
    "evidence (heap s1) (dump_list s) as'" "grown (heap s) as (heap s1) as'"
    using carbonite_after [OF assms] by blast
  then show ?thesis using freeze_frame_fields [of s s1] by auto
qed

lemma kept_evidence:
  "heap_kept s s' \<Longrightarrow> evidence (heap s) (dump_list s) as \<Longrightarrow>
   \<exists>as'. evidence (heap s') (dump_list s') as' \<and> grown (heap s) as (heap s') as' \<and> dump_list s' = dump_list s"
  by (auto simp: heap_kept_def grown_refl)

lemma register_timer_kept: "register_timer_interrupt s = Inr s' \<Longrightarrow> heap_kept s s'"
  by (cases "timer_interval s = 0") (auto simp: register_timer_interrupt_def heap_kept_def Let_def)

text \<open>The checker changes the heap only through its handler.\<close>

lemma timer_cases:
  assumes "timer_fires handle W s = Inr s'"
  shows "heap_kept s s' \<or> (\<exists>s0 s1. heap_kept s s0 \<and> handle AFTER_INCIDENT s0 = Inr s1 \<and> heap_kept s1 s')"
proof (cases "timer_pending s")
  case False
  then show ?thesis using assms by (simp add: timer_fires_def heap_kept_def)
next
  case True
  define s0 where "s0 = s\<lparr>timer_pending := False\<rparr>"
  obtain h n s2 where s2: "(if sys_call_table_hash s0 \<noteq> h then
          let s = printk (modified_line n) s0 in
          if incident_handler s
          then run_bind (handle AFTER_INCIDENT s) (\<lambda>s. Inr (s\<lparr>incident_handler := False\<rparr>))
          else Inr s
        else Inr (printk (unmodified_line n) s0)) = Inr s2" "register_timer_interrupt s2 = Inr s'"
    using assms True unfolding timer_fires_def sys_call_table_integrity_checker_def s0_def
    by (simp only: if_True) (auto simp only: run_bind_eq_Inr)
  have k: "heap_kept s (printk x s0)" for x by (simp add: heap_kept_def s0_def printk_def)
  have "heap_kept s s2 \<or> (\<exists>s1. handle AFTER_INCIDENT (printk (modified_line n) s0) = Inr s1 \<and> heap_kept s1 s2)"
    using s2(1) k by (auto simp: Let_def run_bind_eq_Inr heap_kept_def split: if_splits)
  then show ?thesis
    using register_timer_kept [OF s2(2)] k heap_kept_trans by blast
qed

lemma step_evidence:
  assumes "carbonite_step s e s'" "good_machine (machine_of e)" "evidence (heap s) (dump_list s) as"
  shows "\<exists>as'. evidence (heap s') (dump_list s') as' \<and> grown (heap s) as (heap s') as' \<and> dump_list s' = dump_list s"
  using assms
proof (induction rule: carbonite_step.induct)
  case (timer M s s')
  show ?case
    using timer_cases [OF timer(1)]
  proof
    assume "\<exists>s0 s1. heap_kept s s0 \<and> carbonite M AFTER_INCIDENT s0 = Inr s1 \<and> heap_kept s1 s'"
    then obtain s0 s1 where s: "heap_kept s s0" "carbonite M AFTER_INCIDENT s0 = Inr s1" "heap_kept s1 s'" by blast
    with timer show ?thesis
      using carbonite_evidence [of M s0 as AFTER_INCIDENT s1] by (auto simp: heap_kept_def)
  qed (use timer kept_evidence in blast)
next
  case (module s M st this_module name s')
  show ?case
  proof (cases "st = MODULE_STATE_LIVE \<and> \<not> this_module")
    case True
    then have "carbonite M AFTER_MODULE_INIT s = Inr s'"
      using module(2) by (auto simp: the_drip_dry_carbonite_module_event_def split: if_splits)
    then show ?thesis using carbonite_evidence module(3,4) by simp
  next
    case False
    then have "heap_kept s s'"
      using module(2) by (auto simp: the_drip_dry_carbonite_module_event_def run_bind_eq_Inr heap_kept_def
          split: module_state.splits dest!: print_log_kept)
    then show ?thesis using kept_evidence module(4) by blast
  qed
next
  case (ioctl M capable n s ret s')
  then have "carbonite M ON_DEMAND s = Inr s' \<or> heap_kept s s'"
    by (auto simp: command_ioctl_def run_bind_eq_Inr heap_kept_def printk_def split: if_splits)
  then show ?case using carbonite_evidence kept_evidence ioctl(2,3) by auto
next
  case (read s M convert k n p s')
  then have "heap_kept s s'" using session_kept [OF read(2)] by (simp add: heap_kept_def)
  then show ?case using kept_evidence read(4) by blast
qed

text \<open>
  C4: While the module is loaded, no sequence of timer ticks, module events, commands and reads, with
  whatever failures of the allocations, changes or removes a snapshot that was taken: the list stays
  well-formed, and its lines are a prefix of its lines later on.
\<close>

theorem snapshots_kept:
  assumes "carbonite_run s es s'" "\<forall>e \<in> set es. good_machine (machine_of e)" "evidence (heap s) (dump_list s) as"
  shows "\<exists>as' ts. evidence (heap s') (dump_list s') as' \<and> texts (heap s') as' = texts (heap s) as @ ts \<and>
    dump_list s' = dump_list s"
proof -
  have "\<exists>as'. evidence (heap s') (dump_list s') as' \<and> grown (heap s) as (heap s') as' \<and> dump_list s' = dump_list s"
    using assms
  proof (induction rule: carbonite_run.induct)
    case (no_event s)
    then show ?case using grown_refl by blast
  next
    case (event s es s' e s'')
    then obtain as' where "evidence (heap s') (dump_list s') as'" "grown (heap s) as (heap s') as'" "dump_list s' = dump_list s"
      by auto
    with step_evidence [OF event.hyps(2), of as'] event.prems(1) grown_trans show ?case by fastforce
  qed
  then show ?thesis using grown_texts assms(3) by blast
qed

section \<open>An example\<close>

definition example_machine :: "char list \<Rightarrow> machine" where
  "example_machine table = \<lparr>world_of = example_world table, report_mask = 63, tasks = [example_process],
     dump_ok = \<lambda>_. True, node_ok = \<lambda>_. True, garbage = example_dump\<rparr>"

definition armed :: "int \<Rightarrow> carbonite_state" where
  "armed reason = integrity_state.extend
     (idle_checker\<lparr>timer_pending := True, timer_interval := 1000, sys_call_table_hash := 0x4d5f413d,
        sys_call_table_size := 8, sys_call_table_address := 8, incident_handler := True,
        notifier_registered := True, command := True\<rparr>)
     (carbonite_state.fields reason True True)"

lemma armed_fields:
  "heap (armed r) = example_heap example_dump" "dump_list (armed r) = Some 1" "seq_list (armed r) = Some 1"
  "command (armed r)" "reader_pos (armed r) = 0" "loffs (armed r) = fmempty" "seq_buffer (armed r) = []"
  "timer_pending (armed r)" "incident_handler (armed r)" "previous_reason (armed r) = r"
  by (simp_all add: armed_def idle_checker_def example_chrdev_def example_dumps_def carbonite_state.defs integrity_state.defs
      chrdev_state.defs dump_state.defs)

lemma armed_ready: "queue_ready (armed r)"
  by (simp add: queue_ready_def armed_def idle_checker_def example_chrdev_def example_dumps_def carbonite_state.defs integrity_state.defs
      chrdev_state.defs dump_state.defs)

lemma armed_ticking: "ticking (armed r)"
  by (simp add: ticking_def armed_def idle_checker_def example_chrdev_def example_dumps_def carbonite_state.defs integrity_state.defs
      chrdev_state.defs dump_state.defs MODULE_NAME_LEN_def)

lemma armed_hash: "table_hash (example_world b) (armed r) = super_fast_hash (Some b) 8"
  by (simp add: table_hash_def armed_def idle_checker_def example_chrdev_def example_dumps_def carbonite_state.defs integrity_state.defs
      chrdev_state.defs dump_state.defs example_world_def)

lemma example_plentiful: "plentiful (example_machine b)"
  using example_env_good example_process_wf
  by (simp add: plentiful_def good_machine_def example_machine_def example_world_def example_dump_def MAX_STATE_LEN_def)

lemma example_evidence: "evidence (example_heap example_dump) (Some 1) [2]"
proof -
  have "\<exists>x. fmlookup (dumps (example_heap example_dump)) 3 = Some x \<and> dump_wf x"
    by (simp add: example_heap_def example_dump_def dump_wf_def MAX_STATE_LEN_def TASK_COMM_LEN_def)
  then show ?thesis
    using example_heap_list [of example_dump] example_heap_ok by (simp add: evidence_def)
qed

definition hooked_entry :: string where
  "hooked_entry = [CHR 0x10, CHR 0x20, CHR 0x30, CHR 0xA0, CHR 0xFF, CHR 0xFF, CHR 0xFF, CHR 0xFF]"

lemma hooked_hash: "super_fast_hash (Some hooked_entry) 8 = Inr (hash_spec hooked_entry)" "hash_spec hooked_entry \<noteq> 0x4d5f413d"
proof -
  show "hash_spec hooked_entry \<noteq> 0x4d5f413d" by code_simp
  show "super_fast_hash (Some hooked_entry) 8 = Inr (hash_spec hooked_entry)"
    using super_fast_hash_in_bounds [of 8 hooked_entry] by (simp add: hooked_entry_def)
qed

theorem trigger_then_read_witness:
  "\<exists>s1 s2. command_ioctl (carbonite (example_machine kernel_entry)) True IOCTL_CARBONITE_COMMAND (armed NONE) = Inr (0, s1) \<and>
     seq_session (log_envs (world_of (example_machine kernel_entry))) id True 5 s1 = Inr s2 \<and>
     seq_buffer s2 = header_line @ dump_text example_dump @ dump_text (snapshot_of 63 example_process)"
proof -
  let ?M = "example_machine kernel_entry"
  have "no_conversion x" if "fmlookup (dumps (heap (armed NONE))) d = Some x" for d x
    using that by (auto simp: armed_fields example_heap_def no_conversion_def example_dump_def split: if_splits)
  moreover have "texts (example_heap example_dump) [2] = [dump_text example_dump]"
    by (simp add: texts_def example_heap_list(2) text_of_def) (simp add: example_heap_def)
  moreover have "process_lines ?M = [dump_text (snapshot_of 63 example_process)]"
    by (simp add: process_lines_def example_machine_def)
  moreover have "\<forall>t \<in> set (tasks ?M). CHR ''%'' \<notin> set (cstr (task_comm t))" "tasks ?M \<noteq> []"
    by (simp_all add: example_machine_def example_process_def)
  ultimately show ?thesis
    using trigger_then_read [OF example_plentiful [of kernel_entry], where s = "armed NONE" and as = "[2]" and convert = id and n = 5]
      example_evidence armed_ready armed_fields [of NONE]
    by (simp del: One_nat_def)
qed

theorem checker_keeps_ticking_witness:
  "\<exists>s'. run_ticks (carbonite (example_machine [])) (replicate 3 (example_world hooked_entry)) (armed NONE) = Inr s' \<and> ticking s'"
proof -
  have "good_machine (example_machine [])" using example_plentiful by (simp add: plentiful_def)
  moreover have "evidence (heap (armed NONE)) (dump_list (armed NONE)) [2]"
    by (simp only: armed_fields) (rule example_evidence)
  moreover have "readable (armed NONE) (example_world hooked_entry)"
    using hooked_hash(1) by (simp add: readable_def armed_hash)
  ultimately show ?thesis
    by (intro checker_keeps_ticking [OF _ _ armed_ticking _ armed_ready]) auto
qed

theorem incident_response_witness:
  "\<exists>s' as'. run_ticks (carbonite (example_machine hooked_entry)) [example_world hooked_entry, example_world hooked_entry]
     (armed AFTER_MODULE_INIT) = Inr s' \<and>
     texts (heap s') as' = texts (example_heap example_dump) [2] \<and> \<not> incident_handler s'"
proof -
  have "readable (armed r) (example_world hooked_entry)" "\<not> unchanged (armed r) (example_world hooked_entry)" for r
  proof -
    have "sys_call_table_hash (armed r) = 0x4d5f413d"
      by (simp add: armed_def idle_checker_def carbonite_state.defs integrity_state.defs example_chrdev_def
        example_dumps_def chrdev_state.defs dump_state.defs)
    then show "readable (armed r) (example_world hooked_entry)" "\<not> unchanged (armed r) (example_world hooked_entry)"
      using hooked_hash by (simp_all add: readable_def unchanged_def armed_hash)
  qed
  then show ?thesis
    using incident_response [OF example_plentiful [of hooked_entry], where s = "armed AFTER_MODULE_INIT" and as = "[2]"
        and W = "example_world hooked_entry" and Ws = "[example_world hooked_entry]" and name = "[]"]
      example_evidence armed_ticking armed_ready armed_fields [of AFTER_MODULE_INIT]
    by (simp del: run_ticks.simps One_nat_def) blast
qed

theorem snapshots_kept_witness:
  "\<exists>s' as' ts. carbonite_run (armed NONE) [Ioctl (example_machine kernel_entry) True IOCTL_CARBONITE_COMMAND] s' \<and>
     texts (heap s') as' = texts (example_heap example_dump) [2] @ ts"
proof -
  let ?M = "example_machine kernel_entry"
  have good: "good_machine ?M" using example_plentiful by (simp add: plentiful_def)
  have ev: "evidence (heap (armed NONE)) (dump_list (armed NONE)) [2]" by (simp only: armed_fields) (rule example_evidence)
  obtain s1 where "carbonite ?M ON_DEMAND (armed NONE) = Inr s1" using carbonite_run [OF good ev armed_ready] by blast
  then have "carbonite_step (armed NONE) (Ioctl ?M True IOCTL_CARBONITE_COMMAND) s1"
    by (auto simp: ioctl_simp command_ioctl_def armed_fields)
  from event [OF no_event this] have run: "carbonite_run (armed NONE) [Ioctl ?M True IOCTL_CARBONITE_COMMAND] s1"
    by simp
  from snapshots_kept [OF run _ ev] good run show ?thesis
    by (auto simp: armed_fields)
qed

section \<open>The start of the module\<close>

lemma chrdev_more_fields:
  assumes "chrdev_state.more s' = chrdev_state.more s"
  shows "incident_handler s' = incident_handler s \<and> search s' = search s \<and> notifier_registered s' = notifier_registered s \<and>
    integrity_state.more s' = integrity_state.more s"
  using assms by (cases s, cases s') simp

lemma integrity_more_fields:
  assumes "integrity_state.more s' = integrity_state.more (s :: carbonite_state)"
  shows "previous_reason s' = previous_reason s \<and> in_module_list s' = in_module_list s \<and> has_exit s' = has_exit s"
  using assms by (cases s, cases s') simp

text \<open>The static variables when the module is loaded.\<close>

definition cold :: "carbonite_state \<Rightarrow> bool" where
  "cold s \<longleftrightarrow> chrdev_buffers s \<and> \<not> proc_entry (proc s) \<and> dump_heap_ok (heap s) \<and> dump_list s = None \<and>
     \<not> dump_proc_entry s \<and> \<not> log_sock s \<and> \<not> log_remote s \<and> \<not> incident_handler s"

text \<open>What the first parts of the start leave as it was.\<close>

definition booting :: "carbonite_state \<Rightarrow> carbonite_state \<Rightarrow> bool" where
  "booting s0 s \<longleftrightarrow> \<not> log_sock s \<and> \<not> log_remote s \<and> incident_handler s = incident_handler s0 \<and>
     notifier_registered s = notifier_registered s0 \<and> search s = search s0 \<and>
     loffs s = loffs s0 \<and> next_loff s = next_loff s0 \<and> dumps (heap s) = dumps (heap s0) \<and>
     integrity_state.more s = integrity_state.more s0"

lemma booting_printk [simp]:
  "booting s0 (printk x s) = booting s0 s" "booting s0 (s\<lparr>klog := l\<rparr>) = booting s0 s"
  by (simp_all add: booting_def printk_def)

lemma stage_good:
  assumes "\<not> log_remote s"
  shows "stage E good bad err rest (1, s) = rest (printk (logger_line good) s)"
  using assms by (simp add: stage_def print_log_local)

text \<open>What registering the device leaves behind, and what the rest of the start does not touch.\<close>

definition device :: "carbonite_state \<Rightarrow> proc_vars \<times> (int \<times> string) list \<times> int \<times> char list" where
  "device s = (proc s, chrdevs s, command_major s, chrdev_name s)"

definition registered :: "answers \<Rightarrow> carbonite_state \<Rightarrow> carbonite_state \<Rightarrow> bool" where
  "registered A s0 s \<longleftrightarrow> chrdevs s = (major_of A, device_name CARBONITE_NAME) # chrdevs s0 \<and> command_major s = major_of A \<and>
     cstr (chrdev_name s) = device_name CARBONITE_NAME \<and> NUL \<in> set (chrdev_name s) \<and>
     entry_shown (device_name CARBONITE_NAME @ ''-major'') (fmt_d (major_of A)) (proc s0) (proc s)"

lemma registered_device: "device s' = device s \<Longrightarrow> registered A s0 s' = registered A s0 s"
  by (simp add: device_def registered_def)

lemma device_started:
  assumes "cold s" "0 \<le> major_of A" "major_of A < 10 ^ 9" "name_ok A" "data_ok A" "proc_ok A"
  shows "\<exists>s'. carbonite_init M P A s = start_dumps M P A s' \<and> booting s s' \<and> command s' \<and>
    NUL \<in> set (commanding_module s') \<and> heap s' = heap s \<and> dump_list s' = None \<and> \<not> dump_proc_entry s' \<and>
    registered A s s'"
proof -
  obtain x y where xy: "carbonite_init M P A s =
      run_bind (init_command_chrdev (major_of A) (name_ok A) (data_ok A) (proc_ok A) (Some CARBONITE_NAME) True (printk x (printk y s)))
        (stage (log_envs (world_of M)) ''[+] Initiliazed command character device'' ''[-] Failed to initialize command character device'' ECHARDEV
          (start_dumps M P A))"
  proof -
    have "log_remote (printk y s) = log_remote s" for y by (simp add: printk_def)
    then show thesis
      using that assms(1) by (simp add: carbonite_init_def cold_def print_log_local)
  qed
  define s2 where "s2 = printk x (printk y s)"
  have s2: "chrdev_buffers s2" "\<not> proc_entry (proc s2)"
    using assms(1) by (simp_all add: s2_def cold_def chrdev_buffers_def printk_def)
  have "length (cstr CARBONITE_NAME) < MODULE_NAME_LEN" by (simp add: CARBONITE_NAME_def MODULE_NAME_LEN_def)
  then obtain s3 where s3: "init_command_chrdev (major_of A) True True True (Some CARBONITE_NAME) True s2 = Inr (1, s3)"
    "device_ready CARBONITE_NAME (major_of A) s2 s3"
    using registration_run [OF s2 assms(2,3), of CARBONITE_NAME] by auto
  have t: "dump_state.truncate s3 = (dump_state.truncate s2)\<lparr>klog := klog s3\<rparr>"
    and m: "chrdev_state.more s3 = chrdev_state.more s2" and c: "command s3" "NUL \<in> set (commanding_module s3)"
    and dev: "registered A s s3"
    using s3(2) by (simp_all add: device_ready_def registered_def s2_def printk_def)
  have f: "heap s3 = heap s" "dump_list s3 = None" "\<not> dump_proc_entry s3" "\<not> log_sock s3" "\<not> log_remote s3"
    "loffs s3 = loffs s" "next_loff s3 = next_loff s"
    using t assms(1) by (simp_all add: dump_state.defs s2_def printk_def cold_def)
  have "booting s s3"
    using chrdev_more_fields [OF m] f by (simp add: booting_def s2_def printk_def)
  moreover have "carbonite_init M P A s =
      start_dumps M P A (printk (logger_line ''[+] Initiliazed command character device'') s3)"
    using xy s3(1) assms(4-6) stage_good [OF f(5)] by (simp add: s2_def)
  ultimately show ?thesis using f c dev
    by (intro exI [of _ "printk (logger_line ''[+] Initiliazed command character device'') s3"]) (simp add: printk_def registered_def)
qed

lemma dumps_started:
  assumes "booting s0 s" "dump_heap_ok (heap s)" "dump_list s = None" "\<not> dump_proc_entry s" "list_ok A" "dump_proc_ok A"
  shows "\<exists>s'. start_dumps M P A s = start_checker M P A s' \<and> booting s0 s' \<and> command s' = command s \<and> device s' = device s \<and>
    nodes (heap s') = nodes (heap s) \<and>
    commanding_module s' = commanding_module s \<and> evidence (heap s') (dump_list s') [] \<and> seq_list s' = dump_list s' \<and> dump_proc_entry s'"
proof -
  obtain l h where h: "init_task_dump_list True (heap s) = (l, h)" by fastforce
  from init_list_empty [OF assms(2) h] have l: "l = Some (next_free (heap s))" "list_at h l []" "dump_heap_ok h" by auto
  have d: "dumps h = dumps (heap s)" "nodes h = nodes (heap s)" using h by (auto simp: init_task_dump_list_def)
  define s1 where "s1 = s\<lparr>heap := h, dump_list := l, seq_list := l, dump_proc_entry := True\<rparr>"
  have "init_task_dump (list_ok A) (dump_proc_ok A) s = Inr (1, s1)"
    using assms(3-6) h l(1) by (simp add: init_task_dump_def init_dump_seq_file_def s1_def Let_def)
  moreover have "booting s0 s1" "\<not> log_remote s1" using assms(1) d(1) by (simp_all add: booting_def s1_def)
  moreover have "evidence h l []" using l by (simp add: evidence_def dumps_of_def)
  ultimately show ?thesis
    using stage_good [of s1]
    by (intro exI [of _ "printk (logger_line ''[+] Initiliazed task_dump component'') s1"])
      (simp add: start_dumps_def Let_def, simp add: s1_def printk_def device_def d(2))
qed

lemma interval_widened: "(i :: 32 word) \<noteq> 0 \<Longrightarrow> (ucast i :: 64 word) \<noteq> 0"
proof
  assume z: "i \<noteq> 0" "(ucast i :: 64 word) = 0"
  have "(ucast (ucast i :: 64 word) :: 32 word) = i" by (rule bit_word_eqI) (simp add: bit_simps)
  with z show False by simp
qed

text \<open>The module's checker compares with the table as it is.\<close>

lemma checker_started:
  assumes "booting s0 s" "\<not> incident_handler s0" "monitoring P" "check_interval P \<noteq> 0"
    and "table_symbol (world_of M) (search s0) \<noteq> 0" "symbol_after (world_of M) (search s0) \<noteq> 0"
    and "initial_table (world_of M) (search s0) = Inr h"
  shows "\<exists>s'. start_checker M P A s = start_logger (log_envs (world_of M)) P A s' \<and>
    ticking s' \<and> incident_handler s' \<and> notifier_registered s' \<and> unchanged s' (world_of M) \<and>
    \<not> log_sock s' \<and> \<not> log_remote s' \<and> in_module_list s' = in_module_list s0 \<and> has_exit s' = has_exit s0 \<and> device s' = device s \<and>
    command s' = command s \<and> heap s' = heap s \<and> dump_list s' = dump_list s \<and> seq_list s' = seq_list s \<and>
    dump_proc_entry s' = dump_proc_entry s \<and> commanding_module s' = commanding_module s \<and> loffs s' = loffs s \<and>
    next_loff s' = next_loff s \<and> previous_reason s' = previous_reason s0 \<and>
    sys_call_table_address s' = table_symbol (world_of M) (search s0) \<and>
    sys_call_table_size s' = ucast (symbol_after (world_of M) (search s0) - table_symbol (world_of M) (search s0))"
proof -
  have s: "\<not> incident_handler s" "search s = search s0" "integrity_state.more s = integrity_state.more s0"
    "\<not> log_sock s" "\<not> log_remote s"
    using assms(1,2) by (simp_all add: booting_def)
  have n: "length (cstr CARBONITE_NAME) < MODULE_NAME_LEN" by (simp add: CARBONITE_NAME_def MODULE_NAME_LEN_def)
  note i = interval_widened [OF assms(4)]
  obtain s1 where s1: "init_sys_call_table_integrity_checker (world_of M) (Some CARBONITE_NAME) (ucast (check_interval P)) True s = Inr (1, s1)"
    "ticking s1" "incident_handler s1" "notifier_registered s1" "unchanged s1 (world_of M)"
    "chrdev_state.truncate s1 = chrdev_state.truncate s" "integrity_state.more s1 = integrity_state.more s"
    "sys_call_table_address s1 = table_symbol (world_of M) (search s0)"
    "sys_call_table_size s1 = ucast (symbol_after (world_of M) (search s0) - table_symbol (world_of M) (search s0))"
    using checker_start_run [OF i n s(1), of "world_of M"] assms(5-7) s(2) by auto
  have f: "\<not> log_remote s1" "\<not> log_sock s1" "command s1 = command s" "heap s1 = heap s" "dump_list s1 = dump_list s"
    "seq_list s1 = seq_list s" "dump_proc_entry s1 = dump_proc_entry s" "commanding_module s1 = commanding_module s"
    "loffs s1 = loffs s" "next_loff s1 = next_loff s" "device s1 = device s"
    using s1(6) s(4,5) by (simp_all add: chrdev_state.defs device_def)
  have "in_module_list s1 = in_module_list s0" "has_exit s1 = has_exit s0" "previous_reason s1 = previous_reason s0"
    using integrity_more_fields s1(7) s(3) by metis+
  moreover obtain x where "start_checker M P A s = start_logger (log_envs (world_of M)) P A (printk x s1)"
    using s1(1) assms(3) stage_good [OF f(1)] by (simp add: start_checker_def Let_def)
  moreover have "ticking (printk x s1) \<and> unchanged (printk x s1) (world_of M)" for x
    using s1(2,5) by (simp add: printk_def)
  ultimately show ?thesis using s1(3,4,8,9) f by (intro exI [of _ "printk x s1"]) (simp add: printk_def device_def)
qed

text \<open>What the module's duties depend on.\<close>

definition duties :: "carbonite_state \<Rightarrow> (dump_heap \<times> nat option \<times> nat option \<times> bool \<times> bool) \<times>
    (char list \<times> (nat, nat) fmap \<times> nat \<times> int) \<times> (64 word \<times> char list \<times> 32 word \<times> 32 word \<times> 64 word) \<times>
    (bool \<times> bool \<times> bool) \<times> proc_vars \<times> (int \<times> string) list \<times> int \<times> char list" where
  "duties s = ((heap s, dump_list s, seq_list s, dump_proc_entry s, command s),
     (commanding_module s, loffs s, next_loff s, previous_reason s), checker_vars s,
     (timer_pending s, incident_handler s, notifier_registered s), device s)"

lemma duties_freeze: "freeze_frame s s' \<Longrightarrow> heap s' = heap s \<Longrightarrow> duties s' = duties s"
  by (auto simp: freeze_frame_def duties_def checker_vars_def device_def)

lemma duties_ticking: "duties s' = duties s \<Longrightarrow> ticking s' = ticking s \<and> unchanged s' W = unchanged s W"
  by (simp add: duties_def checker_vars_def ticking_def unchanged_def table_hash_def)

lemma duties_logger: "duties (snd (init_logger k q ip s)) = duties s"
  by (auto simp: init_logger_def Let_def printk_def duties_def checker_vars_def device_def split: option.splits)

lemma init_logger_fields:
  "in_module_list (snd (init_logger k q ip s)) = in_module_list s" "has_exit (snd (init_logger k q ip s)) = has_exit s"
  "\<not> log_sock s \<Longrightarrow> \<not> log_remote s \<Longrightarrow> log_remote (snd (init_logger k q ip s)) = (ip \<noteq> None)"
  "\<not> log_sock s \<Longrightarrow> k \<Longrightarrow> q \<Longrightarrow> fst (init_logger k q ip s) = 1"
  "\<not> log_sock s \<Longrightarrow> k \<Longrightarrow> q \<Longrightarrow> queue_ready (snd (init_logger k q ip s))"
  by (auto simp: queue_ready_def init_logger_def Let_def printk_def split: option.splits)

lemma logged:
  assumes "\<And>n. good_env (E n)" "queue_ready s"
  shows "\<exists>s'. print_log E lvl msg s = Inr s' \<and> duties s' = duties s \<and> in_module_list s' = in_module_list s \<and>
    has_exit s' = has_exit s \<and> log_remote s' = log_remote s \<and> queue_ready s'"
proof -
  obtain s' where "print_log E lvl msg s = Inr s'" "freeze_frame s s'" "heap s' = heap s"
    using print_log_freeze [where E = E, OF assms] by blast
  then show ?thesis using duties_freeze [of s s'] freeze_queue_ready [of s s'] assms(2) by (auto simp: freeze_frame_def)
qed

lemma hidden:
  assumes "\<And>n. good_env (E n)" "queue_ready s"
  shows "\<exists>s'. hide E P s = Inr (0, s') \<and> duties s' = duties s \<and>
    in_module_list s' = (in_module_list s \<and> \<not> stealth P) \<and> has_exit s' = (has_exit s \<and> \<not> stealth P) \<and>
    log_remote s' = log_remote s \<and> queue_ready s'"
proof (cases "stealth P")
  case True
  obtain s' where "print_log E KERN_INFO (logger_line ''[+] Stealth mode is enabled'') (s\<lparr>in_module_list := False, has_exit := False\<rparr>) = Inr s'"
    "duties s' = duties (s\<lparr>in_module_list := False, has_exit := False\<rparr>)" "\<not> in_module_list s'" "\<not> has_exit s'" "log_remote s' = log_remote s" "queue_ready s'"
    using logged [where E = E and s = "s\<lparr>in_module_list := False, has_exit := False\<rparr>", OF assms(1)] assms(2) by (fastforce simp: queue_ready_def)
  then show ?thesis using True by (auto simp: hide_def duties_def checker_vars_def device_def)
next
  case False
  then show ?thesis
    using logged [where E = E and s = s and lvl = KERN_INFO and msg = "logger_line ''[-] Stealth mode is not enabled''", OF assms]
    by (auto simp: hide_def)
qed

lemma logger_started:
  assumes "\<And>n. good_env (E n)" "\<not> log_sock s" "\<not> log_remote s" "socket_ok A" "queue_ok A"
  shows "\<exists>s'. start_logger E P A s = Inr (0, s') \<and> duties s' = duties s \<and>
    log_remote s' = (remote_log_ip P \<noteq> None) \<and> in_module_list s' = (in_module_list s \<and> \<not> stealth P) \<and>
    has_exit s' = (has_exit s \<and> \<not> stealth P) \<and> queue_ready s'"
proof -
  obtain s0 where s0: "init_logger (socket_ok A) (queue_ok A) (remote_log_ip P) s = (1, s0)"
    using init_logger_fields(4) [OF assms(2,4,5), of "remote_log_ip P"] by (metis prod.collapse)
  then have f: "duties s0 = duties s" "in_module_list s0 = in_module_list s" "has_exit s0 = has_exit s"
    "log_remote s0 = (remote_log_ip P \<noteq> None)" "queue_ready s0"
    using duties_logger [of "socket_ok A" "queue_ok A" "remote_log_ip P" s]
      init_logger_fields(1) [of "socket_ok A" "queue_ok A" "remote_log_ip P" s]
      init_logger_fields(2) [of "socket_ok A" "queue_ok A" "remote_log_ip P" s]
      init_logger_fields(3) [OF assms(2,3), of "socket_ok A" "queue_ok A" "remote_log_ip P"]
      init_logger_fields(5) [OF assms(2,4,5), of "remote_log_ip P"] by simp_all
  obtain s2 where s2: "print_log E KERN_INFO (logger_line ''[+] Initiliazed logger'') s0 = Inr s2" "duties s2 = duties s0"
    "in_module_list s2 = in_module_list s0" "has_exit s2 = has_exit s0" "log_remote s2 = log_remote s0" "queue_ready s2"
    using logged [where E = E, OF assms(1) f(5)] by blast
  have "start_logger E P A s = hide E P s2"
    using s0 s2(1) by (simp add: start_logger_def stage_def)
  then show ?thesis using hidden [where E = E and P = P, OF assms(1) s2(6)] f s2 by auto
qed

text \<open>A logger that cannot be started: without a socket it refuses, without a queue it faults.\<close>

definition refusal :: string where
  "refusal = KERN_ERR @ logger_line ''[-] Failed to initialize logger''"

lemma logger_refused:
  assumes "\<not> log_sock s" "\<not> log_remote s" "remote_log_ip P = Some a" "\<And>n. good_env (E n)"
  shows "\<not> socket_ok A \<Longrightarrow> \<exists>s'. start_logger E P A s = Inr (- ELOGGER, s') \<and> duties s' = duties s"
    and "socket_ok A \<Longrightarrow> \<not> queue_ok A \<Longrightarrow> \<forall>n. work_ok (E n) \<and> buffer_ok (E n) \<and> length (reprinted (E n) refusal) \<le> 900 \<Longrightarrow>
      start_logger E P A s = Inl Null_dereference"
proof -
  define r where "r = init_logger (socket_ok A) (queue_ok A) (remote_log_ip P) s"
  have d: "duties (snd r) = duties s" by (simp add: r_def duties_logger)
  have r: "fst r = 0" "log_remote (snd r)" "log_sock (snd r) = socket_ok A" "socket_ok A \<Longrightarrow> \<not> remote_log_work_queue (snd r)"
    if "\<not> (socket_ok A \<and> queue_ok A)"
    using that assms(1-3) by (auto simp: r_def init_logger_def Let_def printk_def)
  have run: "start_logger E P A s = run_bind (print_log E KERN_ERR (logger_line ''[-] Failed to initialize logger'') (snd r))
      (\<lambda>s. Inr (- ELOGGER, s))" if "\<not> (socket_ok A \<and> queue_ok A)"
    using r(1) [OF that] unfolding start_logger_def r_def [symmetric] stage_def by (simp add: split_beta)
  show "\<exists>s'. start_logger E P A s = Inr (- ELOGGER, s') \<and> duties s' = duties s" if "\<not> socket_ok A"
  proof -
    have "queue_ready (snd r)" using r(3) that by (simp add: queue_ready_def)
    then show ?thesis
      using run d that logged [where E = E and s = "snd r" and lvl = KERN_ERR and
          msg = "logger_line ''[-] Failed to initialize logger''", OF assms(4)] by auto
  qed
  show "start_logger E P A s = Inl Null_dereference" if "socket_ok A" "\<not> queue_ok A"
    "\<forall>n. work_ok (E n) \<and> buffer_ok (E n) \<and> length (reprinted (E n) refusal) \<le> 900"
    using run r that assms(4)
      print_log_no_queue [of "snd r" E KERN_ERR "logger_line ''[-] Failed to initialize logger''"]
    by (simp add: refusal_def)
qed

definition dumps_granted :: "answers \<Rightarrow> bool" where
  "dumps_granted A \<longleftrightarrow> 0 \<le> major_of A \<and> major_of A < 10 ^ 9 \<and> name_ok A \<and> data_ok A \<and> proc_ok A \<and> list_ok A \<and>
     dump_proc_ok A"

definition granted :: "answers \<Rightarrow> bool" where
  "granted A \<longleftrightarrow> dumps_granted A \<and> socket_ok A \<and> queue_ok A"

lemma granted_dumps: "granted A \<Longrightarrow> dumps_granted A"
  by (simp add: granted_def)

text \<open>The device and the proc file with the snapshots are there; the list is empty.\<close>

definition serving :: "carbonite_state \<Rightarrow> bool" where
  "serving s \<longleftrightarrow> command s \<and> NUL \<in> set (commanding_module s) \<and> evidence (heap s) (dump_list s) [] \<and> seq_list s = dump_list s \<and> dump_proc_entry s"

lemma serving_duties: "duties s' = duties s \<Longrightarrow> serving s' = serving s"
  by (simp add: serving_def duties_def)

lemma carbonite_reaches_checker:
  assumes "cold s" "dumps_granted A"
  shows "\<exists>s1. carbonite_init M P A s = start_checker M P A s1 \<and> booting s s1 \<and> serving s1 \<and>
    registered A s s1 \<and> nodes (heap s1) = nodes (heap s)"
proof -
  obtain s1 where s1: "carbonite_init M P A s = start_dumps M P A s1" "booting s s1" "command s1" "NUL \<in> set (commanding_module s1)" "heap s1 = heap s"
    "dump_list s1 = None" "\<not> dump_proc_entry s1" "registered A s s1"
    using device_started [OF assms(1), of A M P] assms(2) by (auto simp: dumps_granted_def)
  have "dump_heap_ok (heap s1)" using s1(5) assms(1) by (simp add: cold_def)
  then obtain s2 where s2: "start_dumps M P A s1 = start_checker M P A s2" "booting s s2" "command s2 = command s1"
    "device s2 = device s1" "nodes (heap s2) = nodes (heap s1)" "commanding_module s2 = commanding_module s1"
    "evidence (heap s2) (dump_list s2) []" "seq_list s2 = dump_list s2" "dump_proc_entry s2"
    using dumps_started [OF s1(2) _ s1(6,7), of A M P] assms(2) unfolding dumps_granted_def by blast
  then have "serving s2" using s1(3,4) by (simp add: serving_def)
  moreover have "registered A s s2" using registered_device [OF s2(4)] s1(8) by simp
  ultimately show ?thesis using s1(1,5) s2(1,2,5) by auto
qed

text \<open>With monitoring, everything the start leaves behind.\<close>

lemma monitoring_started:
  assumes "cold s" "granted A" "good_machine M" "check_interval P \<noteq> 0" "monitoring P"
    and "table_symbol (world_of M) (search s) \<noteq> 0" "symbol_after (world_of M) (search s) \<noteq> 0"
    and "initial_table (world_of M) (search s) = Inr h"
  shows "\<exists>s'. carbonite_init M P A s = Inr (0, s') \<and> serving s' \<and> ticking s' \<and> incident_handler s' \<and>
    notifier_registered s' \<and> unchanged s' (world_of M) \<and> log_remote s' = (remote_log_ip P \<noteq> None) \<and>
    in_module_list s' = (in_module_list s \<and> \<not> stealth P) \<and> has_exit s' = (has_exit s \<and> \<not> stealth P) \<and>
    previous_reason s' = previous_reason s \<and>
    dumps (heap s') = dumps (heap s) \<and> loffs s' = loffs s \<and> next_loff s' = next_loff s \<and>
    registered A s s' \<and> nodes (heap s') = nodes (heap s) \<and> queue_ready s' \<and>
    sys_call_table_address s' = table_symbol (world_of M) (search s) \<and>
    sys_call_table_size s' = ucast (symbol_after (world_of M) (search s) - table_symbol (world_of M) (search s))"
proof -
  have E: "good_env (log_envs (world_of M) n)" for n using assms(3) by (simp add: good_machine_def)
  obtain s1 where s1: "carbonite_init M P A s = start_checker M P A s1" "booting s s1" "serving s1"
    "registered A s s1" "nodes (heap s1) = nodes (heap s)"
    using carbonite_reaches_checker [OF assms(1) granted_dumps [OF assms(2)]] by blast
  have "\<not> incident_handler s" using assms(1) by (simp add: cold_def)
  from checker_started [OF s1(2) this assms(5,4,6-8), of A] obtain s2 where s2:
    "start_checker M P A s1 = start_logger (log_envs (world_of M)) P A s2"
    "ticking s2" "incident_handler s2" "notifier_registered s2" "unchanged s2 (world_of M)" "\<not> log_sock s2" "\<not> log_remote s2"
    "in_module_list s2 = in_module_list s" "has_exit s2 = has_exit s" "command s2 = command s1" "heap s2 = heap s1" "dump_list s2 = dump_list s1"
    "seq_list s2 = seq_list s1" "dump_proc_entry s2 = dump_proc_entry s1" "commanding_module s2 = commanding_module s1"
    "loffs s2 = loffs s1" "next_loff s2 = next_loff s1" "previous_reason s2 = previous_reason s"
    "sys_call_table_address s2 = table_symbol (world_of M) (search s)"
    "sys_call_table_size s2 = ucast (symbol_after (world_of M) (search s) - table_symbol (world_of M) (search s))"
    "device s2 = device s1"
    by blast
  obtain s3 where s3: "start_logger (log_envs (world_of M)) P A s2 = Inr (0, s3)" "duties s3 = duties s2"
    "log_remote s3 = (remote_log_ip P \<noteq> None)" "in_module_list s3 = (in_module_list s2 \<and> \<not> stealth P)"
    "has_exit s3 = (has_exit s2 \<and> \<not> stealth P)" "queue_ready s3"
    using logger_started [where E = "log_envs (world_of M)" and A = A and P = P, OF E s2(6,7)] assms(2) by (auto simp: granted_def)
  have "serving s2" using s1(3) s2(10-15) by (simp add: serving_def)
  then have "serving s3" using serving_duties [OF s3(2)] by simp
  then show ?thesis
    using s3 duties_ticking [OF s3(2)] s2 s1(1,2,4,5) registered_device [of s3 s1 A s]
    by (intro exI [of _ s3]) (simp add: duties_def checker_vars_def booting_def)
qed

text \<open>
  C11: If the kernel grants everything, loading the module succeeds, with the device and the proc file
  ready. With monitoring the timer then compares the table with its hash of the moment, the
  notifier is registered, the logger is remote exactly when an address was given, and the module is
  hidden exactly when stealth was asked for. Without monitoring the start returns early: nothing is
  sent to the remote address and the module is not hidden, whatever the parameters say.
\<close>

theorem carbonite_starts:
  assumes "cold s" "granted A" "good_machine M" "check_interval P \<noteq> 0"
    and "table_symbol (world_of M) (search s) \<noteq> 0" "symbol_after (world_of M) (search s) \<noteq> 0"
    and "initial_table (world_of M) (search s) = Inr h"
  shows "\<exists>s'. carbonite_init M P A s = Inr (0, s') \<and> serving s' \<and>
    (if monitoring P
     then ticking s' \<and> incident_handler s' \<and> notifier_registered s' \<and> unchanged s' (world_of M) \<and>
       log_remote s' = (remote_log_ip P \<noteq> None) \<and> in_module_list s' = (in_module_list s \<and> \<not> stealth P)
     else \<not> log_remote s' \<and> in_module_list s' = in_module_list s)"
proof (cases "monitoring P")
  case True
  then show ?thesis using monitoring_started [OF assms(1-4) True assms(5-7)] by auto
next
  case False
  obtain s1 where s1: "carbonite_init M P A s = start_checker M P A s1" "booting s s1" "serving s1"
    using carbonite_reaches_checker [OF assms(1) granted_dumps [OF assms(2)]] by blast
  have r: "\<not> log_remote s1" "in_module_list s1 = in_module_list s"
    using s1(2) integrity_more_fields [of s1 s] by (simp_all add: booting_def)
  define s2 where "s2 = printk (logger_line ''[-] Skipping monitoring of the system call table'') s1"
  have "start_checker M P A s1 = Inr (0, s2)"
    using False r(1) by (simp add: start_checker_def print_log_local s2_def Let_def)
  moreover have "serving s2" "\<not> log_remote s2" "in_module_list s2 = in_module_list s"
    using s1(3) r by (simp_all add: s2_def serving_def printk_def)
  ultimately show ?thesis using False s1(1) by auto
qed

text \<open>
  C33: If a symbol of the table is missing, loading the module with monitoring fails, but what was started stays: the
  device is still registered with its command, the timer is pending and the notifier registered, all
  of them pointing into a module that the kernel now unloads.
\<close>

theorem failed_start_leaves_hooks:
  assumes "cold s" "granted A" "monitoring P" "check_interval P \<noteq> 0" "good_machine M"
    and "table_symbol (world_of M) (search s) = 0 \<or> symbol_after (world_of M) (search s) = 0"
  shows "\<exists>s'. carbonite_init M P A s = Inr (- ESYSTABLE, s') \<and> timer_pending s' \<and> notifier_registered s' \<and>
    command s' \<and> (major_of A, device_name CARBONITE_NAME) \<in> set (chrdevs s')"
proof -
  have E: "good_env (log_envs (world_of M) n)" for n using assms(5) by (simp add: good_machine_def)
  obtain s1 where s1: "carbonite_init M P A s = start_checker M P A s1" "booting s s1" "serving s1"
    "registered A s s1"
    using carbonite_reaches_checker [OF assms(1) granted_dumps [OF assms(2)]] by blast
  have n: "length (cstr CARBONITE_NAME) < MODULE_NAME_LEN" by (simp add: CARBONITE_NAME_def MODULE_NAME_LEN_def)
  have "\<not> incident_handler s1" "search s1 = search s"
    using s1(2) assms(1) by (simp_all add: booting_def cold_def)
  then obtain s2 where s2:
    "init_sys_call_table_integrity_checker (world_of M) (Some CARBONITE_NAME) (ucast (check_interval P)) True s1 = Inr (0, s2)"
    "timer_pending s2" "notifier_registered s2" "command s2 = command s1" "chrdevs s2 = chrdevs s1"
    "log_remote s2 = log_remote s1"
    using checker_start_run [where handle = "carbonite M" and V = "world_of M" and m = "[]",
        OF interval_widened [OF assms(4)] n, of s1 "world_of M"] assms(6) by auto
  have ready: "queue_ready s2" using s2(6) s1(2) by (simp add: queue_ready_def booting_def)
  obtain s3 where s3: "print_log (log_envs (world_of M)) KERN_ERR
      (logger_line ''[-] Failed to initialize system call table checker'') s2 = Inr s3" "freeze_frame s2 s3"
    using print_log_freeze [where E = "log_envs (world_of M)" and s = s2, OF E ready] by blast
  have "carbonite_init M P A s = Inr (- ESYSTABLE, s3)"
    using s1(1) s2(1) s3(1) assms(3) by (simp add: start_checker_def stage_def Let_def)
  moreover have "timer_pending s3 \<and> notifier_registered s3 \<and> command s3 \<and> chrdevs s3 = chrdevs s1"
    using s3(2) s2 s1(3) by (auto simp: freeze_frame_def serving_def)
  ultimately show ?thesis using s1(4) by (auto simp: registered_def)
qed

text \<open>
  C34: A remote logger that cannot be started. Without a socket the start of the module fails like that of
  the other parts: the timer, the notifier with its handler, and the device stay. With a socket but
  without a work queue the module says so through its own logger, which already counts as remote: it
  queues the message on the NULL queue, and loading the module faults.
\<close>

theorem failed_logger:
  assumes "cold s" "dumps_granted A" "monitoring P" "check_interval P \<noteq> 0" "good_machine M"
    and "table_symbol (world_of M) (search s) \<noteq> 0" "symbol_after (world_of M) (search s) \<noteq> 0"
    and "initial_table (world_of M) (search s) = Inr h"
    and "remote_log_ip P = Some a" "\<not> socket_ok A \<or> \<not> queue_ok A"
    and "\<forall>n. work_ok (log_envs (world_of M) n) \<and> buffer_ok (log_envs (world_of M) n) \<and>
      length (reprinted (log_envs (world_of M) n) refusal) \<le> 900"
  shows "if socket_ok A then carbonite_init M P A s = Inl Null_dereference
    else \<exists>s'. carbonite_init M P A s = Inr (- ELOGGER, s') \<and> ticking s' \<and> incident_handler s' \<and>
      notifier_registered s' \<and> command s' \<and> (major_of A, device_name CARBONITE_NAME) \<in> set (chrdevs s')"
proof -
  have E: "good_env (log_envs (world_of M) n)" for n using assms(5) by (simp add: good_machine_def)
  obtain s1 where s1: "carbonite_init M P A s = start_checker M P A s1" "booting s s1" "serving s1" "registered A s s1"
    using carbonite_reaches_checker [OF assms(1,2)] by blast
  have "\<not> incident_handler s" using assms(1) by (simp add: cold_def)
  from checker_started [OF s1(2) this assms(3,4,6-8), of A] obtain s2 where s2:
    "start_checker M P A s1 = start_logger (log_envs (world_of M)) P A s2" "ticking s2" "incident_handler s2"
    "notifier_registered s2" "\<not> log_sock s2" "\<not> log_remote s2" "command s2 = command s1" "device s2 = device s1"
    by blast
  note refused = logger_refused [where E = "log_envs (world_of M)" and A = A, OF s2(5,6) assms(9) E]
  show ?thesis
  proof (cases "socket_ok A")
    case True
    then show ?thesis using refused(2) assms(10,11) s1(1) s2(1) by simp
  next
    case False
    then obtain s3 where s3: "start_logger (log_envs (world_of M)) P A s2 = Inr (- ELOGGER, s3)" "duties s3 = duties s2"
      using refused(1) by blast
    then have "ticking s3 \<and> incident_handler s3 \<and> notifier_registered s3 \<and> command s3 \<and> device s3 = device s1"
      using s2 s1(3) duties_ticking [OF s3(2)] by (simp add: duties_def serving_def)
    then show ?thesis using False s1(1,4) s2(1) s3(1) by (auto simp: registered_def device_def)
  qed
qed

section \<open>Examples of the start\<close>

definition unloaded :: carbonite_state where
  "unloaded = integrity_state.extend (idle_checker\<lparr>dump_list := None, seq_list := None, dump_proc_entry := False\<rparr>)
     (carbonite_state.fields NONE True True)"

definition example_answers :: answers where
  "example_answers = \<lparr>major_of = 250, name_ok = True, data_ok = True, proc_ok = True, list_ok = True,
     dump_proc_ok = True, socket_ok = True, queue_ok = True\<rparr>"

lemma unloaded_cold: "cold unloaded"
  using example_heap_ok
  by (simp add: cold_def unloaded_def idle_checker_def example_chrdev_def example_dumps_def carbonite_state.defs
      integrity_state.defs chrdev_state.defs dump_state.defs chrdev_buffers_def empty_proc_def)

lemma example_granted: "granted example_answers"
  by (simp add: granted_def dumps_granted_def example_answers_def)

lemma good_example: "good_machine (example_machine b)"
  using example_plentiful by (simp add: plentiful_def)

theorem carbonite_starts_witness:
  "\<exists>s'. carbonite_init (example_machine kernel_entry) \<lparr>check_interval = 1000, monitoring = True, remote_log_ip = None, stealth = True\<rparr>
     example_answers unloaded = Inr (0, s') \<and> ticking s' \<and> serving s' \<and> \<not> in_module_list s'"
  using carbonite_starts [OF unloaded_cold example_granted good_example [of kernel_entry],
      where P = "\<lparr>check_interval = 1000, monitoring = True, remote_log_ip = None, stealth = True\<rparr>" and h = "0x4d5f413d"]
  by (auto simp: example_machine_def example_symbols example_table)

theorem failed_logger_witness:
  "carbonite_init (example_machine kernel_entry) \<lparr>check_interval = 1000, monitoring = True, remote_log_ip = Some ''10.0.0.1'', stealth = True\<rparr>
     (example_answers\<lparr>queue_ok := False\<rparr>) unloaded = Inl Null_dereference"
proof -
  define M P where "M = example_machine kernel_entry"
    and "P = \<lparr>check_interval = 1000, monitoring = True, remote_log_ip = Some ''10.0.0.1'', stealth = True\<rparr>"
  have A: "dumps_granted (example_answers\<lparr>queue_ok := False\<rparr>)" by (simp add: dumps_granted_def example_answers_def)
  have M: "table_symbol (world_of M) (search unloaded) \<noteq> 0" "symbol_after (world_of M) (search unloaded) \<noteq> 0"
    "initial_table (world_of M) (search unloaded) = Inr 0x4d5f413d" "log_envs (world_of M) = (\<lambda>_. example_env)"
    by (simp_all add: M_def example_machine_def example_symbols example_table) (simp add: example_world_def)
  have e: "work_ok example_env \<and> buffer_ok example_env \<and> length (reprinted example_env refusal) \<le> 900"
    by (simp add: example_env_def refusal_def logger_line_def KERN_ERR_def CARBONITE_NAME_def)
  have P: "monitoring P" "check_interval P \<noteq> 0" "remote_log_ip P = Some ''10.0.0.1''" by (simp_all add: P_def)
  have q: "socket_ok (example_answers\<lparr>queue_ok := False\<rparr>)" by (simp add: example_answers_def)
  from failed_logger [OF unloaded_cold A P(1,2) _ M(1-3) P(3)] e M(4) q good_example [of kernel_entry]
  show ?thesis unfolding M_def [symmetric] P_def [symmetric] by simp
qed

definition bare_world :: world where
  "bare_world = (example_world [])\<lparr>walk_of := each_symbol []\<rparr>"

theorem failed_start_leaves_hooks_witness:
  "\<exists>s'. carbonite_init ((example_machine [])\<lparr>world_of := bare_world\<rparr>)
     \<lparr>check_interval = 1000, monitoring = True, remote_log_ip = None, stealth = True\<rparr>
     example_answers unloaded = Inr (- ESYSTABLE, s') \<and> timer_pending s'"
proof -
  have "good_machine ((example_machine [])\<lparr>world_of := bare_world\<rparr>)"
    using good_example [of "[]"] by (simp add: good_machine_def bare_world_def example_machine_def)
  moreover have "table_symbol bare_world r = 0" for r
    by (simp add: table_symbol_def bare_world_def example_world_def my_kallsyms_lookup_name_def Let_def)
  ultimately show ?thesis
    using failed_start_leaves_hooks [OF unloaded_cold example_granted,
        where P = "\<lparr>check_interval = 1000, monitoring = True, remote_log_ip = None, stealth = True\<rparr>"
          and M = "(example_machine [])\<lparr>world_of := bare_world\<rparr>"]
    by auto
qed

section \<open>The end of the module\<close>

lemma destroy_logger_only:
  "\<exists>q t n. destroy_logger s = s\<lparr>log_sock := False, queued := q, sent := t, leaked_works := n\<rparr>"
proof -
  define s0 where "s0 = (if log_sock s then s\<lparr>log_sock := False\<rparr> else s)"
  have s0: "s0 = s\<lparr>log_sock := False, queued := queued s, sent := sent s, leaked_works := leaked_works s\<rparr>"
    by (cases s) (simp add: s0_def)
  show ?thesis
  proof (cases "remote_log_work_queue s")
    case False
    then have "remote_log_work_queue s0 = False" by (simp add: s0_def)
    then have d: "destroy_logger s = s0" unfolding destroy_logger_def s0_def Let_def by simp
    show ?thesis unfolding d using s0 by blast
  next
    case True
    have "\<not> log_sock (s0\<lparr>queued := []\<rparr>)" by (simp add: s0_def)
    then have r: "run_works s0 = s\<lparr>log_sock := False, queued := [], sent := sent s, leaked_works := leaked_works s + length (queued s)\<rparr>"
      unfolding run_works_def fold_ksocket_send by (simp add: s0)
    have "remote_log_work_queue s0" using True by (simp add: s0_def)
    then have d: "destroy_logger s = run_works s0" unfolding destroy_logger_def s0_def Let_def by simp
    show ?thesis unfolding d using r by blast
  qed
qed

definition stopped :: "carbonite_state \<Rightarrow> bool" where
  "stopped s \<longleftrightarrow> \<not> timer_pending s \<and> \<not> notifier_registered s \<and> \<not> command s \<and> \<not> dump_proc_entry s \<and> \<not> log_sock s"

lemma exit_run:
  assumes "good_machine M" "monitoring P" "timer_pending s"
    and "entry_shown nm dt v (proc s)" "strings_ok v" "NUL \<notin> set nm" "NUL \<notin> set dt" "NUL \<in> set (chrdev_name s)"
    and "list_at (heap s) (dump_list s) as" "owns_snapshots (heap s) as" "queue_ready s"
  shows "\<exists>s'. carbonite_exit M P s = Inr s' \<and> stopped s' \<and>
    chrdevs s' = remove1 (command_major s, cstr (chrdev_name s)) (chrdevs s) \<and>
    proc_dir (proc s') = proc_dir v \<and> strings (proc s') = strings v \<and>
    nodes (heap s') = fmdrop_set (set as) (nodes (heap s)) \<and>
    dumps (heap s') = fmdrop_set (snapshots (heap s) as) (dumps (heap s))"
proof -
  have E: "good_env (log_envs (world_of M) n)" for n using assms(1) by (simp add: good_machine_def)
  obtain kl q where s1: "print_log (log_envs (world_of M)) KERN_INFO (logger_line ''[+] Exiting'') s =
      Inr (s\<lparr>klog := kl, queued := q\<rparr>)"
    using print_log_freeze [where E = "log_envs (world_of M)" and s = s, OF E assms(11)] print_log_only by metis
  obtain p where p: "destroy_proc_entry (proc s) = Inr p" "proc_dir p = proc_dir v" "strings p = strings v"
    using destroy_entry_once [OF assms(4-7)] by blast
  define s2 where "s2 = s\<lparr>klog := kl, queued := q, proc := p,
      chrdevs := remove1 (command_major s, cstr (chrdev_name s)) (chrdevs s), command := False, command_major := 0,
      commanding_module := clear_first (commanding_module s), chrdev_name := clear_first (chrdev_name s)\<rparr>"
  have s2: "destroy_command_chrdev (s\<lparr>klog := kl, queued := q\<rparr>) = Inr s2"
    using p(1) assms(8) by (simp add: destroy_command_chrdev_def read_string_def s2_def)
  define s3 where "s3 = s2\<lparr>notifier_registered := False, timer_pending := False, timer_interval := 0,
      sys_call_table_address := 0, sys_call_table_size := 0, sys_call_table_hash := 0,
      checking_module := clear_first (checking_module s)\<rparr>"
  have s3: "destroy_sys_call_table_integrity_checker s2 = Inr s3"
    using assms(3) by (simp add: destroy_sys_call_table_integrity_checker_def s2_def s3_def Let_def)
  define h where "h = (heap s)\<lparr>nodes := fmdrop_set (set as) (nodes (heap s)), dumps := fmdrop_set (snapshots (heap s) as) (dumps (heap s))\<rparr>"
  have "destroy_task_dump_list (dump_list s) (heap s) = Inr h"
    using destroy_list_run [OF assms(9,10)] by (simp add: h_def)
  then have s4: "destroy_task_dump s3 = Inr ((destroy_dump_seq_file s3)\<lparr>heap := h\<rparr>)"
    by (simp add: destroy_task_dump_def destroy_dump_seq_file_def s3_def s2_def)
  obtain r t n where s5: "destroy_logger ((destroy_dump_seq_file s3)\<lparr>heap := h\<rparr>) =
      ((destroy_dump_seq_file s3)\<lparr>heap := h\<rparr>)\<lparr>log_sock := False, queued := r, sent := t, leaked_works := n\<rparr>"
    using destroy_logger_only by blast
  have "carbonite_exit M P s =
      Inr (((destroy_dump_seq_file s3)\<lparr>heap := h\<rparr>)\<lparr>log_sock := False, queued := r, sent := t, leaked_works := n\<rparr>)"
    using s1 s2 s3 s4 s5 assms(2) by (simp add: carbonite_exit_def)
  then show ?thesis
    using p by (simp add: stopped_def destroy_dump_seq_file_def s3_def s2_def h_def)
qed

text \<open>
  Unloading the module, which is possible without stealth, stops the timer and the notifier, takes
  away the device and both proc entries, closes the socket, and frees the copies of the proc entry's
  texts, every node and every snapshot, each once. A remote logger has its work queue.
\<close>

theorem carbonite_stops:
  assumes "good_machine M" "monitoring P" "timer_pending s"
    and "entry_shown nm dt v (proc s)" "strings_ok v" "NUL \<notin> set nm" "NUL \<notin> set dt" "NUL \<in> set (chrdev_name s)"
    and "list_at (heap s) (dump_list s) as" "owns_snapshots (heap s) as" "queue_ready s"
  shows "\<exists>s'. carbonite_exit M P s = Inr s' \<and> stopped s' \<and>
    chrdevs s' = remove1 (command_major s, cstr (chrdev_name s)) (chrdevs s) \<and>
    proc_dir (proc s') = proc_dir v \<and> strings (proc s') = strings v \<and>
    nodes (heap s') = fmdrop_set (set as) (nodes (heap s)) \<and>
    dumps (heap s') = fmdrop_set (snapshots (heap s) as) (dumps (heap s))"
  using assms by (rule exit_run)

theorem carbonite_stops_witness:
  "\<exists>s s'. timer_pending s \<and> proc_dir (proc s) = [''x''] \<and>
     carbonite_exit (example_machine []) \<lparr>check_interval = 1000, monitoring = True, remote_log_ip = None, stealth = False\<rparr> s = Inr s' \<and>
     stopped s' \<and> proc_dir (proc s') = []"
proof -
  obtain v where v: "entry_shown ''x'' ''1'' empty_proc v"
    using init_entry_shown [of empty_proc "''x''" "''1''"] by (auto simp: empty_proc_def)
  define s where "s = (armed NONE)\<lparr>proc := v\<rparr>"
  have s: "timer_pending s" "heap s = example_heap example_dump" "dump_list s = Some 1" "proc s = v"
    using armed_fields [of NONE] by (simp_all add: s_def)
  have n: "NUL \<in> set (chrdev_name s)"
    by (simp add: s_def armed_def idle_checker_def carbonite_state.defs integrity_state.defs example_chrdev_def
        example_dumps_def chrdev_state.defs dump_state.defs MODULE_NAME_LEN_def)
  have o: "owns_snapshots (example_heap example_dump) [2]"
    by (simp add: owns_snapshots_def dumps_of_def snapshots_def example_heap_def)
  have ok: "strings_ok empty_proc" by (simp add: strings_ok_def empty_proc_def)
  have q: "queue_ready s" using armed_ready [of NONE] by (simp add: s_def queue_ready_def)
  have "\<exists>s'. carbonite_exit (example_machine []) \<lparr>check_interval = 1000, monitoring = True, remote_log_ip = None, stealth = False\<rparr> s = Inr s' \<and>
      stopped s' \<and> chrdevs s' = remove1 (command_major s, cstr (chrdev_name s)) (chrdevs s) \<and>
      proc_dir (proc s') = proc_dir empty_proc \<and> strings (proc s') = strings empty_proc \<and>
      nodes (heap s') = fmdrop_set (set [2]) (nodes (heap s)) \<and>
      dumps (heap s') = fmdrop_set (snapshots (heap s) [2]) (dumps (heap s))"
    by (rule carbonite_stops [OF good_example _ s(1) _ ok _ _ n, where nm = "''x''" and dt = "''1''"])
      (use v o example_heap_list(1) s q in simp_all)
  then show ?thesis using s(1,4) v by (auto simp: entry_shown_def empty_proc_def)
qed

end
