(* ===== verification/Exit_Race.thy ===== *)
theory Exit_Race imports Carbonite begin

text \<open>
  The end of the check of the system call table (sys-call-table-integrity-check.c) while a tick of its
  timer is under way on another processor. del_timer takes a waiting timer away but does not wait for a
  function that already runs, and that function sets the timer up again. Both are given as their single
  steps, with a program counter each: every read by the tick of a number that the end clears, and
  every store of the end, is a step of its own. Where C leaves the order of two reads open, the
  arguments of the hash are read from the left to the right and the stored hash is read last.
\<close>

section \<open>The steps of a tick and of the end\<close>

datatype tick_pc =
    Load_address
  | Load_size "64 word"
  | Compare_hash "64 word" "32 word"
  | Report_hash bool
  | Call_handler
  | Clear_handler
  | Test_interval
  | Set_timer
  | Tick_done

definition hash_at :: "world \<Rightarrow> 64 word \<Rightarrow> 32 word \<Rightarrow> 32 word run" where
  "hash_at W a n = super_fast_hash (if a = 0 then None else Some (memory W a)) n"

text \<open>
  The function of a timer that is due and no longer waits. The arguments of the hash are read one by
  one; the hash itself reads only them and the memory of the table. The set up timer is inactive before
  mod_timer.
\<close>

primrec tick_step ::
  "(int \<Rightarrow> 'a integrity_state_scheme \<Rightarrow> 'a integrity_state_scheme run) \<Rightarrow> world \<Rightarrow> tick_pc \<Rightarrow> 'a integrity_state_scheme \<Rightarrow>
   (tick_pc \<times> 'a integrity_state_scheme) run" where
  "tick_step handle W Load_address s = Inr (Load_size (sys_call_table_address s), s)"
| "tick_step handle W (Load_size a) s = Inr (Compare_hash a (sys_call_table_size s), s)"
| "tick_step handle W (Compare_hash a n) s =
     run_bind (hash_at W a n) (\<lambda>h. Inr (Report_hash (sys_call_table_hash s \<noteq> h), s))"
| "tick_step handle W (Report_hash modified) s =
     run_bind (read_string (checking_module s)) (\<lambda>n.
     Inr (if modified then (Call_handler, printk (modified_line n) s) else (Test_interval, printk (unmodified_line n) s)))"
| "tick_step handle W Call_handler s =
     (if incident_handler s then run_bind (handle AFTER_INCIDENT s) (\<lambda>s. Inr (Clear_handler, s)) else Inr (Test_interval, s))"
| "tick_step handle W Clear_handler s = Inr (Test_interval, s\<lparr>incident_handler := False\<rparr>)"
| "tick_step handle W Test_interval s = Inr (if timer_interval s = 0 then Tick_done else Set_timer, s)"
| "tick_step handle W Set_timer s = Inr (Tick_done, s\<lparr>timer_pending := True\<rparr>)"
| "tick_step handle W Tick_done s = Inr (Tick_done, s)"

text \<open>The chain of assignments at the end of the function stores from the right to the left.\<close>

datatype destroy_pc =
    Unregister
  | Delete_timer
  | Test_deleted bool
  | Clear_name
  | Clear_hash
  | Clear_size
  | Clear_address
  | Clear_interval
  | Destroyed

primrec destroy_step :: "destroy_pc \<Rightarrow> 'a integrity_state_scheme \<Rightarrow> (destroy_pc \<times> 'a integrity_state_scheme) run" where
  "destroy_step Unregister s = Inr (Delete_timer, s\<lparr>notifier_registered := False\<rparr>)"
| "destroy_step Delete_timer s = Inr (Test_deleted (timer_pending s), s\<lparr>timer_pending := False\<rparr>)"
| "destroy_step (Test_deleted ret) s =
     (if ret then Inr (Clear_name, s)
      else run_bind (read_string (checking_module s)) (\<lambda>n.
           Inr (Clear_name, printk (n @ '':'' @ CHR 0x09 # ''[-] Failed to delete timer'' @ [CHR 0x0A]) s)))"
| "destroy_step Clear_name s = Inr (Clear_hash, s\<lparr>checking_module := clear_first (checking_module s)\<rparr>)"
| "destroy_step Clear_hash s = Inr (Clear_size, s\<lparr>sys_call_table_hash := 0\<rparr>)"
| "destroy_step Clear_size s = Inr (Clear_address, s\<lparr>sys_call_table_size := 0\<rparr>)"
| "destroy_step Clear_address s = Inr (Clear_interval, s\<lparr>sys_call_table_address := 0\<rparr>)"
| "destroy_step Clear_interval s = Inr (Destroyed, s\<lparr>timer_interval := 0\<rparr>)"
| "destroy_step Destroyed s = Inr (Destroyed, s)"

text \<open>A schedule says which of the two makes the next step.\<close>

datatype exit_actor = Ticker | Remover

primrec exit_race ::
  "(int \<Rightarrow> 'a integrity_state_scheme \<Rightarrow> 'a integrity_state_scheme run) \<Rightarrow> world \<Rightarrow> exit_actor list \<Rightarrow>
   tick_pc \<times> destroy_pc \<times> 'a integrity_state_scheme \<Rightarrow> (tick_pc \<times> destroy_pc \<times> 'a integrity_state_scheme) run" where
  "exit_race handle W [] c = Inr c"
| "exit_race handle W (x # xs) c =
     (case c of (t, d, s) \<Rightarrow>
        (case x of
           Ticker \<Rightarrow> run_bind (tick_step handle W t s) (\<lambda>(t, s). exit_race handle W xs (t, d, s))
         | Remover \<Rightarrow> run_bind (destroy_step d s) (\<lambda>(d, s). exit_race handle W xs (t, d, s))))"

lemma exit_race_snoc:
  "exit_race handle W (xs @ [x]) c = run_bind (exit_race handle W xs c) (exit_race handle W [x])"
  by (induction xs arbitrary: c) (auto simp: run_bind_assoc split: exit_actor.splits intro!: run_bind_cong)

text \<open>Undisturbed, the steps are the functions.\<close>

lemma eight_steps: "replicate 8 x = x # x # x # x # [x, x, x, x]"
  by (simp add: numeral_eq_Suc)

lemma handled_steps:
  "exit_race handle W [Ticker, Ticker, Ticker, Ticker] (Call_handler, d, s) =
   run_bind
     (run_bind
       (if incident_handler s then run_bind (handle AFTER_INCIDENT s) (\<lambda>s. Inr (s\<lparr>incident_handler := False\<rparr>)) else Inr s)
       register_timer_interrupt)
     (\<lambda>s. Inr (Tick_done, d, s))"
  by (cases "incident_handler s"; cases "handle AFTER_INCIDENT s") (simp_all add: register_timer_interrupt_def Let_def)

lemma undisturbed_tick:
  "exit_race handle W (replicate 8 Ticker) (Load_address, d, s) =
   run_bind (sys_call_table_integrity_checker handle W s) (\<lambda>s. Inr (Tick_done, d, s))"
proof -
  have hash: "hash_at W (sys_call_table_address s) (sys_call_table_size s) = table_hash W s"
    by (simp add: hash_at_def table_hash_def)
  show ?thesis
  proof (cases "table_hash W s")
    case h: (Inr h)
    show ?thesis
    proof (cases "read_string (checking_module s)")
      case n: (Inr n)
      show ?thesis
      proof (cases "sys_call_table_hash s = h")
        case True
        then show ?thesis
          using h n hash by (simp add: eight_steps sys_call_table_integrity_checker_def register_timer_interrupt_def Let_def)
      next
        case False
        have "exit_race handle W (replicate 8 Ticker) (Load_address, d, s) =
            exit_race handle W [Ticker, Ticker, Ticker, Ticker] (Call_handler, d, printk (modified_line n) s)"
          using h n hash False by (simp add: eight_steps)
        then show ?thesis
          unfolding handled_steps using h n False by (simp add: sys_call_table_integrity_checker_def)
      qed
    qed (use h hash in \<open>simp add: sys_call_table_integrity_checker_def eight_steps\<close>)
  qed (use hash in \<open>simp add: sys_call_table_integrity_checker_def eight_steps\<close>)
qed

lemma undisturbed_destroy:
  "exit_race handle W (replicate 8 Remover) (t, Unregister, s) =
   run_bind (destroy_sys_call_table_integrity_checker s) (\<lambda>s. Inr (t, Destroyed, s))"
  by (cases s) (simp add: eight_steps destroy_sys_call_table_integrity_checker_def run_bind_assoc printk_def Let_def)

section \<open>Any schedule\<close>

text \<open>How many steps the tick has made when the end makes its n-th step, or so far.\<close>

fun ticks_before :: "nat \<Rightarrow> exit_actor list \<Rightarrow> nat" where
  "ticks_before n [] = 0"
| "ticks_before n (Ticker # xs) = (if n = 0 then 0 else Suc (ticks_before n xs))"
| "ticks_before n (Remover # xs) = ticks_before (n - 1) xs"

abbreviation ticks :: "exit_actor list \<Rightarrow> nat" where "ticks xs \<equiv> count_list xs Ticker"
abbreviation removals :: "exit_actor list \<Rightarrow> nat" where "removals xs \<equiv> count_list xs Remover"

lemma ticks_before_0 [simp]: "ticks_before 0 xs = 0"
proof (induction xs)
  case (Cons x xs)
  then show ?case by (cases x) simp_all
qed simp

lemma ticks_before_snoc:
  "ticks_before n (xs @ [Remover]) = ticks_before n xs"
  "ticks_before n (xs @ [Ticker]) = ticks_before n xs + (if removals xs < n then 1 else 0)"
  by (induction n xs rule: ticks_before.induct) auto

lemma ticks_before_all: "removals xs < n \<Longrightarrow> ticks_before n xs = ticks xs"
  by (induction n xs rule: ticks_before.induct) auto

lemma ticks_before_le: "ticks_before n xs \<le> ticks xs"
  by (induction n xs rule: ticks_before.induct) auto

lemma ticks_before_mono: "m \<le> n \<Longrightarrow> ticks_before m xs \<le> ticks_before n xs"
  by (induction n xs arbitrary: m rule: ticks_before.induct) auto

text \<open>
  What the tick finds, when h is the hash of the table. The tick makes its reads of the address, of the
  size and of the stored hash with its first three steps; the end clears the stored hash with its
  fifth step, then the size, the address and, with its eighth, the interval. A tick that read the size
  before it was cleared computes h, and compares it with the stored hash or with what clearing left. One
  that read the size later computes 0 and finds 0.
\<close>

definition finds_change :: "32 word \<Rightarrow> 'a integrity_state_scheme \<Rightarrow> exit_actor list \<Rightarrow> bool" where
  "finds_change h s xs \<longleftrightarrow> 2 \<le> ticks_before 6 xs \<and> h \<noteq> (if ticks_before 5 xs < 3 then 0 else sys_call_table_hash s)"

text \<open>The step with which the tick tests the interval: calling and clearing a handler are two more.\<close>

definition test_step :: "32 word \<Rightarrow> 'a integrity_state_scheme \<Rightarrow> exit_actor list \<Rightarrow> nat" where
  "test_step h s xs = (if finds_change h s xs then if incident_handler s then 7 else 6 else 5)"

definition incident_at :: "nat \<Rightarrow> 32 word \<Rightarrow> 'a integrity_state_scheme \<Rightarrow> exit_actor list \<Rightarrow> bool" where
  "incident_at n h s xs \<longleftrightarrow> n \<le> ticks xs \<and> finds_change h s xs \<and> incident_handler s"

definition tick_at :: "32 word \<Rightarrow> 'a integrity_state_scheme \<Rightarrow> exit_actor list \<Rightarrow> tick_pc" where
  "tick_at h s xs =
     (let n = ticks xs; a = (if 1 \<le> ticks_before 7 xs then sys_call_table_address s else 0);
          z = (if 2 \<le> ticks_before 6 xs then sys_call_table_size s else 0);
          m = finds_change h s xs; k = test_step h s xs in
      if n = 0 then Load_address else if n = 1 then Load_size a else if n = 2 then Compare_hash a z
      else if n = 3 then Report_hash m else if m \<and> n = 4 then Call_handler
      else if m \<and> incident_handler s \<and> n = 5 then Clear_handler
      else if n < k then Test_interval
      else if n = k \<and> k \<le> ticks_before 8 xs then Set_timer else Tick_done)"

definition rearmed :: "32 word \<Rightarrow> 'a integrity_state_scheme \<Rightarrow> exit_actor list \<Rightarrow> bool" where
  "rearmed h s xs \<longleftrightarrow> test_step h s xs < ticks xs \<and> test_step h s xs \<le> ticks_before 8 xs \<and>
     (removals xs < 2 \<or> ticks_before 2 xs \<le> test_step h s xs)"

definition destroy_at :: "32 word \<Rightarrow> 'a integrity_state_scheme \<Rightarrow> exit_actor list \<Rightarrow> destroy_pc" where
  "destroy_at h s xs =
     (if removals xs < 8
      then [Unregister, Delete_timer, Test_deleted (test_step h s xs < ticks_before 2 xs),
            Clear_name, Clear_hash, Clear_size, Clear_address, Clear_interval] ! removals xs
      else Destroyed)"

text \<open>The variables after a schedule.\<close>

definition exit_vars :: "32 word \<Rightarrow> 'a integrity_state_scheme \<Rightarrow> exit_actor list \<Rightarrow> 'a integrity_state_scheme \<Rightarrow> bool" where
  "exit_vars h s xs s' \<longleftrightarrow>
     notifier_registered s' = (notifier_registered s \<and> removals xs = 0) \<and> timer_pending s' = rearmed h s xs \<and>
     checking_module s' = (if 4 \<le> removals xs then clear_first (checking_module s) else checking_module s) \<and>
     sys_call_table_hash s' = (if 5 \<le> removals xs then 0 else sys_call_table_hash s) \<and>
     sys_call_table_size s' = (if 6 \<le> removals xs then 0 else sys_call_table_size s) \<and>
     sys_call_table_address s' = (if 7 \<le> removals xs then 0 else sys_call_table_address s) \<and>
     timer_interval s' = (if 8 \<le> removals xs then 0 else timer_interval s) \<and>
     incident_handler s' = (incident_handler s \<and> \<not> incident_at 6 h s xs)"

text \<open>The snapshots after a schedule.\<close>

definition exit_dumps :: "machine \<Rightarrow> 32 word \<Rightarrow> carbonite_state \<Rightarrow> nat list \<Rightarrow> exit_actor list \<Rightarrow> carbonite_state \<Rightarrow> bool" where
  "exit_dumps M h s as xs s' \<longleftrightarrow> queue_ready s' \<and> dump_list s' = dump_list s \<and>
     previous_reason s' = (if incident_at 5 h s xs then AFTER_INCIDENT else previous_reason s) \<and>
     (\<exists>bs. evidence (heap s') (dump_list s) bs \<and> texts (heap s') bs = texts (heap s) as @
        (if incident_at 5 h s xs \<and> previous_reason s \<noteq> AFTER_MODULE_INIT then process_lines M else []))"

lemma finds_change_snoc [simp]:
  "finds_change h s (xs @ [Remover]) = finds_change h s xs"
  "3 \<le> ticks xs \<Longrightarrow> finds_change h s (xs @ [Ticker]) = finds_change h s xs"
  using ticks_before_all [of xs 6] ticks_before_all [of xs 5]
  by (auto simp: finds_change_def ticks_before_snoc)

lemma test_step_snoc [simp]:
  "test_step h s (xs @ [Remover]) = test_step h s xs"
  "3 \<le> ticks xs \<Longrightarrow> test_step h s (xs @ [Ticker]) = test_step h s xs"
  by (simp_all add: test_step_def)

lemma incident_at_snoc [simp]:
  "incident_at n h s (xs @ [Remover]) = incident_at n h s xs"
  "3 \<le> ticks xs \<Longrightarrow> incident_at n h s (xs @ [Ticker]) = (n \<le> Suc (ticks xs) \<and> finds_change h s xs \<and> incident_handler s)"
  by (simp_all add: incident_at_def)

lemma test_step_bounds: "5 \<le> test_step h s xs" "test_step h s xs \<le> 7"
  by (simp_all add: test_step_def)

lemma early [simp]:
  "ticks xs < 5 \<Longrightarrow> \<not> rearmed h s xs" "ticks xs < n \<Longrightarrow> \<not> incident_at n h s xs"
  using test_step_bounds [of h s xs] by (auto simp: rearmed_def incident_at_def)

lemma exit_dumps_vars [simp]:
  "exit_dumps M h s as xs (s'\<lparr>klog := l\<rparr>) = exit_dumps M h s as xs s'"
  "exit_dumps M h s as xs (s'\<lparr>timer_pending := b\<rparr>) = exit_dumps M h s as xs s'"
  "exit_dumps M h s as xs (s'\<lparr>incident_handler := b\<rparr>) = exit_dumps M h s as xs s'"
  "exit_dumps M h s as xs (s'\<lparr>notifier_registered := b\<rparr>) = exit_dumps M h s as xs s'"
  "exit_dumps M h s as xs (s'\<lparr>checking_module := c\<rparr>) = exit_dumps M h s as xs s'"
  "exit_dumps M h s as xs (s'\<lparr>sys_call_table_hash := v\<rparr>) = exit_dumps M h s as xs s'"
  "exit_dumps M h s as xs (s'\<lparr>sys_call_table_size := z\<rparr>) = exit_dumps M h s as xs s'"
  "exit_dumps M h s as xs (s'\<lparr>sys_call_table_address := a\<rparr>) = exit_dumps M h s as xs s'"
  "exit_dumps M h s as xs (s'\<lparr>timer_interval := i\<rparr>) = exit_dumps M h s as xs s'"
  by (simp_all add: exit_dumps_def queue_ready_def)

lemma exit_dumps_incident:
  "incident_at 5 h s ys = incident_at 5 h s xs \<Longrightarrow> exit_dumps M h s as ys s' = exit_dumps M h s as xs s'"
  by (simp add: exit_dumps_def)

lemma exit_name:
  assumes "NUL \<in> set (checking_module s)" "exit_vars h s xs s'"
  shows "\<exists>n. read_string (checking_module s') = Inr n"
proof -
  have "NUL \<in> set (clear_first (checking_module s))"
    using assms(1) by (cases "checking_module s") (auto simp: clear_first_def)
  then show ?thesis using assms by (simp add: exit_vars_def read_string_def)
qed

lemma exit_hash:
  assumes "table_hash W s = Inr h" "ticks xs = 2" "exit_vars h s xs s'"
  shows "tick_step handle W (tick_at h s xs) s' = Inr (Report_hash (finds_change h s (xs @ [Ticker])), s')"
proof -
  note le = ticks_before_mono [of 6 7 xs] ticks_before_mono [of 5 6 xs] ticks_before_le [of 5 xs] ticks_before_le [of 6 xs]
  have none: "hash_at W a 0 = Inr 0" for a by (simp add: hash_at_def super_fast_hash_def)
  have all: "hash_at W (sys_call_table_address s) (sys_call_table_size s) = Inr h"
    using assms(1) by (simp add: hash_at_def table_hash_def)
  show ?thesis
  proof (cases "2 \<le> ticks_before 6 xs")
    case True
    then show ?thesis
      using assms(2,3) all le ticks_before_all [of xs 5]
      by (auto simp: tick_at_def exit_vars_def finds_change_def ticks_before_snoc)
  next
    case False
    then have "6 \<le> removals xs" using ticks_before_all [of xs 6] assms(2) by linarith
    with False show ?thesis
      using assms(2,3) none by (simp add: tick_at_def exit_vars_def finds_change_def ticks_before_snoc)
  qed
qed

text \<open>The handler is carbonite's.\<close>

lemma exit_handler:
  assumes "plentiful M" "exit_vars h s xs s'" "exit_dumps M h s as xs s'"
    and "ticks xs = 4" "finds_change h s xs" "incident_handler s"
  shows "\<exists>s''. carbonite M AFTER_INCIDENT s' = Inr s'' \<and> exit_vars h s (xs @ [Ticker]) s'' \<and>
    exit_dumps M h s as (xs @ [Ticker]) s''"
proof -
  have n: "\<not> incident_at 5 h s xs" "incident_at 5 h s (xs @ [Ticker])" "\<not> incident_at 6 h s (xs @ [Ticker])" "\<not> incident_at 6 h s xs"
    "rearmed h s (xs @ [Ticker]) = rearmed h s xs"
    using assms(4-6) by (simp_all add: incident_at_def rearmed_def test_step_def)
  obtain bs where bs: "queue_ready s'" "dump_list s' = dump_list s" "previous_reason s' = previous_reason s"
    "evidence (heap s') (dump_list s) bs" "texts (heap s') bs = texts (heap s) as"
    using assms(3) n(1) by (auto simp: exit_dumps_def)
  show ?thesis
  proof (cases "previous_reason s = AFTER_MODULE_INIT")
    case True
    then have "carbonite M AFTER_INCIDENT s' = Inr (s'\<lparr>previous_reason := AFTER_INCIDENT\<rparr>)"
      using bs(3) by (simp add: carbonite_def)
    moreover have "exit_vars h s (xs @ [Ticker]) (s'\<lparr>previous_reason := AFTER_INCIDENT\<rparr>)"
      using assms(2) n by (simp add: exit_vars_def)
    moreover have "exit_dumps M h s as (xs @ [Ticker]) (s'\<lparr>previous_reason := AFTER_INCIDENT\<rparr>)"
      using True bs n by (auto simp: exit_dumps_def queue_ready_def)
    ultimately show ?thesis by blast
  next
    case False
    obtain s1 cs where s1: "carbonite M AFTER_INCIDENT s' = Inr (s1\<lparr>previous_reason := AFTER_INCIDENT\<rparr>)" "freeze_frame s' s1"
      "evidence (heap s1) (dump_list s) cs" "texts (heap s1) cs = texts (heap s) as @ process_lines M"
      using carbonite_texts [OF assms(1), of s' bs AFTER_INCIDENT] bs False by auto
    have "exit_vars h s (xs @ [Ticker]) (s1\<lparr>previous_reason := AFTER_INCIDENT\<rparr>)"
      using freeze_checker_vars [OF s1(2)] freeze_frame_checker [OF s1(2)] assms(2) n
      by (simp add: exit_vars_def checker_vars_def)
    moreover have "queue_ready s1" "dump_list s1 = dump_list s"
      using freeze_queue_ready [OF s1(2)] freeze_frame_fields [OF s1(2)] bs(1,2) by simp_all
    then have "exit_dumps M h s as (xs @ [Ticker]) (s1\<lparr>previous_reason := AFTER_INCIDENT\<rparr>)"
      using False s1(3,4) n by (auto simp: exit_dumps_def queue_ready_def)
    ultimately show ?thesis using s1(1) by blast
  qed
qed

text \<open>The end of the tick: the test of the interval is its k-th step.\<close>

lemma exit_test:
  assumes "timer_interval s \<noteq> 0" "Suc (ticks xs) = test_step h s xs" "exit_vars h s xs s'" "tick_at h s xs = Test_interval"
  shows "tick_step handle W (tick_at h s xs) s' = Inr (tick_at h s (xs @ [Ticker]), s')"
    "rearmed h s (xs @ [Ticker]) = rearmed h s xs"
proof -
  have n: "4 \<le> ticks xs" using assms(2) test_step_bounds(1) [of h s xs] by simp
  have "test_step h s xs \<le> ticks_before 8 (xs @ [Ticker]) \<longleftrightarrow> removals xs < 8"
    using assms(2) ticks_before_all [of xs 8] ticks_before_le [of 8 xs] by (simp add: ticks_before_snoc)
  moreover have "timer_interval s' = 0 \<longleftrightarrow> \<not> removals xs < 8" using assms(1,3) by (simp add: exit_vars_def not_less)
  moreover have "tick_at h s (xs @ [Ticker]) = (if test_step h s xs \<le> ticks_before 8 (xs @ [Ticker]) then Set_timer else Tick_done)"
    using n assms(2) by (auto simp: tick_at_def Let_def test_step_def split: if_splits)
  ultimately show "tick_step handle W (tick_at h s xs) s' = Inr (tick_at h s (xs @ [Ticker]), s')"
    using assms(4) by simp
  show "rearmed h s (xs @ [Ticker]) = rearmed h s xs" using n assms(2) by (simp add: rearmed_def)
qed

lemma exit_set:
  assumes "ticks xs = test_step h s xs" "exit_vars h s xs s'" "exit_dumps M h s as xs s'"
  shows "\<exists>s''. tick_step handle W (tick_at h s xs) s' = Inr (tick_at h s (xs @ [Ticker]), s'') \<and>
    exit_vars h s (xs @ [Ticker]) s'' \<and> exit_dumps M h s as (xs @ [Ticker]) s''"
proof -
  note k = test_step_bounds [of h s xs]
  have n: "3 \<le> ticks xs" using assms(1) k(1) by simp
  have i: "incident_at 5 h s (xs @ [Ticker]) = incident_at 5 h s xs" "incident_at 6 h s (xs @ [Ticker]) = incident_at 6 h s xs"
    using n assms(1) by (auto simp: incident_at_def test_step_def)
  have at: "tick_at h s xs = (if test_step h s xs \<le> ticks_before 8 xs then Set_timer else Tick_done)"
    "tick_at h s (xs @ [Ticker]) = Tick_done"
    using n assms(1) by (auto simp: tick_at_def Let_def test_step_def)
  have before: "test_step h s xs \<le> ticks_before 8 (xs @ [Ticker]) \<longleftrightarrow> test_step h s xs \<le> ticks_before 8 xs"
    using assms(1) ticks_before_all [of xs 8] by (auto simp: ticks_before_snoc)
  have two: "removals xs < 2 \<or> ticks_before 2 (xs @ [Ticker]) \<le> test_step h s xs"
    using assms(1) ticks_before_le [of 2 xs] by (auto simp: ticks_before_snoc)
  have "rearmed h s (xs @ [Ticker]) \<longleftrightarrow> test_step h s xs \<le> ticks_before 8 xs" "\<not> rearmed h s xs"
    using n assms(1) before two by (simp_all add: rearmed_def)
  then show ?thesis
    using at assms(2,3) i by (auto simp: exit_vars_def exit_dumps_incident [OF i(1)])
qed

lemma exit_idle:
  assumes "test_step h s xs < ticks xs" "exit_vars h s xs s'" "exit_dumps M h s as xs s'"
  shows "tick_step handle W (tick_at h s xs) s' = Inr (tick_at h s (xs @ [Ticker]), s') \<and>
    exit_vars h s (xs @ [Ticker]) s' \<and> exit_dumps M h s as (xs @ [Ticker]) s'"
proof -
  note k = test_step_bounds [of h s xs]
  have n: "3 \<le> ticks xs" using assms(1) k(1) by simp
  have i: "incident_at 5 h s (xs @ [Ticker]) = incident_at 5 h s xs" "incident_at 6 h s (xs @ [Ticker]) = incident_at 6 h s xs"
    using n assms(1) by (auto simp: incident_at_def test_step_def split: if_splits)
  have "tick_at h s xs = Tick_done" "tick_at h s (xs @ [Ticker]) = Tick_done"
    using n assms(1) by (auto simp: tick_at_def Let_def test_step_def split: if_splits)
  moreover have "ticks_before 8 (xs @ [Ticker]) \<ge> test_step h s xs \<longleftrightarrow> ticks_before 8 xs \<ge> test_step h s xs"
    using assms(1) ticks_before_all [of xs 8] by (auto simp: ticks_before_snoc)
  moreover have "removals xs < 2 \<or> ticks_before 2 (xs @ [Ticker]) = ticks_before 2 xs" by (auto simp: ticks_before_snoc)
  ultimately show ?thesis
    using assms n i by (auto simp: exit_vars_def exit_dumps_incident [OF i(1)] rearmed_def)
qed

lemma exit_late:
  assumes "plentiful M" "timer_interval s \<noteq> 0" "4 \<le> ticks xs" "exit_vars h s xs s'" "exit_dumps M h s as xs s'"
  shows "\<exists>s''. tick_step (carbonite M) W (tick_at h s xs) s' = Inr (tick_at h s (xs @ [Ticker]), s'') \<and>
    exit_vars h s (xs @ [Ticker]) s'' \<and> exit_dumps M h s as (xs @ [Ticker]) s''"
proof -
  have n: "3 \<le> ticks xs" using assms(3) by simp
  have at_test: "Suc (ticks xs) = test_step h s xs \<Longrightarrow> tick_at h s xs = Test_interval"
    using assms(3) by (cases "finds_change h s xs"; cases "incident_handler s") (simp_all add: test_step_def tick_at_def)
  have called: "Suc (ticks xs) < test_step h s xs \<Longrightarrow>
      finds_change h s xs \<and> (ticks xs = 4 \<or> ticks xs = 5 \<and> incident_handler s)"
    using assms(3) by (cases "finds_change h s xs"; cases "incident_handler s") (auto simp: test_step_def)
  consider "test_step h s xs < ticks xs" | "ticks xs = test_step h s xs" | "Suc (ticks xs) = test_step h s xs" "tick_at h s xs = Test_interval"
    | "ticks xs = 4" "finds_change h s xs" | "ticks xs = 5" "finds_change h s xs" "incident_handler s"
    using at_test called by (metis not_less_less_Suc_eq linorder_neqE_nat)
  then show ?thesis
  proof cases
    case 1
    then show ?thesis using exit_idle [OF 1 assms(4,5)] by blast
  next
    case 2
    then show ?thesis using exit_set [OF 2 assms(4,5)] by blast
  next
    case 3
    have i: "incident_at 5 h s (xs @ [Ticker]) = incident_at 5 h s xs" "incident_at 6 h s (xs @ [Ticker]) = incident_at 6 h s xs"
      using n 3(1) by (auto simp: incident_at_def test_step_def)
    have "exit_vars h s (xs @ [Ticker]) s'" "exit_dumps M h s as (xs @ [Ticker]) s'"
      using exit_test(2) [OF assms(2) 3(1) assms(4) 3(2)] assms(4,5) exit_dumps_incident [OF i(1)] i
      by (simp_all add: exit_vars_def)
    then show ?thesis using exit_test(1) [OF assms(2) 3(1) assms(4) 3(2)] by blast
  next
    case 4
    have at: "tick_at h s xs = Call_handler" "tick_at h s (xs @ [Ticker]) = (if incident_handler s then Clear_handler else Test_interval)"
      using 4 n by (simp_all add: tick_at_def Let_def test_step_def)
    have h: "incident_handler s' = incident_handler s" using 4 assms(4) by (simp add: exit_vars_def incident_at_def)
    show ?thesis
    proof (cases "incident_handler s")
      case True
      then show ?thesis using exit_handler [OF assms(1,4,5) 4 True] at h by auto
    next
      case False
      then have i: "\<not> incident_at m h s ys" for m ys by (simp add: incident_at_def)
      then have "exit_vars h s (xs @ [Ticker]) s'" "exit_dumps M h s as (xs @ [Ticker]) s'"
        using 4 n assms(4,5) by (simp_all add: exit_vars_def exit_dumps_def rearmed_def test_step_def)
      then show ?thesis using False at h by simp
    qed
  next
    case 5
    have at: "tick_at h s xs = Clear_handler" "tick_at h s (xs @ [Ticker]) = Test_interval"
      using 5 n by (simp_all add: tick_at_def Let_def test_step_def)
    have i: "incident_at 5 h s (xs @ [Ticker]) = incident_at 5 h s xs" "incident_at 6 h s (xs @ [Ticker])"
      "rearmed h s (xs @ [Ticker]) = rearmed h s xs"
      using 5 n by (simp_all add: incident_at_def rearmed_def test_step_def)
    then show ?thesis using at assms(4,5) by (simp add: exit_vars_def exit_dumps_incident [OF i(1)])
  qed
qed

lemma tick_exit:
  assumes "plentiful M" "table_hash W s = Inr h" "timer_interval s \<noteq> 0" "NUL \<in> set (checking_module s)"
    and "exit_vars h s xs s'" "exit_dumps M h s as xs s'"
  shows "\<exists>s''. tick_step (carbonite M) W (tick_at h s xs) s' = Inr (tick_at h s (xs @ [Ticker]), s'') \<and>
    exit_vars h s (xs @ [Ticker]) s'' \<and> exit_dumps M h s as (xs @ [Ticker]) s''"
proof -
  obtain n where n: "read_string (checking_module s') = Inr n" using exit_name [OF assms(4,5)] by blast
  note k = test_step_bounds [of h s xs]
  have early: "exit_vars h s (xs @ [Ticker]) s'" "exit_dumps M h s as (xs @ [Ticker]) s'" if "ticks xs \<le> 3"
    using that assms(5,6) by (simp_all add: exit_vars_def exit_dumps_def)
  consider "ticks xs = 0" | "ticks xs = 1" | "ticks xs = 2" | "ticks xs = 3" | "4 \<le> ticks xs" by linarith
  then show ?thesis
  proof cases
    case 1
    then have "ticks_before 7 xs = 0" using ticks_before_le [of 7 xs] by simp
    with 1 have "tick_at h s xs = Load_address" "tick_at h s (xs @ [Ticker]) = Load_size (sys_call_table_address s')"
      using assms(5) by (simp_all add: tick_at_def exit_vars_def ticks_before_snoc)
    with 1 early show ?thesis by simp
  next
    case 2
    have "1 \<le> ticks_before 7 (xs @ [Ticker]) \<longleftrightarrow> 1 \<le> ticks_before 7 xs"
      using 2 ticks_before_all [of xs 7] by (simp add: ticks_before_snoc)
    moreover have "2 \<le> ticks_before 6 (xs @ [Ticker]) \<longleftrightarrow> removals xs < 6"
      using 2 ticks_before_all [of xs 6] ticks_before_le [of 6 xs] by (simp add: ticks_before_snoc)
    ultimately have "tick_at h s (xs @ [Ticker]) =
        Compare_hash (if 1 \<le> ticks_before 7 xs then sys_call_table_address s else 0) (sys_call_table_size s')"
      using 2 assms(5) by (simp add: tick_at_def exit_vars_def)
    moreover have "tick_at h s xs = Load_size (if 1 \<le> ticks_before 7 xs then sys_call_table_address s else 0)"
      using 2 by (simp add: tick_at_def)
    ultimately show ?thesis using 2 early by simp
  next
    case 3
    then show ?thesis using early exit_hash [OF assms(2) 3 assms(5)] by (simp add: tick_at_def)
  next
    case 4
    then have "tick_at h s xs = Report_hash (finds_change h s xs)"
      "tick_at h s (xs @ [Ticker]) = (if finds_change h s xs then Call_handler else Test_interval)"
      by (simp_all add: tick_at_def Let_def test_step_def)
    then show ?thesis using 4 early n by (simp add: printk_def exit_vars_def)
  next
    case 5
    then show ?thesis using exit_late [OF assms(1,3) 5 assms(5,6)] by blast
  qed
qed

lemma remove_exit:
  assumes "NUL \<in> set (checking_module s)" "exit_vars h s xs s'" "exit_dumps M h s as xs s'"
  shows "\<exists>s''. destroy_step (destroy_at h s xs) s' = Inr (destroy_at h s (xs @ [Remover]), s'') \<and>
    exit_vars h s (xs @ [Remover]) s'' \<and> exit_dumps M h s as (xs @ [Remover]) s''"
proof -
  obtain n where n: "read_string (checking_module s') = Inr n" using exit_name [OF assms(1,2)] by blast
  have d: "exit_dumps M h s as (xs @ [Remover]) s'" using assms(3) by (subst exit_dumps_incident [where xs = xs]) simp_all
  note k = ticks_before_all [of xs 8] ticks_before_all [of xs 2] ticks_before_le [of 2 xs]
  have r: "rearmed h s (xs @ [Remover]) = (removals xs \<noteq> 1 \<and> rearmed h s xs)"
    using k by (auto simp: rearmed_def ticks_before_snoc)
  have p: "removals xs = 1 \<Longrightarrow> timer_pending s' = (test_step h s xs < ticks_before 2 xs)"
    using k assms(2) by (auto simp: exit_vars_def rearmed_def)
  consider "removals xs = 0" | "removals xs = 1" | "removals xs = 2" | "removals xs = 3" | "removals xs = 4" | "removals xs = 5"
    | "removals xs = 6" | "removals xs = 7" | "8 \<le> removals xs" by linarith
  then show ?thesis
  proof cases
    case 1
    then show ?thesis using assms(2) d r by (simp add: destroy_at_def exit_vars_def)
  next
    case 2
    then show ?thesis using assms(2) d r p by (simp add: destroy_at_def exit_vars_def ticks_before_snoc)
  next
    case 3
    then show ?thesis using assms(2) d r n by (auto simp: destroy_at_def exit_vars_def printk_def)
  qed (use assms(2) d r in \<open>simp_all add: destroy_at_def exit_vars_def\<close>)
qed

lemma other_counter:
  "destroy_at h s (xs @ [Ticker]) = destroy_at h s xs" "tick_at h s (xs @ [Remover]) = tick_at h s xs"
proof -
  have "2 \<le> removals xs \<Longrightarrow> test_step h s (xs @ [Ticker]) < ticks_before 2 (xs @ [Ticker]) \<longleftrightarrow> test_step h s xs < ticks_before 2 xs"
    using test_step_bounds(1) [of h s xs] test_step_bounds(1) [of h s "xs @ [Ticker]"] ticks_before_le [of 2 xs]
    by (cases "3 \<le> ticks xs") (simp_all add: ticks_before_snoc)
  then show "destroy_at h s (xs @ [Ticker]) = destroy_at h s xs"
    by (auto simp: destroy_at_def less_Suc_eq numeral_eq_Suc)
  show "tick_at h s (xs @ [Remover]) = tick_at h s xs"
    by (simp add: tick_at_def ticks_before_snoc Let_def)
qed

lemma exit_race_vars:
  assumes "plentiful M" "ticking s" "table_hash W s = Inr h" "evidence (heap s) (dump_list s) as" "queue_ready s"
  shows "\<exists>s'. exit_race (carbonite M) W xs (Load_address, Unregister, s\<lparr>timer_pending := False\<rparr>) =
    Inr (tick_at h s xs, destroy_at h s xs, s') \<and> exit_vars h s xs s' \<and> exit_dumps M h s as xs s'"
proof (induction xs rule: rev_induct)
  case Nil
  show ?case
    using assms(4,5) by (auto simp: tick_at_def destroy_at_def exit_vars_def exit_dumps_def queue_ready_def)
next
  case (snoc x xs)
  have t: "timer_interval s \<noteq> 0" "NUL \<in> set (checking_module s)" using assms(2) by (simp_all add: ticking_def)
  obtain s' where s': "exit_race (carbonite M) W xs (Load_address, Unregister, s\<lparr>timer_pending := False\<rparr>) =
      Inr (tick_at h s xs, destroy_at h s xs, s')" "exit_vars h s xs s'" "exit_dumps M h s as xs s'"
    using snoc by blast
  show ?case
  proof (cases x)
    case Ticker
    then show ?thesis using tick_exit [OF assms(1,3) t s'(2,3)] s'(1) by (auto simp: exit_race_snoc other_counter)
  next
    case Remover
    then show ?thesis using remove_exit [OF t(2) s'(2,3)] s'(1) by (auto simp: exit_race_snoc other_counter)
  qed
qed

text \<open>
  C24: The end of the checker does not wait for a tick that is under way. Take any order of their single
  steps, any table whose hash h can be computed, and a handler that does its work whole (carbonite's,
  with allocations that succeed and, for a remote logger, its queue). Both finish. The tick counts the
  table as changed exactly when it read the size before that was cleared and h differs from what it
  then finds stored: the stored hash, or 0 once that was cleared. So a table that nobody changed is an
  incident, unless h is 0, when the end clears the stored hash between the tick's read of the size and
  its comparison: if a handler is set the processes are dumped (not right after a module's start) and
  the handler is cleared. The timer is set again, with the function and the variables of a module that is
  about to be unloaded, exactly when the tick tested the interval before the end cleared it and set the
  timer after the end deleted it. Each alone is the function of the code.
\<close>

theorem late_tick_outlives_exit:
  assumes "plentiful M" "ticking s" "table_hash W s = Inr h" "evidence (heap s) (dump_list s) as" "queue_ready s"
    and "8 \<le> ticks xs" "8 \<le> removals xs"
  shows "\<exists>s' bs. exit_race (carbonite M) W xs (Load_address, Unregister, s\<lparr>timer_pending := False\<rparr>) =
      Inr (Tick_done, Destroyed, s') \<and>
    (let found = (2 \<le> ticks_before 6 xs \<and> h \<noteq> (if ticks_before 5 xs < 3 then 0 else sys_call_table_hash s));
         test = (if found then if incident_handler s then 7 else 6 else 5)
     in (timer_pending s' \<longleftrightarrow> test \<le> ticks_before 8 xs \<and> ticks_before 2 xs < Suc test) \<and>
        (incident_handler s' \<longleftrightarrow> incident_handler s \<and> \<not> found) \<and> evidence (heap s') (dump_list s) bs \<and>
        texts (heap s') bs = texts (heap s) as @
          (if found \<and> incident_handler s \<and> previous_reason s \<noteq> AFTER_MODULE_INIT then process_lines M else [])) \<and>
    \<not> notifier_registered s' \<and> timer_interval s' = 0 \<and>
    exit_race handle W (replicate 8 Ticker) (Load_address, d, s) =
      run_bind (sys_call_table_integrity_checker handle W s) (\<lambda>s. Inr (Tick_done, d, s)) \<and>
    exit_race handle W (replicate 8 Remover) (t, Unregister, s) =
      run_bind (destroy_sys_call_table_integrity_checker s) (\<lambda>s. Inr (t, Destroyed, s))"
proof -
  obtain s' where s': "exit_race (carbonite M) W xs (Load_address, Unregister, s\<lparr>timer_pending := False\<rparr>) =
      Inr (tick_at h s xs, destroy_at h s xs, s')" "exit_vars h s xs s'" "exit_dumps M h s as xs s'"
    using exit_race_vars [OF assms(1-5)] by blast
  note k = test_step_bounds [of h s xs]
  have pc: "tick_at h s xs = Tick_done" "destroy_at h s xs = Destroyed"
    using assms(6,7) k by (simp_all add: tick_at_def destroy_at_def)
  have i: "incident_at m h s xs \<longleftrightarrow> finds_change h s xs \<and> incident_handler s" if "m \<le> 8" for m
    using assms(6) that by (auto simp: incident_at_def)
  obtain bs where bs: "evidence (heap s') (dump_list s) bs" "texts (heap s') bs = texts (heap s) as @
      (if finds_change h s xs \<and> incident_handler s \<and> previous_reason s \<noteq> AFTER_MODULE_INIT then process_lines M else [])"
    using s'(3) i [of 5] by (auto simp: exit_dumps_def)
  have "timer_pending s' \<longleftrightarrow> test_step h s xs \<le> ticks_before 8 xs \<and> ticks_before 2 xs < Suc (test_step h s xs)"
    "incident_handler s' \<longleftrightarrow> incident_handler s \<and> \<not> finds_change h s xs"
    using s'(2) i [of 6] assms(6,7) k by (auto simp: exit_vars_def rearmed_def)
  then show ?thesis
    using s'(1,2) pc bs assms(7) undisturbed_tick [of handle W d s] undisturbed_destroy [of handle W t s]
    unfolding Let_def finds_change_def [symmetric] test_step_def [symmetric]
    by (intro exI [of _ s'] exI [of _ bs]) (simp add: exit_vars_def)
qed

text \<open>
  The tick reads the size, the end clears the stored hash, and the tick compares: the table that
  nobody changed counts as changed, the process is dumped, and the timer is set.
\<close>

theorem late_tick_outlives_exit_witness:
  "unchanged (armed NONE) (example_world kernel_entry) \<and>
   (\<exists>s' bs. exit_race (carbonite (example_machine kernel_entry)) (example_world kernel_entry)
      ([Ticker, Ticker] @ replicate 5 Remover @ replicate 6 Ticker @ replicate 3 Remover)
      (Load_address, Unregister, (armed NONE)\<lparr>timer_pending := False\<rparr>) = Inr (Tick_done, Destroyed, s') \<and>
    timer_pending s' \<and> \<not> incident_handler s' \<and>
    texts (heap s') bs = [dump_text example_dump, dump_text (snapshot_of 63 example_process)])"
proof -
  define xs where "xs = [Ticker, Ticker] @ replicate 5 Remover @ replicate 6 Ticker @ replicate 3 Remover"
  have xs: "8 \<le> ticks xs" "8 \<le> removals xs" "ticks_before 2 xs = 2" "ticks_before 5 xs = 2" "ticks_before 6 xs = 8" "ticks_before 8 xs = 8"
    by (simp_all add: xs_def numeral_eq_Suc)
  have v: "sys_call_table_hash (armed NONE) = 0x4d5f413d"
    by (simp add: armed_def idle_checker_def carbonite_state.defs integrity_state.defs example_chrdev_def
        example_dumps_def chrdev_state.defs dump_state.defs)
  have h: "table_hash (example_world kernel_entry) (armed NONE) = Inr 0x4d5f413d"
    using hash_collision_facts(1) by (simp add: armed_hash)
  have e: "evidence (heap (armed NONE)) (dump_list (armed NONE)) [2]"
    using example_evidence armed_fields [of NONE] by simp
  have "process_lines (example_machine kernel_entry) = [dump_text (snapshot_of 63 example_process)]"
    by (simp add: process_lines_def example_machine_def)
  moreover have "texts (heap (armed NONE)) [2] = [dump_text example_dump]"
    by (simp add: texts_def text_of_def armed_fields example_heap_list(2)) (simp add: example_heap_def)
  ultimately show ?thesis
    using late_tick_outlives_exit [OF example_plentiful [of kernel_entry] armed_ticking h e armed_ready xs(1,2),
        of "\<lambda>_. Inr" Unregister Tick_done] h v
      armed_fields [of NONE]
    unfolding xs_def [symmetric] xs(3-6) by (auto simp: unchanged_def NONE_def AFTER_MODULE_INIT_def)
qed

end
