(* ===== verification/Task_Dump_Race.thy ===== *)
theory Task_Dump_Race imports Task_Dump_List begin

text \<open>
  Adding to the list of snapshots (add_task_dump_to_list of task-dump-list.c) from several processors
  at once. The function takes no lock, and the one in carbonite.c is a local variable of each call,
  so an incident found by the timer and a command of an administrator may add at the same time. The
  function is given as its single reads and writes of the list, with a program counter.
\<close>

section \<open>The steps\<close>

datatype add_pc =
    New_node
  | Test_head nat
  | Set_tail nat
  | Set_head nat
  | Load_tail nat
  | Link_node nat "nat option"
  | Move_tail nat
  | Load_size
  | Store_size int
  | Added int

definition write_header :: "nat \<Rightarrow> (task_dump_list \<Rightarrow> task_dump_list) \<Rightarrow> dump_heap \<Rightarrow> dump_heap run" where
  "write_header la f h = run_bind (deref (lists h) (Some la)) (\<lambda>hdr. Inr (h\<lparr>lists := fmupd la (f hdr) (lists h)\<rparr>))"

primrec add_step :: "bool \<Rightarrow> nat \<Rightarrow> nat option \<Rightarrow> add_pc \<Rightarrow> dump_heap \<Rightarrow> (add_pc \<times> dump_heap) run" where
  "add_step kmalloc_ok la dump New_node h =
     (case init_task_dump_node kmalloc_ok dump h of (None, h) \<Rightarrow> Inr (Added 0, h) | (Some a, h) \<Rightarrow> Inr (Test_head a, h))"
| "add_step kmalloc_ok la dump (Test_head a) h =
     run_bind (deref (lists h) (Some la)) (\<lambda>hdr. Inr (if list_head hdr = None then Set_tail a else Load_tail a, h))"
| "add_step kmalloc_ok la dump (Set_tail a) h =
     run_bind (write_header la (list_tail_update (\<lambda>_. Some a)) h) (\<lambda>h. Inr (Set_head a, h))"
| "add_step kmalloc_ok la dump (Set_head a) h =
     run_bind (write_header la (list_head_update (\<lambda>_. Some a)) h) (\<lambda>h. Inr (Load_size, h))"
| "add_step kmalloc_ok la dump (Load_tail a) h =
     run_bind (deref (lists h) (Some la)) (\<lambda>hdr. Inr (Link_node a (list_tail hdr), h))"
| "add_step kmalloc_ok la dump (Link_node a t) h =
     run_bind (deref (nodes h) t) (\<lambda>x. Inr (Move_tail a, h\<lparr>nodes := fmupd (the t) (x\<lparr>node_next := Some a\<rparr>) (nodes h)\<rparr>))"
| "add_step kmalloc_ok la dump (Move_tail a) h =
     run_bind (write_header la (list_tail_update (\<lambda>_. Some a)) h) (\<lambda>h. Inr (Load_size, h))"
| "add_step kmalloc_ok la dump Load_size h =
     run_bind (deref (lists h) (Some la)) (\<lambda>hdr. Inr (Store_size (list_size hdr + 1), h))"
| "add_step kmalloc_ok la dump (Store_size n) h =
     run_bind (write_header la (list_size_update (\<lambda>_. n)) h) (\<lambda>h. Inr (Added 1, h))"
| "add_step kmalloc_ok la dump (Added r) h = Inr (Added r, h)"

text \<open>Processor i adds the snapshot ds ! i; a schedule says whose step is next.\<close>

primrec add_race :: "nat \<Rightarrow> nat option list \<Rightarrow> nat list \<Rightarrow> add_pc list \<times> dump_heap \<Rightarrow> (add_pc list \<times> dump_heap) run" where
  "add_race la ds [] c = Inr c"
| "add_race la ds (i # is) c =
     run_bind (add_step True la (ds ! i) (fst c ! i) (snd c)) (\<lambda>(pc, h). add_race la ds is ((fst c)[i := pc], h))"

lemma write_header_run:
  "fmlookup (lists h) la = Some hdr \<Longrightarrow> write_header la f h = Inr (h\<lparr>lists := fmupd la (f hdr) (lists h)\<rparr>)"
  by (simp add: write_header_def deref_Some)

lemmas add_run = add_task_dump_to_list_def write_header_run deref_Some

lemma add_race_append: "add_race la ds (is @ js) c = run_bind (add_race la ds is c) (add_race la ds js)"
  by (induction "is" arbitrary: c) (auto simp: run_bind_assoc intro!: run_bind_cong)

lemma seven_steps: "replicate 7 i = [i, i, i, i, i, i, i]"
  by (simp add: numeral_eq_Suc)

lemma five_steps: "replicate 5 i = [i, i, i, i, i]"
  by (simp add: numeral_eq_Suc)

text \<open>Undisturbed, the steps are the function.\<close>

lemma undisturbed_add:
  assumes "i < length pcs" "pcs ! i = New_node"
  shows "add_race la ds (replicate 7 i) (pcs, h) =
    run_bind (add_task_dump_to_list True (Some la) (ds ! i) h) (\<lambda>(r, h). Inr (pcs[i := Added r], h))"
proof -
  define a where "a = next_free h"
  define h1 where "h1 = h\<lparr>nodes := fmupd a \<lparr>node_dump = ds ! i, node_next = None\<rparr> (nodes h), next_free := Suc a\<rparr>"
  have new: "init_task_dump_node True (ds ! i) h = (Some a, h1)"
    by (simp add: init_task_dump_node_def a_def h1_def)
  show ?thesis
  proof (cases "fmlookup (lists h) la")
    case None
    then show ?thesis
      using assms new by (simp add: seven_steps add_task_dump_to_list_def deref_def h1_def)
  next
    case (Some hdr)
    then have hdr: "fmlookup (lists h1) la = Some hdr" by (simp add: h1_def)
    show ?thesis
    proof (cases "list_head hdr")
      case None
      then show ?thesis
        using assms new hdr
        by (cases hdr) (simp add: seven_steps add_run)
    next
      case (Some b)
      show ?thesis
      proof (cases "deref (nodes h1) (list_tail hdr)")
        case (Inl e)
        then show ?thesis using assms new hdr Some by (simp add: seven_steps add_run)
      next
        case (Inr x)
        then show ?thesis
          using assms new hdr Some
          by (simp add: seven_steps add_run)
      qed
    qed
  qed
qed

section \<open>A lost snapshot\<close>

text \<open>
  Processor 0 is about to hang its node into the list when processor 1 adds one from beginning to end.
\<close>

definition overtaken :: "bool \<Rightarrow> nat list" where
  "overtaken no_nodes = replicate (if no_nodes then 2 else 3) 0 @ replicate 7 1 @ replicate 5 0"

text \<open>The list has the nodes as, but its size says otherwise.\<close>

definition miscounted :: "dump_heap \<Rightarrow> nat \<Rightarrow> nat list \<Rightarrow> int \<Rightarrow> bool" where
  "miscounted h la as n \<longleftrightarrow> (\<exists>hdr. fmlookup (lists h) la = Some hdr \<and> chain (nodes h) (list_head hdr) as \<and>
     distinct as \<and> list_size hdr = n)"

lemma overtaken_empty:
  assumes "fmlookup (lists h) la = Some hdr" "list_head hdr = None"
  shows "add_race la [d0, d1] (overtaken True) ([New_node, New_node], h) =
    Inr ([Added 1, Added 1],
      h\<lparr>nodes := fmupd (Suc (next_free h)) \<lparr>node_dump = d1, node_next = None\<rparr>
           (fmupd (next_free h) \<lparr>node_dump = d0, node_next = None\<rparr> (nodes h)),
        next_free := Suc (Suc (next_free h)),
        lists := fmupd la \<lparr>list_size = list_size hdr + 2, list_head = Some (next_free h), list_tail = Some (next_free h)\<rparr> (lists h)\<rparr>)"
  using assms
  by (cases hdr, cases h) (simp add: overtaken_def seven_steps five_steps numeral_2_eq_2 add_race_append add_run init_task_dump_node_def add.commute)

lemma overtaken_nonempty:
  assumes "fmlookup (lists h) la = Some hdr" "list_head hdr = Some b" "list_tail hdr = Some t"
    and "fmlookup (nodes h) t = Some x" "t < next_free h"
  shows "add_race la [d0, d1] (overtaken False) ([New_node, New_node], h) =
    Inr ([Added 1, Added 1],
      h\<lparr>nodes := fmupd t (x\<lparr>node_next := Some (next_free h)\<rparr>)
           (fmupd (Suc (next_free h)) \<lparr>node_dump = d1, node_next = None\<rparr>
             (fmupd (next_free h) \<lparr>node_dump = d0, node_next = None\<rparr> (nodes h))),
        next_free := Suc (Suc (next_free h)),
        lists := fmupd la (hdr\<lparr>list_size := list_size hdr + 2, list_tail := Some (next_free h)\<rparr>) (lists h)\<rparr>)"
  using assms
  by (cases hdr, cases h) (simp add: overtaken_def seven_steps five_steps numeral_3_eq_3 add_race_append add_run init_task_dump_node_def add.commute)

lemma overtaken_run:
  assumes "list_at h (Some la) as" "dump_heap_ok h"
  shows "\<exists>a b h'. add_race la [d0, d1] (overtaken (as = [])) ([New_node, New_node], h) = Inr ([Added 1, Added 1], h') \<and>
    miscounted h' la (as @ [a]) (int (length as) + 2) \<and> dumps_of h' (as @ [a]) = dumps_of h as @ [d0] \<and>
    b \<notin> set (as @ [a]) \<and> fmlookup (nodes h') b = Some \<lparr>node_dump = d1, node_next = None\<rparr>"
proof -
  obtain hdr where hdr: "fmlookup (lists h) la = Some hdr" "chain (nodes h) (list_head hdr) as" "distinct as"
    "as \<noteq> [] \<Longrightarrow> list_tail hdr = Some (last as)" "list_size hdr = int (length as)"
    using assms(1) by (auto simp: list_at_def)
  define a where "a = next_free h"
  define n where "n = fmupd (Suc a) \<lparr>node_dump = d1, node_next = None\<rparr> (nodes h)"
  have old: "c < a" if "c \<in> set as" for c
    using chain_lookup [OF hdr(2) that] assms(2) unfolding dump_heap_ok_def a_def
    by (metis not_less option.distinct(1))
  then have fresh: "a \<notin> set as" "Suc a \<notin> set as" by (auto dest: Suc_lessD)
  show ?thesis
  proof (cases "as = []")
    case True
    then have "list_head hdr = None" using hdr(2) by simp
    from overtaken_empty [OF hdr(1) this, of d0 d1] True show ?thesis
      by (intro exI [of _ a] exI [of _ "Suc a"] exI) (auto simp: miscounted_def dumps_of_def a_def hdr(5))
  next
    case False
    then obtain t where t: "fmlookup (nodes h) (last as) = Some t" "last as < a"
      using chain_lookup [OF hdr(2)] last_in_set old by metis
    obtain c where c: "list_head hdr = Some c" using hdr(2) False by (cases as) auto
    define m where "m = fmupd (last as) (t\<lparr>node_next := Some a\<rparr>) (fmupd a \<lparr>node_dump = d0, node_next = None\<rparr> n)"
    have m: "m = fmupd (last as) (t\<lparr>node_next := Some a\<rparr>)
        (fmupd (Suc a) \<lparr>node_dump = d1, node_next = None\<rparr> (fmupd a \<lparr>node_dump = d0, node_next = None\<rparr> (nodes h)))"
      unfolding m_def n_def by (rule arg_cong [where f = "fmupd _ _"], rule fmap_ext) auto
    have "chain n (list_head hdr) as" "fmlookup n (last as) = Some t"
      using hdr(2) fresh t by (simp_all add: n_def chain_outside)
    then have "chain m (list_head hdr) (as @ [a])"
      unfolding m_def by (intro chain_snoc [OF _ hdr(3) False fresh(1)])
    moreover have "map (\<lambda>b. node_dump (the (fmlookup m b))) (as @ [a]) = dumps_of h as @ [d0]"
    proof -
      have "map (\<lambda>b. node_dump (the (fmlookup n b))) as = dumps_of h as"
        using fresh(2) by (auto simp: n_def dumps_of_def)
      then show ?thesis
        using dumps_of_snoc [OF hdr(3) fresh(1), of n t d0] False \<open>fmlookup n (last as) = Some t\<close> by (simp add: m_def)
    qed
    moreover have "fmlookup m (Suc a) = Some \<lparr>node_dump = d1, node_next = None\<rparr>"
      using t(2) by (auto simp: m_def n_def)
    moreover have "last as < next_free h" using t(2) by (simp add: a_def)
    ultimately show ?thesis
      using overtaken_nonempty [OF hdr(1) c hdr(4) t(1), of d0 d1] False fresh hdr(3,5)
      unfolding a_def [symmetric] m [symmetric]
      by (intro exI [of _ a] exI [of _ "Suc a"] exI) (auto simp: miscounted_def dumps_of_def)
  qed
qed

text \<open>
  C25: Two processors that add to the list at the same time can lose a snapshot. If one is overtaken
  between reading the end of the list and hanging its node there, both are told that they succeeded and
  the size counts both, but only the snapshot of the slower one is in the list: the other's node is
  allocated and cannot be reached, and looking up the last position gives NULL. Undisturbed, the
  steps are exactly add_task_dump_to_list.
\<close>

theorem concurrent_adds_lose_snapshot:
  assumes "list_at h (Some la) as" "dump_heap_ok h"
  shows "\<exists>a b h'. add_race la [d0, d1] (overtaken (as = [])) ([New_node, New_node], h) = Inr ([Added 1, Added 1], h') \<and>
    miscounted h' la (as @ [a]) (int (length as) + 2) \<and> dumps_of h' (as @ [a]) = dumps_of h as @ [d0] \<and>
    b \<notin> set (as @ [a]) \<and> fmlookup (nodes h') b = Some \<lparr>node_dump = d1, node_next = None\<rparr> \<and>
    get_size (Some la) h' = Inr (int (length as) + 2) \<and> get_task_dump (Some la) (length as + 1) h' = Inr None \<and>
    add_race la [d0, d1] (replicate 7 0) ([New_node, New_node], h) =
      run_bind (add_task_dump_to_list True (Some la) d0 h) (\<lambda>(r, h). Inr ([Added r, New_node], h))"
proof -
  obtain a b h' where h': "add_race la [d0, d1] (overtaken (as = [])) ([New_node, New_node], h) = Inr ([Added 1, Added 1], h')"
    "miscounted h' la (as @ [a]) (int (length as) + 2)" "dumps_of h' (as @ [a]) = dumps_of h as @ [d0]"
    "b \<notin> set (as @ [a])" "fmlookup (nodes h') b = Some \<lparr>node_dump = d1, node_next = None\<rparr>"
    using overtaken_run [OF assms] by blast
  then obtain hdr where hdr: "fmlookup (lists h') la = Some hdr" "chain (nodes h') (list_head hdr) (as @ [a])"
    "list_size hdr = int (length as) + 2"
    by (auto simp: miscounted_def)
  have "get_task_dump (Some la) (length as + 1) h' = Inr None"
    using hdr node_after_chain [OF hdr(2), of "length as + 1"] by (simp add: get_task_dump_def deref_Some)
  moreover have "get_size (Some la) h' = Inr (int (length as) + 2)"
    using hdr by (simp add: get_size_def deref_Some)
  ultimately show ?thesis
    using h' undisturbed_add [of 0 "[New_node, New_node]" la "[d0, d1]" h] by auto
qed

text \<open>An empty list.\<close>

theorem concurrent_adds_lose_snapshot_witness:
  "\<exists>a h'. add_race 1 [Some 5, Some 6] (overtaken True) ([New_node, New_node],
      \<lparr>dumps = fmempty, nodes = fmempty, lists = fmupd 1 \<lparr>list_size = 0, list_head = None, list_tail = None\<rparr> fmempty, next_free = 7\<rparr>) =
     Inr ([Added 1, Added 1], h') \<and> dumps_of h' [a] = [Some 5] \<and> get_size (Some 1) h' = Inr 2 \<and> get_task_dump (Some 1) 1 h' = Inr None"
proof -
  define h where "h = \<lparr>dumps = fmempty, nodes = fmempty,
      lists = fmupd 1 \<lparr>list_size = 0, list_head = None, list_tail = None\<rparr> fmempty, next_free = 7\<rparr>"
  have "list_at h (Some 1) []" "dump_heap_ok h"
    by (simp_all add: list_at_def h_def dump_heap_ok_def)
  from concurrent_adds_lose_snapshot [OF this, of "Some 5" "Some 6"] show ?thesis
    by (auto simp: h_def dumps_of_def)
qed

end
