(* ===== verification/Watch.thy ===== *)
theory Watch imports Carbonite begin

text \<open>
  What the loaded module of the-drip-dry-carbonite promises, as an abstract monitor: the lines of the
  snapshots taken so far, whether an incident still finds a handler, and the reason of the last dump.
  The monitor knows no heap, list, timer, hook or buffer. The handlers of carbonite.c,
  command-chrdev.c, sys-call-table-integrity-check.c and task-dump-seq-file.c implement it, over any
  sequence of events, with the same answers, the same texts and the same faults.
\<close>

section \<open>The handlers on one event\<close>

datatype outcome = Done | Code int | Text string

text \<open>
  Each event with what the rest of the system sees of it: nothing, the number a command returns, or
  the text a reader is given. A hook that is not registered is not called.
\<close>

primrec carbonite_handle :: "carbonite_event \<Rightarrow> carbonite_state \<Rightarrow> (outcome \<times> carbonite_state) run" where
  "carbonite_handle (Timer M) s =
     run_bind (timer_fires (carbonite M) (world_of M) s) (\<lambda>s. Inr (Done, s))"
| "carbonite_handle (Module_event M st this_module name) s =
     run_bind (if notifier_registered s
               then the_drip_dry_carbonite_module_event (carbonite M) (world_of M) st this_module name s
               else Inr s)
       (\<lambda>s. Inr (Done, s))"
| "carbonite_handle (Ioctl M capable n) s =
     run_bind (command_ioctl (carbonite M) capable n s) (\<lambda>(ret, s). Inr (Code ret, s))"
| "carbonite_handle (Read M convert kmalloc_ok p n) s =
     run_bind (if dump_proc_entry s
               then seq_session (log_envs (world_of M)) convert kmalloc_ok n (s\<lparr>reader_pos := p, seq_buffer := []\<rparr>)
               else Inr (s\<lparr>seq_buffer := []\<rparr>))
       (\<lambda>s. Inr (Text (seq_buffer s), s))"

primrec carbonite_handle_all :: "carbonite_event list \<Rightarrow> carbonite_state \<Rightarrow> (outcome list \<times> carbonite_state) run" where
  "carbonite_handle_all [] s = Inr ([], s)"
| "carbonite_handle_all (e # es) s =
     run_bind (carbonite_handle e s) (\<lambda>(r, s).
     run_bind (carbonite_handle_all es s) (\<lambda>(rs, s). Inr (r # rs, s)))"

text \<open>The steps of the module are the events that its hooks handle without a fault.\<close>

fun hooked :: "carbonite_event \<Rightarrow> carbonite_state \<Rightarrow> bool" where
  "hooked (Module_event M st this_module name) s = notifier_registered s"
| "hooked (Read M convert kmalloc_ok p n) s = dump_proc_entry s"
| "hooked e s = True"

lemma step_is_handle:
  "carbonite_step s e s' \<longleftrightarrow> hooked e s \<and> (\<exists>r. carbonite_handle e s = Inr (r, s'))"
  by (cases e) (auto simp: run_bind_eq_Inr intro: carbonite_step.intros elim!: timerE moduleE ioctlE readE)

section \<open>The monitor\<close>

record watch =
  table_at :: "64 word"
  table_len :: "32 word"
  fingerprint :: "32 word"
  evidence_lines :: "string list"
  on_guard :: bool
  last_dump :: int

definition watched :: "watch \<Rightarrow> world \<Rightarrow> 32 word run" where
  "watched w W = super_fast_hash (if table_at w = 0 then None else Some (memory W (table_at w))) (table_len w)"

definition intact :: "watch \<Rightarrow> world \<Rightarrow> bool" where
  "intact w W \<longleftrightarrow> watched w W = Inr (fingerprint w)"

text \<open>A dump; one for an incident right after one for a module's start adds nothing.\<close>

definition dumped :: "machine \<Rightarrow> int \<Rightarrow> watch \<Rightarrow> watch" where
  "dumped M why w = w\<lparr>last_dump := why, evidence_lines := evidence_lines w @
     (if last_dump w = AFTER_MODULE_INIT \<and> why = AFTER_INCIDENT then [] else process_lines M)\<rparr>"

definition report_of :: "watch \<Rightarrow> string list" where
  "report_of w = (if evidence_lines w = [] then [] else header_line # evidence_lines w)"

primrec watch_step :: "carbonite_event \<Rightarrow> watch \<Rightarrow> (outcome \<times> watch) run" where
  "watch_step (Timer M) w =
     Inr (Done, if intact w (world_of M) \<or> \<not> on_guard w then w
                else (dumped M AFTER_INCIDENT w)\<lparr>on_guard := False\<rparr>)"
| "watch_step (Module_event M st this_module name) w =
     (if st \<noteq> MODULE_STATE_LIVE \<or> this_module then Inr (Done, w)
      else if on_guard w then Inr (Done, dumped M AFTER_MODULE_INIT w)
      else Inl Null_call)"
| "watch_step (Ioctl M capable n) w =
     Inr (if n \<noteq> IOCTL_CARBONITE_COMMAND then (Code (- ENOTTY), w)
          else if \<not> capable then (Code (- EPERM), w)
          else (Code 0, dumped M ON_DEMAND w))"
| "watch_step (Read M convert kmalloc_ok p n) w =
     (if p = 0 then Inr (Text (if kmalloc_ok then concat (take n (report_of w)) else []), w)
      else if length (evidence_lines w) < p then Inr (Text [], w)
      else if p + n \<le> length (evidence_lines w) + 2 then Inl Invalid_free
      else Inr (Text (concat (take n (drop p (report_of w)))), w))"

primrec watch_run :: "carbonite_event list \<Rightarrow> watch \<Rightarrow> (outcome list \<times> watch) run" where
  "watch_run [] w = Inr ([], w)"
| "watch_run (e # es) w =
     run_bind (watch_step e w) (\<lambda>(r, w). run_bind (watch_run es w) (\<lambda>(rs, w). Inr (r # rs, w)))"

section \<open>The state that stands for a monitor\<close>

definition plain_names :: "machine \<Rightarrow> bool" where
  "plain_names M \<longleftrightarrow> (\<forall>t \<in> set (tasks M). CHR ''%'' \<notin> set (cstr (task_comm t)))"

definition plain_dumps :: "dump_heap \<Rightarrow> bool" where
  "plain_dumps h \<longleftrightarrow> (\<forall>d x. fmlookup (dumps h) d = Some x \<longrightarrow> no_conversion x)"

text \<open>
  The hooks are in place, a remote logger has its queue, and positions that a read allocates are
  fresh.
\<close>

definition in_service :: "carbonite_state \<Rightarrow> bool" where
  "in_service s \<longleftrightarrow> ticking s \<and> command s \<and> NUL \<in> set (commanding_module s) \<and> dump_proc_entry s \<and>
     notifier_registered s \<and> seq_list s = dump_list s \<and> queue_ready s"

definition positions_fresh :: "'a dump_state_scheme \<Rightarrow> bool" where
  "positions_fresh s \<longleftrightarrow> (\<forall>a. next_loff s \<le> a \<longrightarrow> fmlookup (loffs s) a = None)"

text \<open>What the module found when it was loaded, and has to leave as it was.\<close>

type_synonym surroundings =
  "((proc_vars \<times> (int \<times> string) list \<times> int \<times> char list) \<times> bool \<times> bool) \<times> (nat, task_dump_node) fmap \<times> (nat, task_dump) fmap"

text \<open>The device, and whether the kernel finds the module in its list and an exit function to call.\<close>

definition fixtures :: "carbonite_state \<Rightarrow> (proc_vars \<times> (int \<times> string) list \<times> int \<times> char list) \<times> bool \<times> bool" where
  "fixtures s = (device s, in_module_list s, has_exit s)"

definition stands_for :: "surroundings \<Rightarrow> carbonite_state \<Rightarrow> watch \<Rightarrow> bool" where
  "stands_for K s w \<longleftrightarrow> in_service s \<and> positions_fresh s \<and> plain_dumps (heap s) \<and>
     (\<exists>as. evidence (heap s) (dump_list s) as \<and> texts (heap s) as = evidence_lines w \<and> K = (fixtures s, beyond (heap s) as)) \<and>
     table_at w = sys_call_table_address s \<and> table_len w = sys_call_table_size s \<and>
     fingerprint w = sys_call_table_hash s \<and> on_guard w = incident_handler s \<and> last_dump w = previous_reason s"

text \<open>Allocations succeed, names hold no conversion, and the memory of the table can be read.\<close>

definition fair :: "watch \<Rightarrow> carbonite_event \<Rightarrow> bool" where
  "fair w e \<longleftrightarrow> plentiful (machine_of e) \<and> plain_names (machine_of e) \<and>
     (\<exists>h. watched w (world_of (machine_of e)) = Inr h)"

lemma watched_readable:
  assumes "stands_for K s w"
  shows "readable s W \<longleftrightarrow> (\<exists>h. watched w W = Inr h)" "unchanged s W \<longleftrightarrow> intact w W"
  using assms by (simp_all add: stands_for_def readable_def unchanged_def table_hash_def watched_def intact_def)

lemma dumped_fields [simp]:
  "table_at (dumped M why w) = table_at w" "table_len (dumped M why w) = table_len w"
  "fingerprint (dumped M why w) = fingerprint w" "on_guard (dumped M why w) = on_guard w"
  "last_dump (dumped M why w) = why"
  by (simp_all add: dumped_def)

section \<open>Dumping\<close>

lemma carbonite_dumps:
  assumes "plentiful M" "plain_names M" "evidence (heap s) (dump_list s) as" "texts (heap s) as = evidence_lines w"
    and "plain_dumps (heap s)" "previous_reason s = last_dump w" "queue_ready s"
  obtains s1 bs where "carbonite M why s = Inr (s1\<lparr>previous_reason := why\<rparr>)" "freeze_frame s s1"
    "evidence (heap s1) (dump_list s) bs" "texts (heap s1) bs = evidence_lines (dumped M why w)" "plain_dumps (heap s1)"
    "beyond (heap s1) bs = beyond (heap s) as"
proof (cases "previous_reason s = AFTER_MODULE_INIT \<and> why = AFTER_INCIDENT")
  case True
  then show thesis
    using that [of s as] assms by (simp add: carbonite_def freeze_frame_refl dumped_def)
next
  case False
  obtain s1 bs where s1: "carbonite M why s = Inr (s1\<lparr>previous_reason := why\<rparr>)" "freeze_frame s s1"
    "evidence (heap s1) (dump_list s) bs" "texts (heap s1) bs = texts (heap s) as @ process_lines M"
    "\<forall>d x. fmlookup (dumps (heap s1)) d = Some x \<longrightarrow> fmlookup (dumps (heap s)) d = Some x \<or>
       (\<exists>t \<in> set (tasks M). x = snapshot_of (report_mask M) t)" "beyond (heap s1) bs = beyond (heap s) as"
    using carbonite_texts [OF assms(1,3) False assms(7)] by blast
  have "no_conversion (snapshot_of (report_mask M) t)" if "t \<in> set (tasks M)" for t
    using that assms(1,2) snapshot_name [of "report_mask M" t]
    by (simp add: no_conversion_def plentiful_def good_machine_def plain_names_def)
  then have "plain_dumps (heap s1)" using s1(5) assms(5) unfolding plain_dumps_def by blast
  moreover have "texts (heap s1) bs = evidence_lines (dumped M why w)"
    using s1(4) assms(4,6) False by (auto simp: dumped_def)
  ultimately show thesis using that [OF s1(1-3)] s1(6) by blast
qed

lemma freeze_in_service:
  assumes "freeze_frame s s1"
  shows "in_service (s1\<lparr>previous_reason := r\<rparr>) = in_service s" "positions_fresh (s1\<lparr>previous_reason := r\<rparr>) = positions_fresh s"
    "sys_call_table_address s1 = sys_call_table_address s" "sys_call_table_size s1 = sys_call_table_size s"
    "sys_call_table_hash s1 = sys_call_table_hash s" "incident_handler s1 = incident_handler s" "fixtures (s1\<lparr>previous_reason := r\<rparr>) = fixtures s"
  using assms by (auto simp: freeze_frame_def in_service_def ticking_def positions_fresh_def fixtures_def device_def queue_ready_def)

lemma carbonite_stands_for:
  assumes "stands_for K s w" "plentiful M" "plain_names M"
  shows "\<exists>s'. carbonite M why s = Inr s' \<and> stands_for K s' (dumped M why w)"
proof -
  obtain as where as: "evidence (heap s) (dump_list s) as" "texts (heap s) as = evidence_lines w"
    and K: "K = (fixtures s, beyond (heap s) as)"
    and p: "plain_dumps (heap s)" "previous_reason s = last_dump w" "queue_ready s"
    using assms(1) by (auto simp: stands_for_def in_service_def)
  obtain s1 bs where s1: "carbonite M why s = Inr (s1\<lparr>previous_reason := why\<rparr>)" "freeze_frame s s1"
    "evidence (heap s1) (dump_list s) bs" "texts (heap s1) bs = evidence_lines (dumped M why w)" "plain_dumps (heap s1)"
    "beyond (heap s1) bs = beyond (heap s) as"
    using carbonite_dumps [OF assms(2,3) as p] by blast
  have "dump_list s1 = dump_list s" using freeze_frame_fields [OF s1(2)] by simp
  then have "stands_for K (s1\<lparr>previous_reason := why\<rparr>) (dumped M why w)"
    using s1(3-6) K assms(1) freeze_in_service [OF s1(2)] by (auto simp: stands_for_def)
  then show ?thesis using s1(1) by blast
qed

text \<open>Printing changes nothing that the monitor has.\<close>

lemma stands_for_log [simp]: "stands_for K (s\<lparr>klog := l\<rparr>) w = stands_for K s w"
  by (simp add: stands_for_def in_service_def ticking_def positions_fresh_def fixtures_def device_def)

lemma stands_for_printed:
  assumes "print_log E lvl msg s = Inr s'" "stands_for K s w"
  shows "stands_for K s' w"
proof -
  obtain kl q where "s' = s\<lparr>klog := kl, queued := q\<rparr>" using print_log_only [OF assms(1)] by blast
  then show ?thesis using assms(2) by (simp add: stands_for_def in_service_def ticking_def positions_fresh_def fixtures_def device_def queue_ready_def)
qed

section \<open>One event\<close>

lemma timer_stands_for:
  assumes "stands_for K s w" "fair w (Timer M)"
  shows "\<exists>s'. timer_fires (carbonite M) (world_of M) s = Inr s' \<and>
    stands_for K s' (snd (projr (watch_step (Timer M) w)))"
proof -
  have t: "ticking s" "on_guard w = incident_handler s" using assms(1) by (simp_all add: stands_for_def in_service_def)
  have r: "readable s (world_of M)" using assms watched_readable(1) by (auto simp: fair_def)
  show ?thesis
  proof (cases "intact w (world_of M) \<or> \<not> on_guard w")
    case True
    then have "\<not> incident_handler s \<or> unchanged s (world_of M)"
      using watched_readable(2) [OF assms(1)] t(2) by blast
    from tick_quiet [OF t(1) r this] True assms(1) show ?thesis by fastforce
  next
    case False
    define s0 where "s0 = printk (modified_line (cstr (checking_module s))) (s\<lparr>timer_pending := False\<rparr>)"
    have e: "plain_dumps (heap s0)" "previous_reason s0 = last_dump w" "queue_ready s0" "dump_list s0 = dump_list s"
      "\<exists>as. evidence (heap s0) (dump_list s0) as \<and> texts (heap s0) as = evidence_lines w \<and> K = (fixtures s0, beyond (heap s0) as)"
      using assms(1) by (simp_all add: stands_for_def in_service_def s0_def printk_def fixtures_def device_def queue_ready_def)
    then obtain as where as: "evidence (heap s0) (dump_list s0) as" "texts (heap s0) as = evidence_lines w"
      and K: "K = (fixtures s0, beyond (heap s0) as)" by blast
    obtain s1 bs where s1: "carbonite M AFTER_INCIDENT s0 = Inr (s1\<lparr>previous_reason := AFTER_INCIDENT\<rparr>)" "freeze_frame s0 s1"
      "evidence (heap s1) (dump_list s0) bs" "texts (heap s1) bs = evidence_lines (dumped M AFTER_INCIDENT w)" "plain_dumps (heap s1)"
      "beyond (heap s1) bs = beyond (heap s0) as"
      using carbonite_dumps [OF _ _ as e(1-3), of M AFTER_INCIDENT] assms(2) unfolding fair_def carbonite_event.simps machine_of.simps
      by blast
    define s2 where "s2 = s1\<lparr>previous_reason := AFTER_INCIDENT, incident_handler := False, timer_pending := True\<rparr>"
    have "timer_fires (carbonite M) (world_of M) s = Inr s2"
      using carbonite_handler.tick_incident [OF t(1) _ r _ s1(1) [unfolded s0_def]] False t(2)
        watched_readable(2) [OF assms(1)] by (simp add: s2_def)
    moreover have "stands_for K s2 ((dumped M AFTER_INCIDENT w)\<lparr>on_guard := False\<rparr>)"
      using s1(2-6) K assms(1) by (auto simp: freeze_frame_def stands_for_def in_service_def ticking_def positions_fresh_def
          fixtures_def device_def s2_def s0_def printk_def queue_ready_def)
    ultimately show ?thesis using False by simp
  qed
qed

lemma module_stands_for:
  assumes "stands_for K s w" "fair w (Module_event M st this_module name)"
  shows "case watch_step (Module_event M st this_module name) w of
      Inl f \<Rightarrow> the_drip_dry_carbonite_module_event (carbonite M) (world_of M) st this_module name s = Inl f
    | Inr (r, w') \<Rightarrow> \<exists>s'. the_drip_dry_carbonite_module_event (carbonite M) (world_of M) st this_module name s = Inr s' \<and>
        stands_for K s' w'"
proof (cases "st = MODULE_STATE_LIVE \<and> \<not> this_module")
  case True
  then show ?thesis
    using assms carbonite_stands_for [OF assms(1), of M AFTER_MODULE_INIT]
    by (auto simp: the_drip_dry_carbonite_module_event_def fair_def stands_for_def)
next
  case False
  have E: "good_env (log_envs (world_of M) n)" for n
    using assms(2) by (simp add: fair_def plentiful_def good_machine_def)
  have ready: "queue_ready s" using assms(1) by (simp add: stands_for_def in_service_def)
  have "NUL \<in> set (checking_module s)" using assms(1) by (simp add: stands_for_def in_service_def ticking_def)
  then have n: "read_string (checking_module s) = Inr (cstr (checking_module s))" by (simp add: read_string_def)
  have "\<exists>s'. print_log (log_envs (world_of M)) lvl msg s = Inr s' \<and> stands_for K s' w" for lvl msg
    using print_log_freeze [where E = "log_envs (world_of M)", OF E ready] stands_for_printed assms(1) by blast
  with False assms(1) n show ?thesis
    by (cases st) (auto simp: the_drip_dry_carbonite_module_event_def)
qed

lemma ioctl_stands_for:
  assumes "stands_for K s w" "fair w (Ioctl M capable n)"
  shows "\<exists>r s' w'. watch_step (Ioctl M capable n) w = Inr (Code r, w') \<and>
    command_ioctl (carbonite M) capable n s = Inr (r, s') \<and> stands_for K s' w'"
proof -
  have s: "command s" "NUL \<in> set (commanding_module s)" using assms(1) by (simp_all add: stands_for_def in_service_def)
  obtain s' where "carbonite M ON_DEMAND s = Inr s'" "stands_for K s' (dumped M ON_DEMAND w)"
    using carbonite_stands_for [OF assms(1)] assms(2) by (auto simp: fair_def)
  with s assms(1) show ?thesis by (auto simp: command_ioctl_def read_string_def printk_def)
qed

lemma reader_printable:
  assumes "stands_for K s w" "evidence (heap s) (dump_list s) as"
  shows "list_at (heap s) (seq_list s) as" "printable (heap s) as"
proof -
  show "list_at (heap s) (seq_list s) as"
    using assms by (simp add: stands_for_def in_service_def evidence_def)
  show "printable (heap s) as"
    using evidence_printable [OF assms(2)] assms(1) unfolding stands_for_def plain_dumps_def by blast
qed

lemma read_stands_for:
  assumes "stands_for K s w" "fair w (Read M convert kmalloc_ok p n)"
  shows "case watch_step (Read M convert kmalloc_ok p n) w of
      Inl f \<Rightarrow> seq_session (log_envs (world_of M)) convert kmalloc_ok n (s\<lparr>reader_pos := p, seq_buffer := []\<rparr>) = Inl f
    | Inr (r, w') \<Rightarrow> \<exists>s'. seq_session (log_envs (world_of M)) convert kmalloc_ok n (s\<lparr>reader_pos := p, seq_buffer := []\<rparr>) = Inr s' \<and>
        r = Text (seq_buffer s') \<and> stands_for K s' w'"
proof -
  define E where "E = log_envs (world_of M)"
  have good: "good_env (E n)" for n
    using assms(2) by (simp add: fair_def plentiful_def good_machine_def E_def)
  define s0 where "s0 = s\<lparr>reader_pos := p, seq_buffer := []\<rparr>"
  obtain as where as: "evidence (heap s) (dump_list s) as" "texts (heap s) as = evidence_lines w"
    using assms(1) by (auto simp: stands_for_def)
  have l: "list_at (heap s0) (seq_list s0) as" "printable (heap s0) as"
    using reader_printable [OF assms(1) as(1)] by (simp_all add: s0_def)
  have len: "length as = length (evidence_lines w)" using texts_length [of "heap s" as] as(2) by simp
  have lines: "lines_of (heap s0) as = report_of w"
    using as(2) len by (auto simp: lines_of_def report_of_def s0_def texts_def [symmetric])
  have fresh: "positions_fresh s0" "reader_pos s0 = p" "seq_buffer s0 = []" "queue_ready s0"
    using assms(1) by (simp_all add: s0_def stands_for_def in_service_def positions_fresh_def queue_ready_def)
  have keep: "stands_for K s' w" if "seq_session E convert kmalloc_ok n s0 = Inr s'" "positions_fresh s'" for s'
    using session_read [OF that(1)] that(2) assms(1)
    by (auto simp: read_frame_def s0_def stands_for_def in_service_def ticking_def fixtures_def device_def queue_ready_def)
  show ?thesis
  proof (cases "p = 0")
    case False
    then have "0 < reader_pos s0" using fresh(2) by simp
    note r = resumed_read_run [where E = E, OF good l this fresh(4), of n convert kmalloc_ok]
    show ?thesis
      using r keep False fresh len lines unfolding E_def [symmetric] s0_def [symmetric]
      by (auto simp: positions_fresh_def split: if_splits)
  next
    case True
    show ?thesis
    proof (cases kmalloc_ok)
      case False
      have "seq_session E convert kmalloc_ok n s0 = Inr s0"
        using True False fresh(2) by (simp add: seq_session_def task_dump_seq_start_def task_dump_seq_stop_def)
      with keep [OF this fresh(1)] True False fresh(3) show ?thesis
        unfolding E_def [symmetric] s0_def [symmetric] by simp
    next
      case ok: True
      have "fmlookup (loffs s0) (next_loff s0) = None" using fresh(1) by (simp add: positions_fresh_def)
      then obtain s' where s': "seq_session E convert True n s0 = Inr s'" "seq_buffer s' = concat (take n (report_of w))"
        "next_loff s' = Suc (next_loff s0)" "loffs s' = (if n \<le> length as + 2 then loffs s0 else fmupd (next_loff s0) (length as + 2) (loffs s0))"
        using fresh_read_run [where E = E and convert = convert and n = n, OF good l] True fresh(2-4) lines by auto
      have "positions_fresh s'" using s'(3,4) fresh(1) by (auto simp: positions_fresh_def)
      with keep s'(1,2) True ok show ?thesis unfolding E_def [symmetric] s0_def [symmetric] by simp
    qed
  qed
qed

lemma handle_implements:
  assumes "stands_for K s w" "fair w e"
  shows "case watch_step e w of Inl f \<Rightarrow> carbonite_handle e s = Inl f
    | Inr (r, w') \<Rightarrow> \<exists>s'. carbonite_handle e s = Inr (r, s') \<and> stands_for K s' w'"
proof (cases e)
  case (Timer M)
  then show ?thesis using timer_stands_for [of K s w M] assms by auto
next
  case (Module_event M st this_module name)
  have "notifier_registered s" using assms(1) by (simp add: stands_for_def in_service_def)
  then show ?thesis
    using module_stands_for [of K s w M st this_module name] assms Module_event
    by (auto simp del: watch_step.simps split: sum.splits prod.splits) (auto split: if_splits)
next
  case (Ioctl M capable n)
  then show ?thesis
    using ioctl_stands_for [of K s w M capable n] assms by (auto simp del: watch_step.simps)
next
  case (Read M convert k p n)
  have "dump_proc_entry s" using assms(1) by (simp add: stands_for_def in_service_def)
  then show ?thesis
    using read_stands_for [of K s w M convert k p n] assms Read
    by (auto simp del: watch_step.simps split: sum.splits prod.splits)
qed

section \<open>Any sequence of events\<close>

lemma watch_keeps_table:
  "watch_step e w = Inr (r, w') \<Longrightarrow> watched w' = watched w"
  by (cases e) (auto simp: watched_def fun_eq_iff split: if_splits)

lemma fair_watched: "watched w' = watched w \<Longrightarrow> fair w' e = fair w e"
  by (simp add: fair_def)

lemma handle_all_implements:
  assumes "stands_for K s w" "\<forall>e \<in> set es. fair w e"
  shows "case watch_run es w of Inl f \<Rightarrow> carbonite_handle_all es s = Inl f
    | Inr (rs, w') \<Rightarrow> \<exists>s'. carbonite_handle_all es s = Inr (rs, s') \<and> stands_for K s' w'"
  using assms
proof (induction es arbitrary: s w)
  case Nil
  then show ?case by simp
next
  case (Cons e es)
  have e: "fair w e" using Cons.prems(2) by simp
  show ?case
  proof (cases "watch_step e w")
    case (Inl f)
    then show ?thesis using handle_implements [OF Cons.prems(1) e] by simp
  next
    case (Inr r)
    then obtain x w1 where w1: "watch_step e w = Inr (x, w1)" by (cases r) auto
    then obtain s1 where s1: "carbonite_handle e s = Inr (x, s1)" "stands_for K s1 w1"
      using handle_implements [OF Cons.prems(1) e] by auto
    have "\<forall>e \<in> set es. fair w1 e"
      using Cons.prems(2) fair_watched [OF watch_keeps_table [OF w1]] by simp
    from Cons.IH [OF s1(2) this] show ?thesis
      using w1 s1(1) by (auto split: sum.splits)
  qed
qed

text \<open>
  C2: The loaded module implements the abstract monitor. Take any sequence of timer ticks, module
  events, commands and reads in which allocations succeed, no process has a name with a '%', and the
  memory of the table can be read; at the start no stored snapshot has a name with a '%' (such a name
  becomes part of a format, see C35), and a remote logger has its queue. Then every event has exactly the
  outcome the monitor gives it: a command dumps all processes and returns 0, EPERM or ENOTTY; the first
  incident dumps, unless the last dump was for a module's start, and ends the guard; a module that goes
  live dumps while there is a guard and makes the kernel call a NULL pointer when there is none; a read
  shows the header and the lines in order, or frees what it must not when it resumes and stops early.
  Nothing else happens, there is no other fault, and the surroundings K, which are the device, the
  module's entry in the kernel's list with its exit function, and what the heap holds beside the list and
  its snapshots, stay as they are.
\<close>

theorem carbonite_implements_watch:
  assumes "stands_for K s w" "\<forall>e \<in> set es. fair w e"
  shows "case watch_run es w of Inl f \<Rightarrow> carbonite_handle_all es s = Inl f
    | Inr (rs, w') \<Rightarrow> \<exists>s'. carbonite_handle_all es s = Inr (rs, s') \<and> stands_for K s' w'"
  using assms by (rule handle_all_implements)

section \<open>From the load on\<close>

definition first_watch :: "machine \<Rightarrow> symbol_search \<Rightarrow> 32 word \<Rightarrow> watch" where
  "first_watch M r h = \<lparr>table_at = table_symbol (world_of M) r,
     table_len = ucast (symbol_after (world_of M) r - table_symbol (world_of M) r), fingerprint = h,
     evidence_lines = [], on_guard = True, last_dump = NONE\<rparr>"

lemma beyond_Nil [simp]: "beyond h [] = (nodes h, dumps h)"
  by (simp add: beyond_def snapshots_def dumps_of_def)

lemma start_stands_for:
  assumes "cold s" "previous_reason s = NONE" "plain_dumps (heap s)" "positions_fresh s" "granted A" "good_machine M"
    and "monitoring P" "check_interval P \<noteq> 0"
    and "table_symbol (world_of M) (search s) \<noteq> 0" "symbol_after (world_of M) (search s) \<noteq> 0"
    and "initial_table (world_of M) (search s) = Inr h"
  shows "\<exists>s'. carbonite_init M P A s = Inr (0, s') \<and> registered A s s' \<and>
    in_module_list s' = (in_module_list s \<and> \<not> stealth P) \<and> has_exit s' = (has_exit s \<and> \<not> stealth P) \<and>
    stands_for (fixtures s', nodes (heap s), dumps (heap s)) s' (first_watch M (search s) h)"
proof -
  obtain s' where s': "carbonite_init M P A s = Inr (0, s')" "serving s'" "ticking s'" "incident_handler s'"
    "notifier_registered s'" "unchanged s' (world_of M)" "previous_reason s' = previous_reason s"
    "dumps (heap s') = dumps (heap s)" "loffs s' = loffs s" "next_loff s' = next_loff s"
    "sys_call_table_address s' = table_symbol (world_of M) (search s)"
    "sys_call_table_size s' = ucast (symbol_after (world_of M) (search s) - table_symbol (world_of M) (search s))"
    "registered A s s'" "nodes (heap s') = nodes (heap s)" "queue_ready s'"
    "in_module_list s' = (in_module_list s \<and> \<not> stealth P)" "has_exit s' = (has_exit s \<and> \<not> stealth P)"
    using monitoring_started [OF assms(1,5,6,8,7,9-11)] by blast
  have "table_hash (world_of M) s' = Inr h"
    using s'(11,12) assms(9,11) by (simp add: table_hash_def initial_table_def)
  then have "sys_call_table_hash s' = h" using s'(6) by (simp add: unchanged_def)
  moreover have "\<exists>as. evidence (heap s') (dump_list s') as \<and> texts (heap s') as = [] \<and>
      (nodes (heap s), dumps (heap s)) = beyond (heap s') as"
    using s'(2,8,14) by (intro exI [of _ "[]"]) (simp add: texts_def dumps_of_def serving_def)
  ultimately have "stands_for (fixtures s', nodes (heap s), dumps (heap s)) s' (first_watch M (search s) h)"
    using s'(2-12,14,15) assms(2-4) unfolding stands_for_def
    by (intro conjI) (simp_all add: in_service_def serving_def first_watch_def plain_dumps_def positions_fresh_def)
  then show ?thesis using s'(1,13,16,17) by blast
qed

lemma exit_stands_for:
  assumes "stands_for (fixtures s1, n, d) s w" "registered A s0 s1" "strings_ok (proc s0)" "0 \<le> major_of A"
    and "good_machine M" "monitoring P"
  shows "\<exists>s'. carbonite_exit M P s = Inr s' \<and> stopped s' \<and> chrdevs s' = chrdevs s0 \<and>
    proc_dir (proc s') = proc_dir (proc s0) \<and> strings (proc s') = strings (proc s0) \<and>
    nodes (heap s') = n \<and> dumps (heap s') = d"
proof -
  obtain as where as: "evidence (heap s) (dump_list s) as" "fixtures s = fixtures s1" "(n, d) = beyond (heap s) as" "timer_pending s" "queue_ready s"
    using assms(1) by (auto simp: stands_for_def in_service_def ticking_def)
  have "device s = device s1" using as(2) by (simp add: fixtures_def)
  from registered_device [OF this] have r: "registered A s0 s" using assms(2) by simp
  have nul: "NUL \<notin> set (device_name CARBONITE_NAME @ ''-major'')" "NUL \<notin> set (fmt_d (major_of A))"
    using device_name_no_nul assms(4) dec_string_no_nul by (simp_all add: fmt_d_def)
  have "list_at (heap s) (dump_list s) as" using as(1) by (simp add: evidence_def)
  from exit_run [OF assms(5,6) as(4) _ assms(3) nul _ this evidence_owns [OF as(1)] as(5)] r as(3)
  show ?thesis by (auto simp: registered_def beyond_def)
qed

text \<open>
  C12: The life of the module with monitoring, from its loading over a sequence of events to its
  unloading. The kernel grants what the start asks for, the interval is not zero, and the table's symbols
  are found; during the events allocations succeed, no process name holds a '%', and the memory of the
  table can be read. Then the module behaves from the start on as the monitor that has seen nothing yet
  and guards the table as it is at the load. Unless an event faults: with stealth, the default, the module
  has left the kernel's list and has no exit function, so that it cannot be unloaded; without stealth it
  is in the list with its exit function, and unloading it stops everything that it started and leaves
  the registered devices, the proc directory, the copied strings, the nodes and the snapshots as they
  were before it was loaded. (The header of its list stays allocated, and the positions of reads that
  reached the end.)
\<close>

theorem carbonite_life:
  assumes "cold s" "previous_reason s = NONE" "plain_dumps (heap s)" "positions_fresh s" "strings_ok (proc s)"
    and "granted A" "good_machine M" "good_machine N" "monitoring P" "check_interval P \<noteq> 0"
    and "table_symbol (world_of M) (search s) \<noteq> 0" "symbol_after (world_of M) (search s) \<noteq> 0"
    and "initial_table (world_of M) (search s) = Inr h" "\<forall>e \<in> set es. fair (first_watch M (search s) h) e"
    and "in_module_list s" "has_exit s"
  shows "\<exists>s0. carbonite_init M P A s = Inr (0, s0) \<and>
    (case watch_run es (first_watch M (search s) h) of
       Inl f \<Rightarrow> carbonite_handle_all es s0 = Inl f
     | Inr (rs, w) \<Rightarrow> \<exists>s1. carbonite_handle_all es s0 = Inr (rs, s1) \<and>
         stands_for (fixtures s0, nodes (heap s), dumps (heap s)) s1 w \<and>
         (if stealth P then \<not> in_module_list s1 \<and> \<not> has_exit s1
          else in_module_list s1 \<and> has_exit s1 \<and> (\<exists>s2. carbonite_exit N P s1 = Inr s2 \<and> stopped s2 \<and>
            chrdevs s2 = chrdevs s \<and> proc_dir (proc s2) = proc_dir (proc s) \<and> strings (proc s2) = strings (proc s) \<and>
            nodes (heap s2) = nodes (heap s) \<and> dumps (heap s2) = dumps (heap s))))"
proof -
  define w0 where "w0 = first_watch M (search s) h"
  obtain s0 where s0: "carbonite_init M P A s = Inr (0, s0)" "registered A s s0"
    "in_module_list s0 = (\<not> stealth P)" "has_exit s0 = (\<not> stealth P)"
    "stands_for (fixtures s0, nodes (heap s), dumps (heap s)) s0 w0"
    using start_stands_for [OF assms(1-4,6,7,9-13)] assms(15,16) unfolding w0_def by blast
  have run: "case watch_run es w0 of Inl f \<Rightarrow> carbonite_handle_all es s0 = Inl f
      | Inr (rs, w) \<Rightarrow> \<exists>s1. carbonite_handle_all es s0 = Inr (rs, s1) \<and>
          stands_for (fixtures s0, nodes (heap s), dumps (heap s)) s1 w"
    using handle_all_implements [OF s0(5)] assms(14) unfolding w0_def by blast
  have major: "0 \<le> major_of A" using assms(6) by (simp add: granted_def dumps_granted_def)
  note leave = exit_stands_for [OF _ s0(2) assms(5) major assms(8,9)]
  show ?thesis
  proof (cases "watch_run es w0")
    case (Inl f)
    then show ?thesis using s0(1) run by (auto simp: w0_def)
  next
    case (Inr r)
    obtain rs w where r: "r = (rs, w)" by (cases r)
    then obtain s1 where s1: "carbonite_handle_all es s0 = Inr (rs, s1)"
      "stands_for (fixtures s0, nodes (heap s), dumps (heap s)) s1 w"
      using run Inr by auto
    then have "fixtures s1 = fixtures s0" by (auto simp: stands_for_def)
    then have "in_module_list s1 = (\<not> stealth P)" "has_exit s1 = (\<not> stealth P)"
      using s0(3,4) by (simp_all add: fixtures_def)
    then show ?thesis using s0(1) s1 r leave [OF s1(2)] Inr unfolding w0_def by (cases "stealth P") auto
  qed
qed

section \<open>Examples\<close>

definition example_watch :: watch where
  "example_watch = \<lparr>table_at = 8, table_len = 8, fingerprint = 0x4d5f413d,
     evidence_lines = [dump_text example_dump], on_guard = True, last_dump = NONE\<rparr>"

lemma armed_stands_for: "stands_for (fixtures (armed NONE), beyond (example_heap example_dump) [2]) (armed NONE) example_watch"
proof -
  have "plain_dumps (example_heap example_dump)"
    by (auto simp: plain_dumps_def example_heap_def no_conversion_def example_dump_def split: if_splits)
  moreover have "texts (example_heap example_dump) [2] = [dump_text example_dump]"
    by (simp add: texts_def example_heap_list(2) text_of_def) (simp add: example_heap_def)
  moreover have "sys_call_table_address (armed NONE) = 8 \<and> sys_call_table_size (armed NONE) = 8 \<and>
      sys_call_table_hash (armed NONE) = 0x4d5f413d \<and> notifier_registered (armed NONE) \<and> dump_proc_entry (armed NONE) \<and>
      NUL \<in> set (commanding_module (armed NONE))"
    by (simp add: armed_def idle_checker_def example_chrdev_def example_dumps_def carbonite_state.defs integrity_state.defs
        chrdev_state.defs dump_state.defs MODULE_NAME_LEN_def)
  ultimately show ?thesis
    using example_evidence armed_fields [of NONE] armed_ticking [of NONE] armed_ready [of NONE]
    by (auto simp: stands_for_def in_service_def positions_fresh_def example_watch_def)
qed

lemma hooked_machine_fair: "fair example_watch (Timer (example_machine hooked_entry))"
  using example_plentiful [of hooked_entry] hooked_hash(1)
  by (auto simp: fair_def plain_names_def watched_def example_watch_def example_machine_def example_process_def example_world_def)

text \<open>A changed table, then a read, then a module that goes live.\<close>

theorem carbonite_implements_watch_witness:
  "(\<exists>s'. carbonite_handle_all [Timer (example_machine hooked_entry), Read (example_machine hooked_entry) id True 0 5] (armed NONE) =
     Inr ([Done, Text (header_line @ dump_text example_dump @ dump_text (snapshot_of 63 example_process))], s')) \<and>
   carbonite_handle_all [Timer (example_machine hooked_entry),
     Module_event (example_machine hooked_entry) MODULE_STATE_LIVE False ''m''] (armed NONE) = Inl Null_call"
proof -
  define M where "M = example_machine hooked_entry"
  have f: "fair example_watch e" if "machine_of e = M" for e
    using hooked_machine_fair that by (simp add: fair_def M_def)
  have "\<not> intact example_watch (world_of M)"
    using hooked_hash by (simp add: intact_def watched_def example_watch_def M_def example_machine_def example_world_def)
  moreover have "process_lines M = [dump_text (snapshot_of 63 example_process)]"
    by (simp add: process_lines_def M_def example_machine_def)
  ultimately have t: "watch_step (Timer M) example_watch = Inr (Done, example_watch\<lparr>on_guard := False, last_dump := AFTER_INCIDENT,
      evidence_lines := [dump_text example_dump, dump_text (snapshot_of 63 example_process)]\<rparr>)"
    by (simp add: dumped_def example_watch_def NONE_def AFTER_MODULE_INIT_def)
  have "watch_run [Timer M, Read M id True 0 5] example_watch =
      Inr ([Done, Text (header_line @ dump_text example_dump @ dump_text (snapshot_of 63 example_process))],
        example_watch\<lparr>on_guard := False, last_dump := AFTER_INCIDENT,
          evidence_lines := [dump_text example_dump, dump_text (snapshot_of 63 example_process)]\<rparr>)"
    by (simp only: watch_run.simps t run_bind_Inr prod.case) (simp add: report_of_def)
  moreover have "watch_run [Timer M, Module_event M MODULE_STATE_LIVE False ''m''] example_watch = Inl Null_call"
    by (simp only: watch_run.simps t run_bind_Inr prod.case) simp
  ultimately show ?thesis
    using carbonite_implements_watch [OF armed_stands_for, of "[Timer M, Read M id True 0 5]"]
      carbonite_implements_watch [OF armed_stands_for, of "[Timer M, Module_event M MODULE_STATE_LIVE False ''m'']"] f
    by (auto simp: M_def)
qed

text \<open>A fresh module whose command is given: the list then holds the one process, until the module is unloaded.\<close>

theorem carbonite_life_witness:
  "\<exists>s0 s1 s2. carbonite_init (example_machine kernel_entry) \<lparr>check_interval = 1000, monitoring = True, remote_log_ip = None, stealth = False\<rparr>
     example_answers unloaded = Inr (0, s0) \<and>
     carbonite_handle_all [Ioctl (example_machine kernel_entry) True IOCTL_CARBONITE_COMMAND,
       Read (example_machine kernel_entry) id True 0 2] s0 =
       Inr ([Code 0, Text (header_line @ dump_text (snapshot_of 63 example_process))], s1) \<and>
     carbonite_exit (example_machine []) \<lparr>check_interval = 1000, monitoring = True, remote_log_ip = None, stealth = False\<rparr> s1 = Inr s2 \<and>
     stopped s2 \<and> chrdevs s2 = chrdevs unloaded \<and> nodes (heap s2) = nodes (heap unloaded)"
proof -
  define M where "M = example_machine kernel_entry"
  define w where "w = first_watch M (search unloaded) 0x4d5f413d"
  have sym: "table_symbol (world_of M) r = 8" "symbol_after (world_of M) r = 16" "initial_table (world_of M) r = Inr 0x4d5f413d" for r
    by (simp_all add: M_def example_machine_def example_symbols example_table)
  have "watched w (world_of M) = Inr 0x4d5f413d"
    using hash_collision_facts(1) by (simp add: w_def first_watch_def watched_def sym) (simp add: M_def example_machine_def example_world_def)
  then have f: "fair w e" if "machine_of e = M" for e
    using that example_plentiful [of kernel_entry]
    by (simp add: fair_def plain_names_def M_def example_machine_def example_process_def)
  have u: "previous_reason unloaded = NONE" "plain_dumps (heap unloaded)" "positions_fresh unloaded" "strings_ok (proc unloaded)"
    by (auto simp: empty_proc_def strings_ok_def unloaded_def idle_checker_def example_chrdev_def example_dumps_def carbonite_state.defs integrity_state.defs
        chrdev_state.defs dump_state.defs plain_dumps_def positions_fresh_def example_heap_def no_conversion_def example_dump_def
        split: if_splits)
  have p: "process_lines M = [dump_text (snapshot_of 63 example_process)]"
    by (simp add: process_lines_def M_def example_machine_def)
  have run: "watch_run [Ioctl M True IOCTL_CARBONITE_COMMAND, Read M id True 0 2] w =
      Inr ([Code 0, Text (header_line @ dump_text (snapshot_of 63 example_process))], dumped M ON_DEMAND w)"
    by (simp add: w_def first_watch_def report_of_def dumped_def p numeral_2_eq_2 ON_DEMAND_def AFTER_INCIDENT_def)
  have present: "in_module_list unloaded" "has_exit unloaded" by (simp_all add: unloaded_def carbonite_state.defs integrity_state.defs)
  from carbonite_life [OF unloaded_cold u example_granted, where M = M and N = "example_machine []" and h = "0x4d5f413d"
      and P = "\<lparr>check_interval = 1000, monitoring = True, remote_log_ip = None, stealth = False\<rparr>"
      and es = "[Ioctl M True IOCTL_CARBONITE_COMMAND, Read M id True 0 2]"]
  show ?thesis
    using good_example [of kernel_entry] good_example [of "[]"] sym f run present unfolding w_def [symmetric] M_def [symmetric]
    by (auto simp del: carbonite_handle_all.simps)
qed

end
