(* ===== verification/Trigger.thy ===== *)
theory Trigger imports Watch begin

text \<open>
  The tool with which an administrator triggers carbonite (utils/trigger-carbonite.c). The answers of
  open and ioctl are arguments; what is printed is the list of the texts given to perror.
\<close>

definition device_path :: string where
  "device_path = ''/dev/command-the-drip-dry-carbonite''"

definition trigger_main :: "int \<Rightarrow> ('s \<Rightarrow> (int \<times> 's) run) \<Rightarrow> 's \<Rightarrow> (int \<times> string list \<times> 's) run" where
  "trigger_main fd ioctl s =
     (if fd < 0 then Inr (- 1, [device_path], s)
      else
        run_bind (ioctl s) (\<lambda>(ret, s).
        if ret \<noteq> 0 then Inr (- 1, [''need root''], s) else Inr (0, [], s)))"

text \<open>The path is the name under which the module registers its device.\<close>

lemma device_path_registered: "device_path = ''/dev/'' @ device_name CARBONITE_NAME"
  by (simp add: device_path_def device_name_def CARBONITE_NAME_def)

lemma trigger_run:
  assumes "0 \<le> fd" "command s"
  shows "trigger_main fd (command_ioctl (carbonite M) True IOCTL_CARBONITE_COMMAND) s =
    run_bind (carbonite M ON_DEMAND s) (\<lambda>s. Inr (0, [], s))"
  using assms by (cases "carbonite M ON_DEMAND s") (simp_all add: trigger_main_def command_ioctl_def)

section \<open>An administrator at work\<close>

text \<open>
  C16: The tool and the proc file together. There is at least one process, neither a process nor a
  snapshot of the list has a name with a '%' (such a name becomes part of a format, see C35), allocations
  succeed, the memory of the table can be read, and a remote logger has its queue. When an administrator
  with the capability triggers the loaded module, the tool returns 0 and prints nothing, and reading the
  proc file then shows the header, the lines that were there before, and one line for each process of
  that moment, in the kernel's order, cut at the number of records the reader has room for. If the device cannot be opened or the user lacks the capability, the tool returns -1, says
  which of the two it was, and nothing happens to the module.
\<close>

theorem trigger_shows_processes:
  assumes "stands_for K s w" "fair w (Ioctl M capable IOCTL_CARBONITE_COMMAND)" "tasks M \<noteq> []"
  shows "if 0 \<le> fd \<and> capable
    then \<exists>s1 s2. trigger_main fd (command_ioctl (carbonite M) capable IOCTL_CARBONITE_COMMAND) s = Inr (0, [], s1) \<and>
      carbonite_handle (Read M convert True 0 n) s1 =
        Inr (Text (concat (take n (header_line # evidence_lines w @ process_lines M))), s2) \<and>
      stands_for K s2 (dumped M ON_DEMAND w)
    else trigger_main fd (command_ioctl (carbonite M) capable IOCTL_CARBONITE_COMMAND) s =
      Inr (- 1, [if fd < 0 then device_path else ''need root''], s)"
proof (cases "0 \<le> fd \<and> capable")
  case False
  then show ?thesis by (auto simp: trigger_main_def command_ioctl_def EPERM_def)
next
  case True
  obtain s1 where s1: "carbonite M ON_DEMAND s = Inr s1" "stands_for K s1 (dumped M ON_DEMAND w)"
    using carbonite_stands_for [OF assms(1), of M ON_DEMAND] assms(2) by (auto simp: fair_def)
  have "command s" using assms(1) by (simp add: stands_for_def in_service_def)
  with True s1(1) have tool: "trigger_main fd (command_ioctl (carbonite M) capable IOCTL_CARBONITE_COMMAND) s = Inr (0, [], s1)"
    using trigger_run [of fd s M] by simp
  have "watched (dumped M ON_DEMAND w) = watched w" by (simp add: watched_def fun_eq_iff)
  then have "fair (dumped M ON_DEMAND w) (Read M convert True 0 n)"
    using assms(2) by (simp add: fair_def)
  moreover have "report_of (dumped M ON_DEMAND w) = header_line # evidence_lines w @ process_lines M"
    using assms(3) by (simp add: report_of_def dumped_def process_lines_def ON_DEMAND_def AFTER_INCIDENT_def)
  ultimately show ?thesis
    using handle_implements [OF s1(2), of "Read M convert True 0 n"] tool True by auto
qed

theorem trigger_shows_processes_witness:
  "\<exists>s1 s2. trigger_main 3 (command_ioctl (carbonite (example_machine hooked_entry)) True IOCTL_CARBONITE_COMMAND) (armed NONE) =
     Inr (0, [], s1) \<and>
   carbonite_handle (Read (example_machine hooked_entry) id True 0 5) s1 =
     Inr (Text (header_line @ dump_text example_dump @ dump_text (snapshot_of 63 example_process)), s2)"
proof -
  have "fair example_watch (Ioctl (example_machine hooked_entry) True IOCTL_CARBONITE_COMMAND)"
    using hooked_machine_fair by (simp add: fair_def)
  from trigger_shows_processes [OF armed_stands_for this, of 3 id 5] show ?thesis
    by (auto simp: process_lines_def example_machine_def example_watch_def)
qed

end
