(* ===== verification/Hijacker.thy ===== *)
theory Hijacker imports Kallsyms begin

text \<open>
  The module that carbonite is tested against (attacks/sys-call-table-hijacker): it replaces the
  entry of open in the system call table and puts it back. The state holds the processor's cr0, whose
  bit 16 protects read-only pages, and the table at the address of its symbol.
\<close>

definition SYMBOL_NOT_FOUND :: int where "SYMBOL_NOT_FOUND = - 1"
definition NR_open :: nat where "NR_open = 2"
definition HIJACKER_NAME :: string where "HIJACKER_NAME = ''sys-call-table-hijacker''"

record hijacker_state = kernel_log +
  cr0 :: "64 word"
  table :: "64 word list"
  table_address :: "64 word"
  original_call :: "64 word"
  hijacker_search :: symbol_search

section \<open>The page protection\<close>

definition WP :: "64 word" where "WP = push_bit 16 1"

definition disable_page_protection :: "'a hijacker_state_scheme \<Rightarrow> 'a hijacker_state_scheme" where
  "disable_page_protection s = s\<lparr>cr0 := cr0 s AND NOT WP\<rparr>"

definition enable_page_protection :: "'a hijacker_state_scheme \<Rightarrow> 'a hijacker_state_scheme" where
  "enable_page_protection s = s\<lparr>cr0 := cr0 s OR WP\<rparr>"

text \<open>A write into the table, which is in a read-only page.\<close>

definition write_entry :: "nat \<Rightarrow> 64 word \<Rightarrow> 'a hijacker_state_scheme \<Rightarrow> 'a hijacker_state_scheme run" where
  "write_entry i f s =
     (if bit (cr0 s) 16 then Inl Write_protected
      else if i < length (table s) then Inr (s\<lparr>table := (table s)[i := f]\<rparr>)
      else Inl Write_out_of_bounds)"

section \<open>The module\<close>

text \<open>
  The function that open is replaced by. call runs the function at an address, which 0 is not.
\<close>

definition hijacker_sys_open ::
  "(64 word \<Rightarrow> 'a hijacker_state_scheme \<Rightarrow> ('r \<times> 'a hijacker_state_scheme) run) \<Rightarrow> 'a hijacker_state_scheme \<Rightarrow>
   ('r \<times> 'a hijacker_state_scheme) run" where
  "hijacker_sys_open call s =
     (let s = printk (HIJACKER_NAME @ '': PWNED'' @ [CHR 0x0A]) s in
      if original_call s = 0 then Inl Null_call else call (original_call s) s)"

definition hijack ::
  "bool \<Rightarrow> walk \<Rightarrow> (string \<Rightarrow> 64 word) \<Rightarrow> 64 word \<Rightarrow> 'a hijacker_state_scheme \<Rightarrow> (int \<times> 'a hijacker_state_scheme) run" where
  "hijack old_kernel walk_symbols lookup hook s =
     (let (a, r) = my_kallsyms_lookup_name old_kernel walk_symbols lookup ''sys_call_table'' (hijacker_search s);
          s = s\<lparr>table_address := a, hijacker_search := r\<rparr> in
      if a = 0
      then Inr (SYMBOL_NOT_FOUND,
             printk (HIJACKER_NAME @ '':'' @ CHR 0x09 # ''[-] sys_call_table symbol not found'' @ [CHR 0x0A]) s)
      else if \<not> NR_open < length (table s) then Inl Read_out_of_bounds
      else
        let s = s\<lparr>original_call := table s ! NR_open\<rparr> in
        run_bind (write_entry NR_open hook (disable_page_protection s)) (\<lambda>s.
        Inr (0, printk (HIJACKER_NAME @ '':'' @ CHR 0x09 # ''[+] Injected sys_open'' @ [CHR 0x0A])
                  (enable_page_protection s))))"

definition cleanup :: "'a hijacker_state_scheme \<Rightarrow> 'a hijacker_state_scheme run" where
  "cleanup s =
     (let s = printk (HIJACKER_NAME @ '':'' @ CHR 0x09 # ''[+] Cleaning up'' @ [CHR 0x0A]) s in
      run_bind (write_entry NR_open (original_call s) (disable_page_protection s)) (\<lambda>s.
      Inr (enable_page_protection s)))"

section \<open>What the module does to the table\<close>

lemma bit_WP [simp]: "bit WP n \<longleftrightarrow> n = 16"
  unfolding WP_def bit_push_bit_iff bit_1_iff by auto

lemma unprotected [simp]: "\<not> bit (cr0 (disable_page_protection s)) 16"
  by (simp add: disable_page_protection_def bit_simps)

lemma protection_restored:
  assumes "bit (cr0 s) 16"
  shows "(cr0 s AND NOT WP) OR WP = cr0 s"
  by (rule bit_word_eqI) (use assms in \<open>auto simp: bit_simps\<close>)

definition protected_table :: "'a hijacker_state_scheme \<Rightarrow> bool" where
  "protected_table s \<longleftrightarrow> bit (cr0 s) 16 \<and> NR_open < length (table s)"

lemma hijack_run:
  assumes "protected_table s" "fst (my_kallsyms_lookup_name o_k w lk ''sys_call_table'' (hijacker_search s)) \<noteq> 0"
  shows "\<exists>s'. hijack o_k w lk hook s = Inr (0, s') \<and> table s' = (table s)[NR_open := hook] \<and>
    original_call s' = table s ! NR_open \<and> cr0 s' = cr0 s"
proof -
  obtain a r where a: "my_kallsyms_lookup_name o_k w lk ''sys_call_table'' (hijacker_search s) = (a, r)" by fastforce
  define s1 where "s1 = s\<lparr>table_address := a, hijacker_search := r, original_call := table s ! NR_open\<rparr>"
  have w: "write_entry NR_open hook (disable_page_protection s1) =
      Inr ((disable_page_protection s1)\<lparr>table := (table s)[NR_open := hook]\<rparr>)"
    using assms(1) by (simp add: write_entry_def s1_def disable_page_protection_def protected_table_def bit_simps)
  have "hijack o_k w lk hook s = run_bind (write_entry NR_open hook (disable_page_protection s1)) (\<lambda>s.
      Inr (0, printk (HIJACKER_NAME @ '':'' @ CHR 0x09 # ''[+] Injected sys_open'' @ [CHR 0x0A]) (enable_page_protection s)))"
    using assms a by (simp add: hijack_def protected_table_def s1_def)
  then show ?thesis
    using assms(1) protection_restored [of s] unfolding w
    by (simp add: s1_def enable_page_protection_def disable_page_protection_def printk_def protected_table_def)
qed

lemma cleanup_run:
  assumes "protected_table s"
  shows "\<exists>s'. cleanup s = Inr s' \<and> table s' = (table s)[NR_open := original_call s] \<and> cr0 s' = cr0 s"
proof -
  define s1 where "s1 = printk (HIJACKER_NAME @ '':'' @ CHR 0x09 # ''[+] Cleaning up'' @ [CHR 0x0A]) s"
  have "write_entry NR_open (original_call s) (disable_page_protection s1) =
      Inr ((disable_page_protection s1)\<lparr>table := (table s)[NR_open := original_call s]\<rparr>)"
    using assms by (simp add: write_entry_def s1_def disable_page_protection_def protected_table_def printk_def bit_simps)
  then show ?thesis
    using assms protection_restored [of s]
    by (simp add: cleanup_def Let_def s1_def [symmetric])
      (simp add: s1_def enable_page_protection_def disable_page_protection_def printk_def protected_table_def)
qed

text \<open>
  C31: Loading the hijacker replaces exactly the entry of open, although the table is in a protected
  page, and leaves the protection of pages as it was; the replaced open prints a line and does what
  the original does; unloading the module puts the whole table back.
\<close>

theorem hijack_cleanup_roundtrip:
  assumes "protected_table s" "table s ! NR_open \<noteq> 0"
    and "fst (my_kallsyms_lookup_name o_k w lk ''sys_call_table'' (hijacker_search s)) \<noteq> 0"
  shows "\<exists>s1 s2. hijack o_k w lk hook s = Inr (0, s1) \<and> table s1 = (table s)[NR_open := hook] \<and> cr0 s1 = cr0 s \<and>
    hijacker_sys_open call s1 = call (table s ! NR_open) (printk (HIJACKER_NAME @ '': PWNED'' @ [CHR 0x0A]) s1) \<and>
    cleanup s1 = Inr s2 \<and> table s2 = table s \<and> cr0 s2 = cr0 s"
proof -
  obtain s1 where s1: "hijack o_k w lk hook s = Inr (0, s1)" "table s1 = (table s)[NR_open := hook]"
    "original_call s1 = table s ! NR_open" "cr0 s1 = cr0 s"
    using hijack_run [OF assms(1,3)] by blast
  have "protected_table s1" using assms(1) s1 by (simp add: protected_table_def)
  then obtain s2 where "cleanup s1 = Inr s2" "table s2 = (table s1)[NR_open := original_call s1]" "cr0 s2 = cr0 s1"
    using cleanup_run by blast
  then show ?thesis using s1 assms(2) by (auto simp: hijacker_sys_open_def printk_def)
qed

definition example_table_state :: hijacker_state where
  "example_table_state = \<lparr>klog = [], cr0 = 65536 + 1, table = [0x10, 0x20, 0x30], table_address = 0, original_call = 0,
     hijacker_search = \<lparr>target_address = 0, return_next_symbol = False\<rparr>\<rparr>"

lemma example_protected: "protected_table example_table_state"
  by (simp add: protected_table_def example_table_state_def NR_open_def)

theorem hijack_cleanup_roundtrip_witness:
  "\<exists>s1 s2. hijack True (each_symbol [(''sys_call_table'', 8)]) (\<lambda>_. 0) 0xA0 example_table_state = Inr (0, s1) \<and>
     table s1 = [0x10, 0x20, 0xA0] \<and> cleanup s1 = Inr s2 \<and> table s2 = [0x10, 0x20, 0x30]"
proof -
  have "fst (my_kallsyms_lookup_name True (each_symbol [(''sys_call_table'', 8)]) (\<lambda>_. 0) ''sys_call_table''
      (hijacker_search example_table_state)) \<noteq> 0"
    by (simp add: my_kallsyms_lookup_name_def find_symbol_def strncmp_eq_0 KSYM_NAME_LEN_def Let_def)
  moreover have "(table example_table_state)[NR_open := v] = [0x10, 0x20, v]" for v
  proof -
    have "NR_open = Suc (Suc 0)" by (simp add: NR_open_def)
    then show ?thesis unfolding \<open>NR_open = Suc (Suc 0)\<close> by (simp add: example_table_state_def)
  qed
  moreover have "table example_table_state = [0x10, 0x20, 0x30]" "table example_table_state ! NR_open \<noteq> 0"
    by (simp_all add: example_table_state_def NR_open_def)
  ultimately show ?thesis
    using hijack_cleanup_roundtrip [OF example_protected, where call = "\<lambda>a s. Inr (0 :: int, s)" and hook = "0xA0"]
    by metis
qed

end
