(* ===== verification/Spec2Isabelle.thy ===== *)
theory Spec2Isabelle
  imports Inet_Utils Typed_Rules Dresden Integrity_Race Exit_Race Task_Dump_Race Watch Trigger Hijacker
begin

text \<open>
  A verification development for a suite of Linux kernel security modules. The suite has three
  modules that do not call each other, and a test module:

  \<^item> netlog (netlog/src) logs the internet connections of a machine. Kprobes on connect, accept,
    close and bind (probes.c) format the addresses of a socket (inet_utils.c), look the connection
    up in a whitelist (whitelist.c) of parsed rules (connection.c), and print a line. The rules come
    from the module's parameter and from a proc file (proc_config.c).
  \<^item> dresden (dresden/src) blocks the loading of modules by replacing their init functions.
  \<^item> carbonite (the-drip-dry-carbonite/src) watches the system call table with a timer that hashes
    it (sys-call-table-integrity-check.c, super-fast-hash.c, my-kallsyms.c). On an incident, when a
    module goes live, or on the command of an administrator (command-chrdev.c, proc-entry.c,
    utils/trigger-carbonite.c) it takes a snapshot of every process (carbonite.c, task-dump.c,
    task-dump-list.c, task-utils.c), which a proc file shows (task-dump-seq-file.c). Its messages may
    also go to a remote host (logger.c).
  \<^item> the hijacker (attacks/sys-call-table-hijacker) replaces the entry of open in that table.

  How the code is modelled. Kernel_Base holds what all theories share: a computation either faults
  (an access outside of its object, a NULL dereference or call, an invalid free, a use after free, an
  argument that was never passed, a write to a protected page) or has a result; the bytes of a C
  object, the string functions, numbers as text, the kernel's log. Static variables are the fields of
  a record; the records of modules that work together form a chain of extensions (kernel_log,
  proc_state, wl_state, netlog_state for netlog; kernel_log, logger_state, dump_state, chrdev_state,
  integrity_state, carbonite_state for carbonite), and an operation is a function on the record that
  its code needs, so that it applies unchanged to every later one. C integers that may wrap are words
  of their width. Memory from kmalloc is a map from addresses to objects with the next free address;
  whether an allocation succeeds, and what the kernel answers otherwise, are arguments.

  The theories, in the order in which they build on each other:

  \<^item> Inet_Utils (inet_utils.c): addresses and ports of a socket, their text in the static buffers,
    and the plausibility test of an ip in a rule.
  \<^item> Connection (connection.c): the parser of a rule byte by byte, an independent grammar of the rule's
    text with the proof that the parser implements it, round trips for the documented formats,
    matching and comparison.
  \<^item> Proc_Buffer, Whitelist, Proc_Config (proc_config.c, whitelist.c): the text of the proc file, the
    array of rules as a store of rules with a refinement proof (locale rule_store), the lookup, and
    the two callbacks of the proc file.
  \<^item> Probes (probes.c): the handlers, as a refinement of an abstract monitor over sequences of events
    (good_event says which events run into no fault), the loading and unloading of the module, and its
    life from the one to the other.
  \<^item> Typed_Rules: the type of the stored rules, which any sequence of calls into netlog keeps unless it
    faults, whatever bytes and answers of the kernel it is given.
  \<^item> Dresden (dresden/src): the notifier, the proc entry and the start; then any number of modules,
    whose init functions are arbitrary functions on the system.
  \<^item> Super_Fast_Hash, Kallsyms: the hash against a specification on 16 bit halves, with the exact
    bytes that it reads; the searches through the kernel's symbols (locale symbol_walk).
  \<^item> Logger: the building and queueing of a remote message, with the room in its buffer.
  \<^item> Task_Dump_List, Seq_File: the linked list of snapshots as a sequence (locale dump_sequence), the
    four operations of the proc file and what a session of reads shows.
  \<^item> Proc_Entry, Command_Chrdev: the device that triggers carbonite, its names in static buffers and the
    proc entry for its number (locale proc_reader, shared with dresden).
  \<^item> Integrity_Check, Carbonite: the checker and its notifier (locale incident_handling, which
    carbonite's handler is shown to satisfy), the freeze, the start and the end of the module, and a
    step relation over timer ticks, module events, commands and reads.
  \<^item> Watch: the loaded carbonite as an implementation of an abstract monitor (record watch), event by
    event and outcome by outcome, from any state that stands for the monitor's (fair says which events
    it covers: allocations succeed, names hold no '%', the table can be read); and the life of the module
    from its load to its end, which leaves what was there before, if stealth does not prevent the end.
  \<^item> Integrity_Race, Exit_Race, Task_Dump_Race: the start of the checker, its end with a tick under way
    (each read and each store of a variable that both use), and the adding of a snapshot as their single
    steps, between which the timer, the notifier or another processor comes.
  \<^item> Trigger, Hijacker: the command line tool, from the command to what the proc file then shows, and the
    test module.
  \<^item> this theory: the hijacker against carbonite, and dresden against the hijacker (record
    attacked_system, with the variables of both), with what carbonite then finds.

  What the theorems show. Each component has an invariant or a representation predicate (store_inv,
  rules_typed, list_at, evidence, ticking, queue_ready, stands_for) that its operations keep, and a
  statement of what every operation does on every branch. Where the code faults or misbehaves the theorem says exactly when: a parser that
  reads past its string, a buffer on the stack that overflows, a free of a pointer that was never
  allocated, a process name that is used as a format, a handler that is called after it was cleared,
  a message that is queued on a queue that could not be created.

  Loops and bounds. All loops are total functions, by structural recursion or by a measure (the rest
  of a buffer, the number of allocated nodes, the value of a word). The only bound chosen from outside
  is the number n of records in a session of the kernel's seq_file, which stands for the room in the
  reader's buffer; fresh_read_shows_all holds for every n, and size + 3 records reach the end. The size
  that the list of snapshots keeps, a long in the code, is an unbounded int.
  MODULE_NAME_LEN, PID_MAX_LIMIT and the number of open are those of a 64 bit x86 kernel.

  Not modelled. The kernel is a parameter: its sockets, tasks, clock, symbols and memory are arguments,
  what its kprobes, notifiers, timers and work queues do is the order of the events. A handler is one
  step, except that static_buffer_race interleaves two that share the buffers of the addresses, and
  that the start of the checker (start_race), its end and a tick (late_tick_outlives_exit) and the adding
  of a snapshot (concurrent_adds_lose_snapshot) are also given as single steps. The locks are left out: one that is
  global makes its operation one step, and those that are local variables exclude nobody. The level in front
  of a printk is kept only where print_log uses it. For a format that is passed without arguments only
  plain text, %% and %s are given a meaning; other conversions are a parameter. ksocket_send hands a
  message to the list of messages sent, without the socket's own errors. The kernel versions before
  2.6.29 differ only in how the uid of the current task is read. The Makefiles and scripts are not
  modelled.
\<close>

section \<open>The hijacker against carbonite\<close>

text \<open>The bytes of a table in memory, which is little-endian.\<close>

definition word_bytes :: "64 word \<Rightarrow> string" where
  "word_bytes w = map (\<lambda>i. char_of (unat w div 256 ^ i)) [0..<8]"

definition table_bytes :: "64 word list \<Rightarrow> string" where
  "table_bytes ws = concat (map word_bytes ws)"

lemma table_bytes_length: "length (table_bytes ws) = 8 * length ws"
  by (induction ws) (simp_all add: table_bytes_def word_bytes_def)

text \<open>What the checker computes when its table has the entries ws.\<close>

lemma table_hash_bytes:
  assumes "sys_call_table_address s \<noteq> 0" "unat (sys_call_table_size s) = length (table_bytes ws)"
    and "memory W (sys_call_table_address s) = table_bytes ws @ rest"
  shows "table_hash W s = Inr (hash_spec (table_bytes ws))"
  using assms super_fast_hash_in_bounds [of "sys_call_table_size s" "table_bytes ws @ rest"]
  by (simp add: table_hash_def)

text \<open>
  C7: When the hijacker is loaded while carbonite watches, the notifier first takes a snapshot of the
  processes of that moment. The next tick reports the table as modified, takes no second snapshot
  and clears the handler, provided that the hash of the table with the replaced entry differs from
  the hash of the table before; if the two hashes agree the tick reports that nothing was modified.
  A remote logger has its work queue.
\<close>

theorem hijacker_is_reported:
  assumes "plentiful M" "evidence (heap s) (dump_list s) as" "ticking s" "incident_handler s"
    and "protected_table h" "fst (my_kallsyms_lookup_name o_k w lk ''sys_call_table'' (hijacker_search h)) \<noteq> 0"
    and "sys_call_table_address s \<noteq> 0" "unat (sys_call_table_size s) = length (table_bytes (table h))"
    and "sys_call_table_hash s = hash_spec (table_bytes (table h))"
    and "memory W (sys_call_table_address s) = table_bytes ((table h)[NR_open := hook]) @ rest"
    and "queue_ready s"
  shows "\<exists>h' s1 s2 as'. hijack o_k w lk hook h = Inr (0, h') \<and> table h' = (table h)[NR_open := hook] \<and>
    the_drip_dry_carbonite_module_event (carbonite M) V MODULE_STATE_LIVE False HIJACKER_NAME s = Inr s1 \<and>
    timer_fires (carbonite N) W s1 = Inr s2 \<and>
    evidence (heap s2) (dump_list s) as' \<and> texts (heap s2) as' = texts (heap s) as @ process_lines M \<and>
    (let name = cstr (checking_module s) in
     if hash_spec (table_bytes (table h')) = hash_spec (table_bytes (table h))
     then klog s2 = klog s1 @ [unmodified_line name] \<and> incident_handler s2
     else klog s2 = klog s1 @ [modified_line name] \<and> \<not> incident_handler s2)"
proof -
  obtain h' where h': "hijack o_k w lk hook h = Inr (0, h')" "table h' = (table h)[NR_open := hook]"
    using hijack_run [OF assms(5,6)] by blast
  have "AFTER_MODULE_INIT \<noteq> AFTER_INCIDENT" by (simp add: AFTER_MODULE_INIT_def AFTER_INCIDENT_def)
  then obtain s' as' where s': "carbonite M AFTER_MODULE_INIT s = Inr (s'\<lparr>previous_reason := AFTER_MODULE_INIT\<rparr>)"
    "freeze_frame s s'" "evidence (heap s') (dump_list s) as'" "texts (heap s') as' = texts (heap s) as @ process_lines M"
    using carbonite_texts [OF assms(1,2) _ assms(11), of AFTER_MODULE_INIT] by auto
  define s1 where "s1 = s'\<lparr>previous_reason := AFTER_MODULE_INIT\<rparr>"
  have v: "checker_vars s1 = checker_vars s" "incident_handler s1" "timer_pending s1"
    using freeze_checker_vars [OF s'(2)] freeze_frame_checker [OF s'(2)] assms(3,4)
    by (simp_all add: s1_def ticking_def)
  then have t: "ticking s1" "checking_module s1 = checking_module s" "sys_call_table_hash s1 = sys_call_table_hash s"
    using assms(3) by (simp_all add: ticking_def checker_vars_def)
  have "unat (sys_call_table_size s) = length (table_bytes (table h'))"
    using assms(8) by (simp add: h'(2) table_bytes_length)
  then have hash: "table_hash W s1 = Inr (hash_spec (table_bytes (table h')))"
    using v(1) assms(7,10) table_hash_bytes [of s1 "table h'" W rest]
    by (simp add: checker_vars_def h'(2) [symmetric])
  have ev: "the_drip_dry_carbonite_module_event (carbonite M) V MODULE_STATE_LIVE False HIJACKER_NAME s = Inr s1"
    using s'(1) assms(4) by (simp add: the_drip_dry_carbonite_module_event_def s1_def)
  show ?thesis
  proof (cases "hash_spec (table_bytes (table h')) = hash_spec (table_bytes (table h))")
    case True
    then have "unchanged s1 W" using hash t(3) assms(9) by (simp add: unchanged_def)
    then have "timer_fires (carbonite N) W s1 = Inr (s1\<lparr>klog := klog s1 @ [unmodified_line (cstr (checking_module s))]\<rparr>)"
      using tick_unchanged [OF t(1), of W "carbonite N"] t(2) by simp
    then show ?thesis using h' ev s'(3,4) v(2) True by (auto simp: s1_def)
  next
    case False
    then have r: "readable s1 W" "\<not> unchanged s1 W"
      using hash t(3) assms(9) by (simp_all add: readable_def unchanged_def)
    define s2 where "s2 = printk (modified_line (cstr (checking_module s1))) (s1\<lparr>timer_pending := False\<rparr>)"
    have "carbonite N AFTER_INCIDENT s2 = Inr (s2\<lparr>previous_reason := AFTER_INCIDENT\<rparr>)"
      by (simp add: carbonite_def s2_def s1_def printk_def)
    from carbonite_handler.tick_incident [OF t(1) v(2) r this [unfolded s2_def]]
    show ?thesis using h' ev s'(3,4) t(2) False by (auto simp: s1_def printk_def)
  qed
qed

lemma byte_chars:
  "char_of (16 :: nat) = CHR 0x10" "char_of (32 :: nat) = CHR 0x20" "char_of (48 :: nat) = CHR 0x30"
  "char_of (160 :: nat) = CHR 0xA0" "char_of (0 :: nat) = NUL"
  by code_simp+

lemma word_bytes_small: "unat w < 256 \<Longrightarrow> word_bytes w = char_of (unat w) # replicate 7 NUL"
proof -
  assume w: "unat w < 256"
  have "[0..<8] = 0 # map Suc [0..<7]" by (simp add: upt_rec)
  moreover have "unat w div 256 ^ Suc i = 0" for i
    using w less_le_trans [of "unat w" 256 "256 ^ Suc i"] by simp
  ultimately show ?thesis
    by (simp add: word_bytes_def byte_chars(5) map_replicate_const comp_def del: power_Suc)
qed

lemma example_bytes:
  "table_bytes [0x10, 0x20, 0x30] = CHR 0x10 # replicate 7 NUL @ CHR 0x20 # replicate 7 NUL @ CHR 0x30 # replicate 7 NUL"
  "table_bytes [0x10, 0x20, 0xA0] = CHR 0x10 # replicate 7 NUL @ CHR 0x20 # replicate 7 NUL @ CHR 0xA0 # replicate 7 NUL"
  by (simp_all add: table_bytes_def word_bytes_small byte_chars)

lemma example_hashes:
  "hash_spec (CHR 0x10 # replicate 7 NUL @ CHR 0x20 # replicate 7 NUL @ CHR 0x30 # replicate 7 NUL) \<noteq>
   hash_spec (CHR 0x10 # replicate 7 NUL @ CHR 0x20 # replicate 7 NUL @ CHR 0xA0 # replicate 7 NUL)"
  by code_simp

definition watching :: carbonite_state where
  "watching = (armed NONE)\<lparr>sys_call_table_hash := hash_spec (table_bytes [0x10, 0x20, 0x30]), sys_call_table_size := 24\<rparr>"

lemma watching_fields:
  "heap watching = example_heap example_dump" "dump_list watching = Some 1" "incident_handler watching"
  "ticking watching" "sys_call_table_address watching = 8" "unat (sys_call_table_size watching) = 24"
  "sys_call_table_hash watching = hash_spec (table_bytes [0x10, 0x20, 0x30])" "queue_ready watching"
  using armed_fields [of NONE] armed_ticking [of NONE] armed_ready [of NONE]
  by (simp_all add: watching_def ticking_def queue_ready_def)
    (simp add: armed_def idle_checker_def carbonite_state.defs integrity_state.defs example_chrdev_def
      example_dumps_def chrdev_state.defs dump_state.defs)

theorem hijacker_is_reported_witness:
  "\<exists>h' s1 s2. hijack True (each_symbol [(''sys_call_table'', 8)]) (\<lambda>_. 0) 0xA0 example_table_state = Inr (0, h') \<and>
     the_drip_dry_carbonite_module_event (carbonite (example_machine [])) (example_world []) MODULE_STATE_LIVE False
       HIJACKER_NAME watching = Inr s1 \<and>
     timer_fires (carbonite (example_machine [])) (example_world (table_bytes (table h'))) s1 = Inr s2 \<and>
     klog s2 = klog s1 @ [modified_line (cstr (checking_module watching))] \<and> \<not> incident_handler s2"
proof -
  have t: "table example_table_state = [0x10, 0x20, 0x30]" by (simp add: example_table_state_def)
  have n: "NR_open = Suc (Suc 0)" by (simp add: NR_open_def)

  have sym: "fst (my_kallsyms_lookup_name True (each_symbol [(''sys_call_table'', 8)]) (\<lambda>_. 0) ''sys_call_table''
      (hijacker_search example_table_state)) \<noteq> 0"
    by (simp add: my_kallsyms_lookup_name_def find_symbol_def strncmp_eq_0 KSYM_NAME_LEN_def Let_def)
  have "\<exists>h' s1 s2 as'. hijack True (each_symbol [(''sys_call_table'', 8)]) (\<lambda>_. 0) 0xA0 example_table_state = Inr (0, h') \<and>
    table h' = (table example_table_state)[NR_open := 0xA0] \<and>
    the_drip_dry_carbonite_module_event (carbonite (example_machine [])) (example_world []) MODULE_STATE_LIVE False
       HIJACKER_NAME watching = Inr s1 \<and>
    timer_fires (carbonite (example_machine [])) (example_world (table_bytes [0x10, 0x20, 0xA0])) s1 = Inr s2 \<and>
    evidence (heap s2) (dump_list watching) as' \<and>
    texts (heap s2) as' = texts (heap watching) [2] @ process_lines (example_machine []) \<and>
    (let name = cstr (checking_module watching) in
     if hash_spec (table_bytes (table h')) = hash_spec (table_bytes (table example_table_state))
     then klog s2 = klog s1 @ [unmodified_line name] \<and> incident_handler s2
     else klog s2 = klog s1 @ [modified_line name] \<and> \<not> incident_handler s2)"
    by (rule hijacker_is_reported [OF example_plentiful _ watching_fields(4,3) example_protected sym, where rest = "[]"])
      (simp_all add: watching_fields(1,2,5-8) t n table_bytes_length example_world_def example_evidence [simplified])
  then show ?thesis
    using example_hashes by (auto simp: t n example_bytes)
qed

section \<open>dresden against the hijacker\<close>

text \<open>
  One system with both modules: dresden's variables, and the processor and table that the hijacker
  works on. Its init function leaves the system as it is where it would fault, which it does not on a
  protected table.
\<close>

record attacked_system = dresden_state +
  attacked :: hijacker_state

lemma attacked_log [simp]: "attacked (a\<lparr>klog := x\<rparr>) = attacked a"
  by (cases a) simp

definition hijacker_init ::
  "bool \<Rightarrow> walk \<Rightarrow> (string \<Rightarrow> 64 word) \<Rightarrow> 64 word \<Rightarrow> attacked_system \<Rightarrow> int \<times> attacked_system" where
  "hijacker_init o_k w lk hook a =
     (case hijack o_k w lk hook (attacked a) of
        Inl f \<Rightarrow> (- 1, a)
      | Inr (r, h) \<Rightarrow> (r, a\<lparr>attacked := h\<rparr>))"

text \<open>
  How the kernel loads a module: the notifiers are told that it is coming, the init function that the
  module has by then is run, and the notifiers are told whether the module is live or going.
\<close>

definition load_module :: "nat \<Rightarrow> nat \<Rightarrow> attacked_system module \<Rightarrow> attacked_system module_table \<Rightarrow> attacked_system module_table" where
  "load_module fail_address i m l =
     (let l = fold (module_step fail_address) [Set_up i m, Notify i MODULE_STATE_COMING, Run_init i] l in
      module_step fail_address (Notify i (if last (returned l) = 0 then MODULE_STATE_LIVE else MODULE_STATE_GOING)) l)"

lemma handler_logs_attacked:
  "\<exists>lines. dresden_module_handler fa False m (a :: attacked_system) =
    (if mod_state m = MODULE_STATE_COMING then m\<lparr>mod_init := fail, init_address := fa\<rparr> else m, a\<lparr>klog := klog a @ lines\<rparr>)"
  by (cases "mod_state m") (auto simp: dresden_module_handler_def printk_def Let_def)

lemma notify_handled:
  assumes "mods l i = Some m" "handler_registered (system l)"
    and "dresden_module_handler fa False (m\<lparr>mod_state := st\<rparr>) (system l) = (m', a)"
  shows "module_step fa (Notify i st) l = l\<lparr>mods := (mods l)(i \<mapsto> m'), system := a\<rparr>"
  using assms by simp

lemma load_blocked:
  assumes "handler_registered (system l)"
  shows "attacked (system (load_module fa i m l)) = attacked (system l) \<and> last (returned (load_module fa i m l)) = - 1"
proof -
  define l0 where "l0 = l\<lparr>mods := (mods l)(i \<mapsto> m)\<rparr>"
  have l0: "mods l0 i = Some m" "handler_registered (system l0)" "system l0 = system l"
    using assms by (simp_all add: l0_def)
  obtain xs m2 where xs: "dresden_module_handler fa False (m\<lparr>mod_state := MODULE_STATE_COMING\<rparr>) (system l0) =
      (m2, (system l)\<lparr>klog := klog (system l) @ xs\<rparr>)" "mod_init m2 = fail"
    using handler_logs_attacked [of fa "m\<lparr>mod_state := MODULE_STATE_COMING\<rparr>" "system l"] l0(3) by auto
  define l1 where "l1 = l0\<lparr>mods := (mods l0)(i \<mapsto> m2), system := (system l)\<lparr>klog := klog (system l) @ xs\<rparr>\<rparr>"
  define l2 where "l2 = l1\<lparr>system := snd (fail (system l1)), returned := returned l1 @ [- 1]\<rparr>"
  have steps: "module_step fa (Set_up i m) l = l0" "module_step fa (Notify i MODULE_STATE_COMING) l0 = l1"
    "module_step fa (Run_init i) l1 = l2"
    using notify_handled [OF l0(1,2) xs(1)] xs(2) by (simp_all add: l0_def l1_def l2_def fail_def)
  have l2: "mods l2 i = Some m2" "handler_registered (system l2)" "attacked (system l2) = attacked (system l)"
    "last (returned l2) = - 1"
    using assms by (simp_all add: l2_def l1_def fail_def printk_def)
  have load: "load_module fa i m l = module_step fa (Notify i MODULE_STATE_GOING) l2"
    unfolding load_module_def Let_def list.simps fold_simps steps l2(4) by simp
  obtain ys m3 where "dresden_module_handler fa False (m2\<lparr>mod_state := MODULE_STATE_GOING\<rparr>) (system l2) =
      (m3, (system l2)\<lparr>klog := klog (system l2) @ ys\<rparr>)"
    using handler_logs_attacked [of fa "m2\<lparr>mod_state := MODULE_STATE_GOING\<rparr>" "system l2"] by auto
  from notify_handled [OF l2(1,2) this] show ?thesis using l2(3,4) unfolding load by simp
qed

lemma load_unblocked:
  assumes "\<not> handler_registered (system l)" "mod_init m (system l) = (r, a)" "handler_registered a = handler_registered (system l)"
  shows "system (load_module fa i m l) = a \<and> last (returned (load_module fa i m l)) = r"
  using assms by (simp add: load_module_def Let_def)

text \<open>
  C8: Loading the hijacker while carbonite watches the table depends on dresden. If dresden was engaged
  before, the hijacker's init function fails, the entry of open stays, and for carbonite the table counts
  as unchanged. If not, the init function succeeds and replaces the entry, and the table counts as
  unchanged only if its hash happens to be the same.
\<close>

theorem dresden_guards_table:
  assumes "mod_init m = hijacker_init o_k w lk hook" "protected_table (attacked (system l))"
    and "fst (my_kallsyms_lookup_name o_k w lk ''sys_call_table'' (hijacker_search (attacked (system l)))) \<noteq> 0"
    and "sys_call_table_address s \<noteq> 0" "unat (sys_call_table_size s) = length (table_bytes (table (attacked (system l))))"
    and "sys_call_table_hash s = hash_spec (table_bytes (table (attacked (system l))))"
    and "memory W (sys_call_table_address s) = table_bytes (table (attacked (system (load_module fa i m l)))) @ rest"
  shows "let before = table (attacked (system l)); after = table (attacked (system (load_module fa i m l))) in
    if handler_registered (system l)
    then last (returned (load_module fa i m l)) = - 1 \<and> after = before \<and> unchanged s W
    else last (returned (load_module fa i m l)) = 0 \<and> after = before[NR_open := hook] \<and>
      (unchanged s W \<longleftrightarrow> hash_spec (table_bytes after) = hash_spec (table_bytes before))"
proof (cases "handler_registered (system l)")
  case True
  from load_blocked [OF True, of fa i m] show ?thesis
    using True table_hash_bytes [OF assms(4), of "table (attacked (system l))" W rest] assms(5-7)
    by (simp add: unchanged_def)
next
  case False
  obtain h where h: "hijack o_k w lk hook (attacked (system l)) = Inr (0, h)" "table h = (table (attacked (system l)))[NR_open := hook]"
    using hijack_run [OF assms(2,3)] by blast
  then have "mod_init m (system l) = (0, (system l)\<lparr>attacked := h\<rparr>)" by (simp add: assms(1) hijacker_init_def)
  from load_unblocked [OF False this, of fa i] have
    "system (load_module fa i m l) = (system l)\<lparr>attacked := h\<rparr>" "last (returned (load_module fa i m l)) = 0" by simp_all
  then show ?thesis
    using False h(2) table_hash_bytes [OF assms(4), of "table h" W rest] assms(5-7)
    by (auto simp: unchanged_def table_bytes_length)
qed

definition attacked_table :: "bool \<Rightarrow> attacked_system module_table" where
  "attacked_table engaged = \<lparr>mods = Map.empty,
     system = \<lparr>klog = [], handler_registered = engaged, in_module_list = True, dresden_proc_entry = False,
       attacked = example_table_state\<rparr>, returned = []\<rparr>"

definition hijacker_module :: "attacked_system module" where
  "hijacker_module = \<lparr>mod_name = HIJACKER_NAME, mod_state = MODULE_STATE_COMING,
     mod_init = hijacker_init True (each_symbol [(''sys_call_table'', 8)]) (\<lambda>_. 0) 0xA0,
     init_address = 5, init_size = 1, module_core = 6, core_size = 1\<rparr>"

theorem dresden_guards_table_witness:
  "unchanged watching (example_world (table_bytes (table (attacked (system (load_module 7 1 hijacker_module (attacked_table True))))))) \<and>
   \<not> unchanged watching (example_world (table_bytes (table (attacked (system (load_module 7 1 hijacker_module (attacked_table False)))))))"
proof -
  have t: "table (attacked (system (attacked_table e))) = [0x10, 0x20, 0x30]" for e
    by (simp add: attacked_table_def example_table_state_def)
  have sym: "fst (my_kallsyms_lookup_name True (each_symbol [(''sys_call_table'', 8)]) (\<lambda>_. 0) ''sys_call_table''
      (hijacker_search example_table_state)) \<noteq> 0"
    by (simp add: my_kallsyms_lookup_name_def find_symbol_def strncmp_eq_0 KSYM_NAME_LEN_def Let_def)
  have a: "attacked (system (attacked_table e)) = example_table_state" "handler_registered (system (attacked_table e)) = e" for e
    by (simp_all add: attacked_table_def)
  have n: "NR_open = Suc (Suc 0)" by (simp add: NR_open_def)
  have m: "mod_init hijacker_module = hijacker_init True (each_symbol [(''sys_call_table'', 8)]) (\<lambda>_. 0) 0xA0"
    by (simp add: hijacker_module_def)
  have g: "let before = table (attacked (system (attacked_table e)));
        after = table (attacked (system (load_module 7 1 hijacker_module (attacked_table e)))) in
    if handler_registered (system (attacked_table e))
    then last (returned (load_module 7 1 hijacker_module (attacked_table e))) = - 1 \<and> after = before \<and>
      unchanged watching (example_world (table_bytes after))
    else last (returned (load_module 7 1 hijacker_module (attacked_table e))) = 0 \<and> after = before[NR_open := 0xA0] \<and>
      (unchanged watching (example_world (table_bytes after)) \<longleftrightarrow> hash_spec (table_bytes after) = hash_spec (table_bytes before))" for e
    unfolding Let_def
    by (rule dresden_guards_table [OF m, unfolded Let_def, where rest = "[]"])
      (use sym example_protected in \<open>simp_all add: a watching_fields t [unfolded a] table_bytes_length example_world_def\<close>)
  show ?thesis
    using g [of True] g [of False] example_hashes by (auto simp: Let_def a n example_bytes example_table_state_def)
qed

end
